(* ===== verification/Prelude.thy ===== *)
theory Prelude
  imports Main "HOL-Library.Word"
begin

text \<open>
  Shared vocabulary of the development: the machine types of the C code (an LP64 little-endian
  ABI: 64-bit pointers and \<^verbatim>\<open>size_t\<close>, 32-bit \<^verbatim>\<open>int\<close> and \<^verbatim>\<open>enum\<close>), the byte encoding of
  integers, a flat byte-addressed memory with block loads and stores, C strings in that memory,
  and the lemmas about them that the component theories share.

  Bytes are HOL characters, so a C string is a HOL string. Addresses are 64-bit words and wrap
  around; every block operation works on consecutive addresses from a base.
\<close>

section \<open>Machine types\<close>

type_synonym byte = char
type_synonym addr = "64 word"
type_synonym size_t = "64 word"
type_synonym cint = "32 word"
type_synonym mem = "addr \<Rightarrow> byte"

named_theorems layout_simps \<open>struct layout: sizes and field offsets\<close>
named_theorems mem_simps \<open>loads and stores of the byte memory\<close>

abbreviation NUL :: byte where
  "NUL \<equiv> CHR 0x00"

abbreviation NULL :: addr where
  "NULL \<equiv> 0"

text \<open>
  The two output streams of a process, and what is written to them: each byte with its stream, in the order
  of the calls.
\<close>

datatype stream = Stdout | Stderr

type_synonym writes = "(stream \<times> byte) list"

text \<open>The value of a \<^verbatim>\<open>size_t\<close> converted to C's \<^verbatim>\<open>int\<close>: the low 32 bits read as signed.\<close>

definition int_of_size :: "size_t \<Rightarrow> int" where
  "int_of_size n = sint (ucast n :: 32 word)"

definition strlen :: "string \<Rightarrow> size_t" where
  "strlen s = of_nat (length s)"

text \<open>A C string value holds no NUL byte: its length is where its terminator is.\<close>

definition cstring :: "string \<Rightarrow> bool" where
  "cstring s \<longleftrightarrow> NUL \<notin> set s"

fun opt_all :: "('a \<Rightarrow> bool) \<Rightarrow> 'a option \<Rightarrow> bool" where
  "opt_all P None = True"
| "opt_all P (Some x) = P x"

section \<open>Byte encoding of integers\<close>

fun enc :: "nat \<Rightarrow> nat \<Rightarrow> byte list" where
  "enc 0 v = []"
| "enc (Suc n) v = char_of v # enc n (v div 256)"

fun dec :: "byte list \<Rightarrow> nat" where
  "dec [] = 0"
| "dec (b # bs) = of_char b + 256 * dec bs"

section \<open>Memory\<close>

definition load :: "mem \<Rightarrow> addr \<Rightarrow> nat \<Rightarrow> byte list" where
  "load m a n = map (\<lambda>i. m (a + of_nat i)) [0..<n]"

definition store :: "mem \<Rightarrow> addr \<Rightarrow> byte list \<Rightarrow> mem" where
  "store m a bs = (\<lambda>x. if unat (x - a) < length bs then bs ! unat (x - a) else m x)"

definition load16 :: "mem \<Rightarrow> addr \<Rightarrow> 16 word" where
  "load16 m a = of_nat (dec (load m a 2))"

definition load32 :: "mem \<Rightarrow> addr \<Rightarrow> 32 word" where
  "load32 m a = of_nat (dec (load m a 4))"

definition load64 :: "mem \<Rightarrow> addr \<Rightarrow> 64 word" where
  "load64 m a = of_nat (dec (load m a 8))"

definition store32 :: "mem \<Rightarrow> addr \<Rightarrow> 32 word \<Rightarrow> mem" where
  "store32 m a w = store m a (enc 4 (unat w))"

definition store64 :: "mem \<Rightarrow> addr \<Rightarrow> 64 word \<Rightarrow> mem" where
  "store64 m a w = store m a (enc 8 (unat w))"

text \<open>
  Reading the string a \<^verbatim>\<open>char *\<close> points to: bytes up to the first NUL. It does not return
  (\<open>None\<close>) when no NUL byte follows anywhere.
\<close>

partial_function (option) read_cstr :: "mem \<Rightarrow> addr \<Rightarrow> string option" where
  "read_cstr m a =
     (if m a = NUL then Some []
      else Option.bind (read_cstr m (a + 1)) (\<lambda>s. Some (m a # s)))"

text \<open>A C object of \<open>n\<close> bytes at \<open>a\<close>: not at address zero and not wrapping around.\<close>

definition valid_block :: "addr \<Rightarrow> nat \<Rightarrow> bool" where
  "valid_block a n \<longleftrightarrow> a \<noteq> NULL \<and> unat a + n \<le> 2 ^ 64"

text \<open>
  Blocks seen from a base address: \<open>rel m a i\<close> is the byte at offset \<open>i\<close>, \<open>rd\<close> reads and
  \<open>upd\<close> writes a run of bytes at a natural-number offset. Layout predicates are stated on this
  view, where disjointness is plain arithmetic.
\<close>

definition rel :: "mem \<Rightarrow> addr \<Rightarrow> nat \<Rightarrow> byte" where
  "rel m a i = (if i < 2 ^ 64 then m (a + of_nat i) else NUL)"

definition rd :: "(nat \<Rightarrow> byte) \<Rightarrow> nat \<Rightarrow> nat \<Rightarrow> byte list" where
  "rd g k n = map (\<lambda>i. g (k + i)) [0..<n]"

definition upd :: "(nat \<Rightarrow> byte) \<Rightarrow> nat \<Rightarrow> byte list \<Rightarrow> nat \<Rightarrow> byte" where
  "upd g k bs = (\<lambda>i. if k \<le> i \<and> i < k + length bs then bs ! (i - k) else g i)"

definition rd32 :: "(nat \<Rightarrow> byte) \<Rightarrow> nat \<Rightarrow> 32 word" where
  "rd32 g k = of_nat (dec (rd g k 4))"

definition rd64 :: "(nat \<Rightarrow> byte) \<Rightarrow> nat \<Rightarrow> 64 word" where
  "rd64 g k = of_nat (dec (rd g k 8))"

section \<open>Encoding round trips\<close>

lemma unat_bound: "unat (w :: 'a::len word) < 2 ^ LENGTH('a)"
  by (rule unsigned_less)

lemma length_enc [simp]: "length (enc n v) = n"
  by (induction n v rule: enc.induct) auto

lemma dec_enc: "dec (enc n v) = v mod 256 ^ n"
  by (induction n v rule: enc.induct) (auto simp: mod_mult2_eq)

lemma dec_enc_16 [simp]: "dec (enc 2 (unat (w :: 16 word))) = unat w"
  using unat_bound [of w] by (simp add: dec_enc)

lemma dec_enc_32 [simp]: "dec (enc 4 (unat (w :: 32 word))) = unat w"
  using unat_bound [of w] by (simp add: dec_enc)

lemma dec_enc_64 [simp]: "dec (enc 8 (unat (w :: 64 word))) = unat w"
  using unat_bound [of w] by (simp add: dec_enc)

lemma dec_replicate_NUL [simp]: "dec (replicate n NUL) = 0"
  by (induction n) auto

section \<open>The relative view\<close>

lemma length_load [simp]: "length (load m a n) = n"
  by (simp add: load_def)

lemma length_rd [simp]: "length (rd g k n) = n"
  by (simp add: rd_def)

lemma rd_upd_same [mem_simps]: "n = length bs \<Longrightarrow> rd (upd g k bs) k n = bs"
  by (auto simp: rd_def upd_def intro: nth_equalityI)

lemma rd_upd_other [mem_simps]:
  "k + length bs \<le> j \<or> j + n \<le> k \<Longrightarrow> rd (upd g k bs) j n = rd g j n"
  by (auto simp: rd_def upd_def)

lemma rd_cong: "(\<And>i. k \<le> i \<Longrightarrow> i < k + n \<Longrightarrow> g i = h i) \<Longrightarrow> rd g k n = rd h k n"
  by (simp add: rd_def)

lemma rd_shift [mem_simps]: "rd (\<lambda>i. g (j + i)) k n = rd g (j + k) n"
  by (simp add: rd_def add.assoc)

lemma upd_shift [mem_simps]:
  "(\<lambda>i. upd g (j + k) bs (j + i)) = upd (\<lambda>i. g (j + i)) k bs"
  by (auto simp: upd_def fun_eq_iff)

lemma upd_outside [mem_simps]: "i < k \<or> k + length bs \<le> i \<Longrightarrow> upd g k bs i = g i"
  by (auto simp: upd_def)

text \<open>The offset of an address from a base, without wrap-around when it fits.\<close>

lemma unat_offset: "i < 2 ^ 64 \<Longrightarrow> unat (of_nat i :: addr) = i"
  by (simp add: unat_of_nat)

lemma unat_diff_offset:
  fixes w :: addr
  assumes "i < 2 ^ 64"
  shows "unat (of_nat i - w) = (if unat w \<le> i then i - unat w else i + 2 ^ 64 - unat w)"
  using assms unat_bound [of w] by (simp add: unat_sub_if' unat_offset)

lemma rel_store [mem_simps]:
  assumes "unat w + length bs \<le> 2 ^ 64"
  shows "rel (store m (a + w) bs) a = upd (rel m a) (unat w) bs"
proof
  fix i
  show "rel (store m (a + w) bs) a i = upd (rel m a) (unat w) bs i"
  proof (cases "i < 2 ^ 64")
    case True
    then show ?thesis
      using assms unat_bound [of w] by (auto simp: rel_def upd_def store_def unat_diff_offset)
  next
    case False
    then show ?thesis using assms by (auto simp: rel_def upd_def)
  qed
qed

lemma rel_store0 [mem_simps]:
  "length bs \<le> 2 ^ 64 \<Longrightarrow> rel (store m a bs) a = upd (rel m a) 0 bs"
  using rel_store [of 0 bs m a] by simp

lemma load_rel [mem_simps]:
  assumes "unat w + n \<le> 2 ^ 64"
  shows "load m (a + w) n = rd (rel m a) (unat w) n"
proof -
  have "m (a + w + of_nat i) = rel m a (unat w + i)" if "i < n" for i
  proof -
    from that assms have "unat w + i < 2 ^ 64" by simp
    then show ?thesis by (simp add: rel_def add.assoc)
  qed
  then show ?thesis by (simp add: load_def rd_def)
qed

lemma load_rel0 [mem_simps]: "n \<le> 2 ^ 64 \<Longrightarrow> load m a n = rd (rel m a) 0 n"
  using load_rel [of 0 n m a] by simp

text \<open>The same through a nested base, as in a field of a structure inside a block.\<close>

lemma rel_store2:
  fixes a u v :: addr
  assumes "unat u + unat v + length bs \<le> 2 ^ 64" and "bs \<noteq> []"
  shows "rel (store m (a + u + v) bs) a = upd (rel m a) (unat u + unat v) bs"
proof -
  have "0 < length bs" using assms(2) by blast
  with assms(1) have "unat u + unat v < 2 ^ 64" by linarith
  then have "unat (u + v) = unat u + unat v" by (simp add: unat_word_ariths)
  then show ?thesis using assms(1) rel_store [of "u + v" bs m a] by (simp add: add.assoc)
qed

lemma load_rel2:
  fixes a u v :: addr
  assumes "unat u + unat v + n \<le> 2 ^ 64" and "0 < n"
  shows "load m (a + u + v) n = rd (rel m a) (unat u + unat v) n"
proof -
  have "unat (u + v) = unat u + unat v" using assms by (simp add: unat_word_ariths)
  then show ?thesis using assms(1) load_rel [of "u + v" n m a] by (simp add: add.assoc)
qed

lemma rel_add:
  assumes "unat w + i < 2 ^ 64"
  shows "rel m (a + w) i = rel m a (unat w + i)"
  using assms by (simp add: rel_def add.assoc)

lemma load64_rel: "unat w + 8 \<le> 2 ^ 64 \<Longrightarrow> load64 m (a + w) = rd64 (rel m a) (unat w)"
  by (simp add: load64_def rd64_def load_rel)

lemma load64_rel0: "load64 m a = rd64 (rel m a) 0"
  using load64_rel [of 0 m a] by simp

lemma load32_rel: "unat w + 4 \<le> 2 ^ 64 \<Longrightarrow> load32 m (a + w) = rd32 (rel m a) (unat w)"
  by (simp add: load32_def rd32_def load_rel)

lemma load64_rel2:
  fixes a u v :: addr
  shows "unat u + unat v + 8 \<le> 2 ^ 64
    \<Longrightarrow> load64 m (a + u + v) = rd64 (rel m a) (unat u + unat v)"
  by (simp add: load64_def rd64_def load_rel2)

lemma load32_rel2:
  fixes a u v :: addr
  shows "unat u + unat v + 4 \<le> 2 ^ 64
    \<Longrightarrow> load32 m (a + u + v) = rd32 (rel m a) (unat u + unat v)"
  by (simp add: load32_def rd32_def load_rel2)

lemma enc_not_Nil [simp]: "enc (numeral k) v \<noteq> []"
  by (metis length_enc list.size(3) zero_neq_numeral)

lemmas rel_simps = rel_store rel_store0 rel_store2 load64_rel load64_rel0 load64_rel2
  load32_rel load32_rel2 store64_def store32_def

text \<open>A store leaves every address outside its block alone.\<close>

lemma store_outside: "length bs \<le> unat (x - a) \<Longrightarrow> store m a bs x = m x"
  by (simp add: store_def)

lemma rd32_upd_same [mem_simps]: "rd32 (upd g k (enc 4 v)) k = of_nat v"
  by (simp add: rd32_def rd_upd_same dec_enc of_nat_eq_iff word_of_nat_eq_iff take_bit_eq_mod)

lemma rd64_upd_same [mem_simps]: "rd64 (upd g k (enc 8 v)) k = of_nat v"
  by (simp add: rd64_def rd_upd_same dec_enc word_of_nat_eq_iff take_bit_eq_mod)

lemma rd32_upd_other [mem_simps]:
  "k + length bs \<le> j \<or> j + 4 \<le> k \<Longrightarrow> rd32 (upd g k bs) j = rd32 g j"
  by (simp add: rd32_def rd_upd_other)

lemma rd64_upd_other [mem_simps]:
  "k + length bs \<le> j \<or> j + 8 \<le> k \<Longrightarrow> rd64 (upd g k bs) j = rd64 g j"
  by (simp add: rd64_def rd_upd_other)

lemma rd32_shift [mem_simps]: "rd32 (\<lambda>i. g (j + i)) k = rd32 g (j + k)"
  by (simp add: rd32_def rd_shift)

lemma rd64_shift [mem_simps]: "rd64 (\<lambda>i. g (j + i)) k = rd64 g (j + k)"
  by (simp add: rd64_def rd_shift)

section \<open>Reading C strings\<close>

lemma read_cstr_load:
  assumes "load m a (Suc (length s)) = s @ [NUL]" and "cstring s"
  shows "read_cstr m a = Some s"
  using assms
proof (induction s arbitrary: a)
  case Nil
  then show ?case by (subst read_cstr.simps) (simp add: load_def)
next
  case (Cons c s)
  have split: "load m a (Suc (Suc (length s))) = m a # load m (a + 1) (Suc (length s))"
    by (simp add: load_def map_upt_Suc add.assoc del: upt_Suc)
  from Cons.prems split have "m a = c" and "load m (a + 1) (Suc (length s)) = s @ [NUL]"
    by auto
  moreover from Cons.prems have "c \<noteq> NUL" and "cstring s" by (auto simp: cstring_def)
  moreover from calculation have "read_cstr m (a + 1) = Some s" using Cons.IH by blast
  ultimately show ?case by (subst read_cstr.simps) simp
qed

end
