(* ===== verification/Serialization.thy ===== *)
theory Serialization
  imports Prelude
begin

text \<open>
  The helpers of \<^verbatim>\<open>src/exec/serialization.h\<close> (padding, relative and absolute pointers, range
  check) and the interface that the serializable objects of the library share: a size, an
  in-place format, an in-place serialization and its inverse. The interface is the locale
  \<open>storage\<close>; it is interpreted for locations, stack traces and failures, and its
  \<open>round_trip\<close> lemma is what the event channel between a child and its parent rests on.
\<close>

section \<open>Definitions\<close>

definition serialize_pad_size :: "size_t \<Rightarrow> size_t \<Rightarrow> size_t" where
  "serialize_pad_size sz alignment = ((sz + alignment - 1) div alignment) * alignment"

definition serialize_rel_ptr_from_abs :: "addr \<Rightarrow> addr \<Rightarrow> addr" where
  "serialize_rel_ptr_from_abs ptr base = ptr - base"

definition serialize_abs_ptr_from_rel :: "addr \<Rightarrow> addr \<Rightarrow> addr" where
  "serialize_abs_ptr_from_rel ptr base = base + ptr"

definition serialize_ptr_in_range :: "addr \<Rightarrow> size_t \<Rightarrow> addr \<Rightarrow> size_t \<Rightarrow> bool" where
  "serialize_ptr_in_range ptr ptr_len base len \<longleftrightarrow> ptr \<ge> base \<and> ptr + ptr_len \<le> base + len"

definition alignof_char :: size_t where
  "alignof_char = 1"

definition alignof_ptr :: size_t where
  "alignof_ptr = 8"

text \<open>The nullable C string a \<^verbatim>\<open>const char *\<close> field points to.\<close>

definition read_cstr_opt :: "mem \<Rightarrow> addr \<Rightarrow> string option option" where
  "read_cstr_opt m p = (if p = NULL then Some None else map_option Some (read_cstr m p))"

declare alignof_ptr_def [layout_simps]

section \<open>Words as sizes\<close>

lemma unat_add_size:
  "unat a + unat b < 2 ^ 64 \<Longrightarrow> unat (a + b :: size_t) = unat a + unat b"
  by (simp add: unat_word_ariths)

lemma of_nat_le_size: "n < 2 ^ 64 \<Longrightarrow> (of_nat n :: size_t) \<le> len \<longleftrightarrow> n \<le> unat len"
  by (simp add: word_le_nat_alt unat_offset)

lemma size_less_numeral:
  "(len :: size_t) < numeral k \<longleftrightarrow> unat len < unat (numeral k :: size_t)"
  by (rule word_less_nat_alt)

lemma size_less_of_nat: "n < 2 ^ 64 \<Longrightarrow> len < (of_nat n :: size_t) \<longleftrightarrow> unat len < n"
  by (simp add: word_less_nat_alt unat_offset)

lemma int_of_size_of_nat: "n < 2 ^ 31 \<Longrightarrow> int_of_size (of_nat n) = int n"
  by (simp add: int_of_size_def unsigned_of_nat signed_of_nat take_bit_nat_eq_self
      signed_take_bit_int_eq_self)

lemma int_of_size_unat: "unat n < 2 ^ 31 \<Longrightarrow> int_of_size n = int (unat n)"
  using int_of_size_of_nat [of "unat n"] by simp

text \<open>A pointer into a block at a nonzero offset is not NULL, nor is the offset itself.\<close>

lemma valid_block_ptr:
  "valid_block buf n \<Longrightarrow> unat k < n \<Longrightarrow> buf + k \<noteq> NULL"
proof
  assume blk: "valid_block buf n" and k: "unat k < n" and z: "buf + k = NULL"
  from blk k have "unat buf + unat k < 2 ^ 64" by (auto simp: valid_block_def)
  then have "unat (buf + k) = unat buf + unat k" by (rule unat_add_size)
  with z have "unat buf = 0" by simp
  with blk show False by (simp add: valid_block_def unat_0_iff)
qed

lemma valid_block_offset:
  assumes "valid_block buf n" and "unat k + j \<le> n"
  shows "j = 0 \<or> valid_block (buf + k) j"
proof (cases "j = 0")
  case False
  with assms have "unat buf + unat k < 2 ^ 64" by (auto simp: valid_block_def)
  then have "unat (buf + k) = unat buf + unat k" by (rule unat_add_size)
  moreover from False assms have "buf + k \<noteq> NULL" by (intro valid_block_ptr) auto
  ultimately show ?thesis using assms by (auto simp: valid_block_def)
qed simp

section \<open>Padding, pointers and ranges\<close>

lemma pad_size_char [simp]: "serialize_pad_size n alignof_char = n"
  by (simp add: serialize_pad_size_def alignof_char_def)

lemma unat_pad_size:
  fixes sz alignment :: size_t
  assumes "alignment \<noteq> 0" and "unat sz + unat alignment \<le> 2 ^ 64"
  shows "unat (serialize_pad_size sz alignment)
    = (unat sz + unat alignment - 1) div unat alignment * unat alignment"
proof -
  let ?x = "unat sz + unat alignment - 1"
  have a: "0 < unat alignment" using assms(1) by (simp add: unat_gt_0)
  then have x: "?x < 2 ^ 64" using assms(2) by simp
  have "of_nat ?x = sz + alignment - 1"
    using a by (simp add: of_nat_diff)
  then have "unat (sz + alignment - 1) = ?x" using x unat_offset by metis
  then have "unat ((sz + alignment - 1) div alignment) = ?x div unat alignment"
    by (simp add: unat_div)
  moreover have "?x div unat alignment * unat alignment < 2 ^ 64"
    using x by (rule le_less_trans [OF div_times_less_eq_dividend])
  ultimately show ?thesis
    by (simp add: serialize_pad_size_def unat_word_ariths)
qed

lemma rel_abs_ptr [simp]:
  "serialize_abs_ptr_from_rel (serialize_rel_ptr_from_abs p base) base' = p - base + base'"
  by (simp add: serialize_abs_ptr_from_rel_def serialize_rel_ptr_from_abs_def)

lemma read_cstr_opt_Some:
  "p \<noteq> NULL \<Longrightarrow> load m p (Suc (length s)) = s @ [NUL] \<Longrightarrow> cstring s
   \<Longrightarrow> read_cstr_opt m p = Some (Some s)"
  by (simp add: read_cstr_opt_def read_cstr_load)

lemma read_cstr_opt_None [simp]: "read_cstr_opt m NULL = Some None"
  by (simp add: read_cstr_opt_def)

lemma unat_pad_size_8:
  assumes "n < 2 ^ 32"
  shows "serialize_pad_size (of_nat n) 8 = of_nat ((n + 7) div 8 * 8)"
proof -
  have u: "unat (of_nat n :: size_t) = n" "unat (8 :: size_t) = 8"
    using assms by (simp_all add: unat_offset)
  have "unat (serialize_pad_size (of_nat n) 8) = (n + 8 - 1) div 8 * 8"
    using assms unat_pad_size [of 8 "of_nat n"] unfolding u by simp
  also have "n + 8 - 1 = n + 7" by simp
  finally have "of_nat (unat (serialize_pad_size (of_nat n) 8)) = (of_nat ((n + 7) div 8 * 8) :: size_t)"
    by (rule arg_cong)
  then show ?thesis by (simp only: of_nat_unat ucast_id)
qed

text \<open>A change confined to a block inside a larger one, seen from the larger one.\<close>

lemma frame_rel:
  assumes "\<And>i. n \<le> i \<Longrightarrow> rel m' (a + w) i = rel m (a + w) i" and "unat w + n \<le> 2 ^ 64"
    and "j < unat w \<or> unat w + n \<le> j"
  shows "rel m' a j = rel m a j"
proof (cases "j < 2 ^ 64")
  case True
  let ?i = "unat (of_nat j - w)"
  have i: "n \<le> ?i" using True assms(2,3) by (auto simp: unat_diff_offset)
  have "?i < 2 ^ 64" using unat_bound [of "of_nat j - w"] by simp
  then have "rel k (a + w) ?i = k (a + of_nat j)" for k :: mem
    by (simp add: rel_def)
  with assms(1) [OF i] True show ?thesis by (simp add: rel_def)
qed (simp add: rel_def)

section \<open>The storage interface\<close>

text \<open>
  An object \<open>x\<close> takes \<open>bytes x\<close> bytes. \<open>laid g pb x\<close> says that the block \<open>g\<close> holds \<open>x\<close> with
  every pointer into the block stored as \<open>pb\<close> plus an offset: \<open>pb\<close> is the block's own address
  for a live object and 0 for a serialized one. Sizes stay below \<open>2 ^ 31\<close> because the format
  operations return them as C's \<^verbatim>\<open>int\<close>.
\<close>

definition sub_format ::
  "(mem \<Rightarrow> addr \<Rightarrow> size_t \<Rightarrow> 'a \<Rightarrow> mem \<times> int) \<Rightarrow> mem \<Rightarrow> addr \<Rightarrow> size_t \<Rightarrow> nat \<Rightarrow> size_t \<Rightarrow> 'a
   \<Rightarrow> mem \<times> (int + size_t)" where
  "sub_format fmt m a len slot ofs x =
     (if len < ofs then (m, Inl (-1))
      else let m = store64 m (a + of_nat slot) (a + ofs);
               (m, rc) = fmt m (a + ofs) (len - ofs) x
           in if rc < 0 then (m, Inl rc) else (m, Inr (ofs + of_int rc)))"

definition sub_serialize ::
  "(mem \<Rightarrow> addr \<Rightarrow> size_t \<Rightarrow> mem \<times> int) \<Rightarrow> mem \<Rightarrow> addr \<Rightarrow> size_t \<Rightarrow> nat \<Rightarrow> mem \<times> int" where
  "sub_serialize ser m a len slot =
     (let p = load64 m (a + of_nat slot) in
      if p \<noteq> NULL
      then let (m, rc) = ser m p (len - (p - a))
           in if rc \<noteq> 0 then (m, -1)
              else (store64 m (a + of_nat slot) (load64 m (a + of_nat slot) - a), 0)
      else (m, 0))"

definition sub_deserialize ::
  "(mem \<Rightarrow> addr \<Rightarrow> size_t \<Rightarrow> mem \<times> int) \<Rightarrow> mem \<Rightarrow> addr \<Rightarrow> (addr \<Rightarrow> size_t) \<Rightarrow> nat \<Rightarrow> mem \<times> int" where
  "sub_deserialize des m a len slot =
     (let p = load64 m (a + of_nat slot) in
      if p \<noteq> NULL
      then let (m, rc) = des (store64 m (a + of_nat slot) (a + p)) (a + p) (len p)
           in if rc \<noteq> 0 then (m, -1) else (m, 0)
      else (m, 0))"

locale storage =
  fixes storage_size :: "'a \<Rightarrow> size_t"
    and storage_format :: "mem \<Rightarrow> addr \<Rightarrow> size_t \<Rightarrow> 'a \<Rightarrow> mem \<times> int"
    and storage_serialize :: "mem \<Rightarrow> addr \<Rightarrow> size_t \<Rightarrow> mem \<times> int"
    and storage_deserialize :: "mem \<Rightarrow> addr \<Rightarrow> size_t \<Rightarrow> mem \<times> int"
    and read_obj :: "mem \<Rightarrow> addr \<Rightarrow> 'a option"
    and bytes :: "'a \<Rightarrow> nat"
    and laid :: "(nat \<Rightarrow> byte) \<Rightarrow> addr \<Rightarrow> 'a \<Rightarrow> bool"
    and wf :: "'a \<Rightarrow> bool"
  assumes size_bytes: "bytes x < 2 ^ 31 \<Longrightarrow> unat (storage_size x) = bytes x"
    and format_rc: "bytes x < 2 ^ 31
      \<Longrightarrow> snd (storage_format m buf len x) = (if unat len < bytes x then -1 else int (bytes x))"
    and format_ok: "bytes x < 2 ^ 31 \<Longrightarrow> bytes x \<le> unat len \<Longrightarrow> valid_block buf (bytes x)
      \<Longrightarrow> storage_format m buf len x = (m', rc) \<Longrightarrow> laid (rel m' buf) buf x"
    and format_frame: "bytes x < 2 ^ 31 \<Longrightarrow> storage_format m buf len x = (m', rc)
      \<Longrightarrow> unat len \<le> i \<Longrightarrow> rel m' buf i = rel m buf i"
    and serialize_ok: "bytes x < 2 ^ 31 \<Longrightarrow> valid_block buf (bytes x)
      \<Longrightarrow> laid (rel m buf) buf x \<Longrightarrow> storage_serialize m buf len = (m', rc)
      \<Longrightarrow> rc = 0 \<and> laid (rel m' buf) 0 x \<and> (\<forall>i \<ge> bytes x. rel m' buf i = rel m buf i)"
    and deserialize_ok: "bytes x < 2 ^ 31 \<Longrightarrow> valid_block buf (bytes x)
      \<Longrightarrow> laid (rel m buf) 0 x \<Longrightarrow> storage_deserialize m buf len = (m', rc)
      \<Longrightarrow> rc = 0 \<and> laid (rel m' buf) buf x \<and> (\<forall>i \<ge> bytes x. rel m' buf i = rel m buf i)"
    and laid_cong: "laid g pb x \<Longrightarrow> (\<And>i. i < bytes x \<Longrightarrow> g i = h i) \<Longrightarrow> laid h pb x"
    and read_laid: "wf x \<Longrightarrow> bytes x < 2 ^ 31 \<Longrightarrow> valid_block buf (bytes x)
      \<Longrightarrow> laid (rel m buf) buf x \<Longrightarrow> read_obj m buf = Some x"
begin

text \<open>Formatting into a buffer of exactly the announced size gives the object back.\<close>

lemma format_read:
  assumes "wf x" and "bytes x < 2 ^ 31" and "valid_block buf (bytes x)"
    and "storage_format m buf (storage_size x) x = (m', rc)"
  shows "rc = int (bytes x) \<and> read_obj m' buf = Some x"
  using assms format_ok [OF assms(2) _ assms(3,4)] format_rc [OF assms(2), of m buf "storage_size x"]
  by (simp add: size_bytes read_laid)

text \<open>
  Formatted and serialized in one address space, copied byte for byte to any block of another,
  and deserialized there: the object arrives.
\<close>

lemma wire_laid:
  assumes "laid (rel m src) 0 x" and "bytes x < 2 ^ 31" and "n = bytes x"
  shows "laid (rel (store m3 dst (load m src n)) dst) 0 x"
proof (rule laid_cong [OF assms(1)])
  fix i
  assume "i < bytes x"
  with assms(2,3) show "rel m src i = rel (store m3 dst (load m src n)) dst i"
    by (simp add: rel_store0 upd_def load_rel0 rd_def)
qed

lemma round_trip:
  assumes wf: "wf x" and n: "bytes x < 2 ^ 31"
    and src: "valid_block src (bytes x)" and dst: "valid_block dst (bytes x)"
    and fmt: "storage_format m src (storage_size x) x = (m1, rc1)"
    and ser: "storage_serialize m1 src (storage_size x) = (m2, rc2)"
    and wire: "wire = load m2 src (unat (storage_size x))"
    and des: "storage_deserialize (store m3 dst wire) dst len = (m4, rc4)"
  shows "rc1 = int (unat (storage_size x)) \<and> rc2 = 0 \<and> rc4 = 0 \<and> read_obj m4 dst = Some x"
proof -
  have size: "unat (storage_size x) = bytes x" using n by (rule size_bytes)
  have f: "rc1 = int (bytes x)" "laid (rel m1 src) src x"
    using format_rc [OF n, of m src "storage_size x"] format_ok [OF n _ src fmt] size fmt by simp_all
  from serialize_ok [OF n src f(2) ser] have s: "rc2 = 0" "laid (rel m2 src) 0 x" by simp_all
  from wire_laid [OF s(2) n size] wire have "laid (rel (store m3 dst wire) dst) 0 x" by simp
  from deserialize_ok [OF n dst this des] have d: "rc4 = 0" "laid (rel m4 dst) dst x"
    by simp_all
  from read_laid [OF wf n dst d(2)] f(1) s(1) d(1) size show ?thesis by simp
qed

text \<open>The operations on an object that sits at offset \<open>w\<close> of a block at \<open>a\<close>.\<close>

lemma laid_at:
  assumes "unat w + bytes x \<le> 2 ^ 64"
  shows "laid (rel m (a + w)) pb x \<longleftrightarrow> laid (\<lambda>i. rel m a (unat w + i)) pb x"
  using assms by (auto elim!: laid_cong simp: rel_add)

lemma format_at:
  assumes "bytes x < 2 ^ 31" and "bytes x \<le> unat len" and "valid_block (a + w) (bytes x)"
    and "unat w + unat len \<le> 2 ^ 64" and "storage_format m (a + w) len x = (m', rc)"
  shows "laid (\<lambda>i. rel m' a (unat w + i)) (a + w) x \<and>
    (\<forall>j. j < unat w \<or> unat w + unat len \<le> j \<longrightarrow> rel m' a j = rel m a j)"
proof -
  from format_ok [OF assms(1-3,5)] have "laid (rel m' (a + w)) (a + w) x" .
  moreover have "rel m' a j = rel m a j" if "j < unat w \<or> unat w + unat len \<le> j" for j
    using format_frame [OF assms(1,5)] assms(4) that by (rule frame_rel)
  ultimately show ?thesis using assms(2,4) by (simp add: laid_at)
qed

lemma serialize_at:
  assumes "bytes x < 2 ^ 31" and "valid_block (a + w) (bytes x)"
    and "unat w + bytes x \<le> 2 ^ 64" and "laid (\<lambda>i. rel m a (unat w + i)) (a + w) x"
    and "storage_serialize m (a + w) len = (m', rc)"
  shows "rc = 0 \<and> laid (\<lambda>i. rel m' a (unat w + i)) 0 x \<and>
    (\<forall>j. j < unat w \<or> unat w + bytes x \<le> j \<longrightarrow> rel m' a j = rel m a j)"
proof -
  from serialize_ok [OF assms(1,2) _ assms(5)] assms(3,4)
  have s: "rc = 0" "laid (rel m' (a + w)) 0 x" "\<And>i. bytes x \<le> i \<Longrightarrow> rel m' (a + w) i = rel m (a + w) i"
    by (simp_all add: laid_at)
  have "rel m' a j = rel m a j" if "j < unat w \<or> unat w + bytes x \<le> j" for j
    using s(3) assms(3) that by (rule frame_rel)
  with s(1,2) show ?thesis using assms(3) by (simp add: laid_at)
qed

lemma deserialize_at:
  assumes "bytes x < 2 ^ 31" and "valid_block (a + w) (bytes x)"
    and "unat w + bytes x \<le> 2 ^ 64" and "laid (\<lambda>i. rel m a (unat w + i)) 0 x"
    and "storage_deserialize m (a + w) len = (m', rc)"
  shows "rc = 0 \<and> laid (\<lambda>i. rel m' a (unat w + i)) (a + w) x \<and>
    (\<forall>j. j < unat w \<or> unat w + bytes x \<le> j \<longrightarrow> rel m' a j = rel m a j)"
proof -
  from deserialize_ok [OF assms(1,2) _ assms(5)] assms(3,4)
  have s: "rc = 0" "laid (rel m' (a + w)) (a + w) x"
      "\<And>i. bytes x \<le> i \<Longrightarrow> rel m' (a + w) i = rel m (a + w) i"
    by (simp_all add: laid_at)
  have "rel m' a j = rel m a j" if "j < unat w \<or> unat w + bytes x \<le> j" for j
    using s(3) assms(3) that by (rule frame_rel)
  with s(1,2) show ?thesis using assms(3) by (simp add: laid_at)
qed

text \<open>
  A part \<open>x\<close> of a larger block at \<open>a\<close>, formatted at offset \<open>k\<close> after the pointer to it is written
  to offset \<open>slot\<close> of the header.
\<close>

lemma sub_format_rc:
  assumes "bytes x < 2 ^ 31" and "k < 2 ^ 64"
  shows "snd (sub_format storage_format m a len slot (of_nat k) x)
    = (if unat len < k + bytes x then Inl (-1) else Inr (of_nat (k + bytes x)))"
proof (cases "len < of_nat k")
  case True
  then have "unat len < k" using assms(2) by (simp add: size_less_of_nat)
  with True show ?thesis by (simp add: sub_format_def)
next
  case False
  then have "of_nat k \<le> len" by simp
  then have "unat (len - of_nat k) = unat len - k" "k \<le> unat len"
    using assms by (simp_all add: unat_sub unat_offset of_nat_le_size)
  then show ?thesis using False assms(1)
    by (auto simp: sub_format_def Let_def case_prod_beta format_rc)
qed

lemma sub_format_ok:
  assumes "bytes x < 2 ^ 31" and "k + bytes x \<le> unat len" and "valid_block a (k + bytes x)"
    and "0 < bytes x" and "slot + 8 \<le> k"
    and "sub_format storage_format m a len slot (of_nat k) x = (m', r)"
  shows "laid (\<lambda>i. rel m' a (k + i)) (a + of_nat k) x \<and> rd64 (rel m' a) slot = a + of_nat k"
proof -
  have k: "k < 2 ^ 64" "slot < 2 ^ 64" "slot + 8 \<le> 2 ^ 64"
    using assms(2,4,5) unat_bound [of len] by simp_all
  have le: "of_nat k \<le> len" using assms(2) k by (simp add: of_nat_le_size)
  let ?m = "store64 m (a + of_nat slot) (a + of_nat k)"
  obtain rc where fmt: "storage_format ?m (a + of_nat k) (len - of_nat k) x = (m', rc)"
    using assms(6) le [THEN leD] by (auto simp: sub_format_def Let_def split: prod.splits if_splits)
  have len: "unat (len - of_nat k) = unat len - k" using le k by (simp add: unat_sub unat_offset)
  have blk: "valid_block (a + of_nat k) (bytes x)"
    using valid_block_offset [of a "k + bytes x" "of_nat k" "bytes x"] assms(3,4) k
    by (simp add: unat_offset)
  have "laid (\<lambda>i. rel m' a (unat (of_nat k :: size_t) + i)) (a + of_nat k) x \<and>
    (\<forall>j. j < unat (of_nat k :: size_t) \<or> unat (of_nat k :: size_t) + unat (len - of_nat k) \<le> j
      \<longrightarrow> rel m' a j = rel ?m a j)"
    using assms(2) k unat_bound [of len]
    by (intro format_at [OF assms(1) _ blk _ fmt]) (simp_all add: len unat_offset)
  then have f: "laid (\<lambda>i. rel m' a (k + i)) (a + of_nat k) x" "\<And>j. j < k \<Longrightarrow> rel m' a j = rel ?m a j"
    using assms(2) k by (auto simp: len unat_offset)
  have m: "rel ?m a = upd (rel m a) slot (enc 8 (unat (a + of_nat k)))"
    using k by (simp add: store64_def rel_store unat_offset)
  have "rd (rel m' a) slot 8 = rd (rel ?m a) slot 8"
    using assms(5) f(2) by (intro rd_cong) simp
  then have "rd64 (rel m' a) slot = a + of_nat k"
    unfolding rd64_def m by (simp add: rd_upd_same)
  with f(1) show ?thesis by simp
qed

lemma sub_format_frame:
  assumes "bytes x < 2 ^ 31" and "slot + 8 \<le> unat len" and "k < 2 ^ 64"
    and "sub_format storage_format m a len slot (of_nat k) x = (m', r)"
    and "j < k \<or> unat len \<le> j" and "j < slot \<or> slot + 8 \<le> j"
  shows "rel m' a j = rel m a j"
proof (cases "len < of_nat k")
  case True
  with assms(4) show ?thesis by (simp add: sub_format_def)
next
  case False
  let ?m = "store64 m (a + of_nat slot) (a + of_nat k)"
  obtain m1 rc where fmt: "storage_format ?m (a + of_nat k) (len - of_nat k) x = (m1, rc)"
    by (cases "storage_format ?m (a + of_nat k) (len - of_nat k) x")
  have m': "m' = m1" using assms(4) fmt False by (simp add: sub_format_def Let_def split: if_splits)
  have le: "of_nat k \<le> len" using False by simp
  have len: "unat (len - of_nat k) = unat len - k" "k \<le> unat len"
    using le assms(3) by (simp_all add: unat_sub unat_offset of_nat_le_size)
  have "rel m1 a j = rel ?m a j"
  proof (rule frame_rel [of "unat len - k" m1 a "of_nat k"])
    show "rel m1 (a + of_nat k) i = rel ?m (a + of_nat k) i" if "unat len - k \<le> i" for i
      using format_frame [OF assms(1) fmt] that by (simp add: len)
  qed (use len assms(3,5) unat_bound [of len] in \<open>auto simp: unat_offset\<close>)
  also have "\<dots> = rel m a j"
    using assms(2,6) unat_bound [of len] by (simp add: store64_def rel_store unat_offset upd_outside)
  finally show ?thesis by (simp add: m')
qed

text \<open>Serializing such a part in place, then its pointer; and the pointer first, then the part.\<close>

lemma sub_serialize_ok:
  assumes "bytes x < 2 ^ 31" and "valid_block a (k + bytes x)" and "0 < bytes x"
    and "slot + 8 \<le> k" and "laid (\<lambda>i. rel m a (k + i)) (a + of_nat k) x"
    and "rd64 (rel m a) slot = a + of_nat k"
    and "storage_serialize m (a + of_nat k) len = (m1, rc)"
    and "m' = store64 m1 (a + of_nat slot) (load64 m1 (a + of_nat slot) - a)"
  shows "rc = 0 \<and> laid (\<lambda>i. rel m' a (k + i)) 0 x \<and> rd64 (rel m' a) slot = of_nat k \<and>
    (\<forall>j. j < k \<or> k + bytes x \<le> j \<longrightarrow> j < slot \<or> slot + 8 \<le> j \<longrightarrow> rel m' a j = rel m a j)"
proof -
  have k: "k < 2 ^ 64" "k + bytes x \<le> 2 ^ 64" "slot < 2 ^ 64" "slot + 8 \<le> 2 ^ 64"
    using assms(2-4) by (auto simp: valid_block_def)
  have blk: "valid_block (a + of_nat k) (bytes x)"
    using valid_block_offset [of a "k + bytes x" "of_nat k" "bytes x"] assms(2,3) k
    by (simp add: unat_offset)
  have s: "rc = 0" "laid (\<lambda>i. rel m1 a (k + i)) 0 x"
      "\<And>j. j < k \<or> k + bytes x \<le> j \<Longrightarrow> rel m1 a j = rel m a j"
    using serialize_at [OF assms(1) blk _ _ assms(7)] assms(5) k by (auto simp: unat_offset)
  have "rd (rel m1 a) slot 8 = rd (rel m a) slot 8" using assms(4) s(3) by (intro rd_cong) simp
  then have "load64 m1 (a + of_nat slot) = a + of_nat k"
    using assms(6) k by (simp add: load64_rel unat_offset rd64_def)
  then have m': "rel m' a = upd (rel m1 a) slot (enc 8 (unat (of_nat k :: addr)))"
    using assms(8) k by (simp add: store64_def rel_store unat_offset)
  have "laid (\<lambda>i. rel m' a (k + i)) 0 x"
    using assms(4) by (auto intro: laid_cong [OF s(2)] simp: m' upd_outside)
  then show ?thesis using s(1,3) k by (auto simp: m' rd64_upd_same upd_outside unat_offset)
qed

lemma sub_deserialize_ok:
  assumes "bytes x < 2 ^ 31" and "valid_block a (k + bytes x)" and "0 < bytes x"
    and "slot + 8 \<le> k" and "laid (\<lambda>i. rel m a (k + i)) 0 x"
    and "storage_deserialize (store64 m (a + of_nat slot) (a + of_nat k)) (a + of_nat k) len = (m', rc)"
  shows "rc = 0 \<and> laid (\<lambda>i. rel m' a (k + i)) (a + of_nat k) x \<and>
    rd64 (rel m' a) slot = a + of_nat k \<and>
    (\<forall>j. j < k \<or> k + bytes x \<le> j \<longrightarrow> j < slot \<or> slot + 8 \<le> j \<longrightarrow> rel m' a j = rel m a j)"
proof -
  have k: "k < 2 ^ 64" "k + bytes x \<le> 2 ^ 64" "slot < 2 ^ 64" "slot + 8 \<le> 2 ^ 64"
    using assms(2-4) by (auto simp: valid_block_def)
  have blk: "valid_block (a + of_nat k) (bytes x)"
    using valid_block_offset [of a "k + bytes x" "of_nat k" "bytes x"] assms(2,3) k
    by (simp add: unat_offset)
  let ?m = "store64 m (a + of_nat slot) (a + of_nat k)"
  have m: "rel ?m a = upd (rel m a) slot (enc 8 (unat (a + of_nat k)))"
    using k by (simp add: store64_def rel_store unat_offset)
  have "laid (\<lambda>i. rel ?m a (k + i)) 0 x"
    using assms(4) by (auto intro: laid_cong [OF assms(5)] simp: m upd_outside)
  then have d: "rc = 0" "laid (\<lambda>i. rel m' a (k + i)) (a + of_nat k) x"
      "\<And>j. j < k \<or> k + bytes x \<le> j \<Longrightarrow> rel m' a j = rel ?m a j"
    using deserialize_at [OF assms(1) blk _ _ assms(6)] k by (auto simp: unat_offset)
  have "rd (rel m' a) slot 8 = rd (rel ?m a) slot 8" using assms(4) d(3) by (intro rd_cong) simp
  then have "rd64 (rel m' a) slot = a + of_nat k" unfolding rd64_def m by (simp add: rd_upd_same)
  with d show ?thesis by (simp add: m upd_outside)
qed

text \<open>The same for an optional part, which is absent when its pointer is NULL.\<close>

lemma sub_serialize_opt:
  assumes "slot + 8 \<le> 2 ^ 64"
    and "rd64 (rel m a) slot = (case xo of None \<Rightarrow> NULL | Some x \<Rightarrow> a + of_nat k)"
    and "opt_all (\<lambda>x. bytes x < 2 ^ 31 \<and> valid_block a (k + bytes x) \<and> 0 < bytes x \<and> slot + 8 \<le> k \<and>
      laid (\<lambda>i. rel m a (k + i)) (a + of_nat k) x) xo"
    and "sub_serialize storage_serialize m a len slot = (m', rc)"
  shows "rc = 0 \<and> opt_all (laid (\<lambda>i. rel m' a (k + i)) 0) xo \<and>
    rd64 (rel m' a) slot = (case xo of None \<Rightarrow> NULL | Some x \<Rightarrow> of_nat k) \<and>
    (\<forall>j. (case xo of None \<Rightarrow> True | Some x \<Rightarrow> j < k \<or> k + bytes x \<le> j) \<longrightarrow> j < slot \<or> slot + 8 \<le> j
       \<longrightarrow> rel m' a j = rel m a j)"
proof (cases xo)
  case None
  then have "load64 m (a + of_nat slot) = NULL" using assms(1,2) by (simp add: load64_rel unat_offset)
  with None assms(2,4) show ?thesis by (auto simp: sub_serialize_def)
next
  case (Some x)
  with assms(3) have x: "bytes x < 2 ^ 31" "valid_block a (k + bytes x)" "0 < bytes x" "slot + 8 \<le> k"
      "laid (\<lambda>i. rel m a (k + i)) (a + of_nat k) x" by simp_all
  have slot: "rd64 (rel m a) slot = a + of_nat k" using Some assms(2) by simp
  then have p: "load64 m (a + of_nat slot) = a + of_nat k"
    using assms(1) by (simp add: load64_rel unat_offset)
  have "k + bytes x \<le> 2 ^ 64" using x(2) by (simp add: valid_block_def)
  then have nz: "a + of_nat k \<noteq> NULL"
    using x(2,3) by (intro valid_block_ptr [OF x(2)]) (simp add: unat_offset)
  obtain m1 r where ser: "storage_serialize m (a + of_nat k) (len - (a + of_nat k - a)) = (m1, r)"
    by (meson surj_pair)
  note S = sub_serialize_ok [OF x slot ser refl]
  then have "m' = store64 m1 (a + of_nat slot) (load64 m1 (a + of_nat slot) - a)" "rc = 0"
    using assms(4) p nz ser by (auto simp: sub_serialize_def Let_def)
  with S Some show ?thesis by simp
qed

lemma sub_deserialize_opt:
  assumes "slot + 8 \<le> 2 ^ 64"
    and "rd64 (rel m a) slot = (case xo of None \<Rightarrow> NULL | Some x \<Rightarrow> of_nat k)"
    and "opt_all (\<lambda>x. bytes x < 2 ^ 31 \<and> valid_block a (k + bytes x) \<and> 0 < bytes x \<and> slot + 8 \<le> k \<and>
      laid (\<lambda>i. rel m a (k + i)) 0 x) xo"
    and "sub_deserialize storage_deserialize m a len slot = (m', rc)"
  shows "rc = 0 \<and> opt_all (laid (\<lambda>i. rel m' a (k + i)) (a + of_nat k)) xo \<and>
    rd64 (rel m' a) slot = (case xo of None \<Rightarrow> NULL | Some x \<Rightarrow> a + of_nat k) \<and>
    (\<forall>j. (case xo of None \<Rightarrow> True | Some x \<Rightarrow> j < k \<or> k + bytes x \<le> j) \<longrightarrow> j < slot \<or> slot + 8 \<le> j
       \<longrightarrow> rel m' a j = rel m a j)"
proof (cases xo)
  case None
  then have "load64 m (a + of_nat slot) = NULL" using assms(1,2) by (simp add: load64_rel unat_offset)
  with None assms(2,4) show ?thesis by (auto simp: sub_deserialize_def)
next
  case (Some x)
  with assms(3) have x: "bytes x < 2 ^ 31" "valid_block a (k + bytes x)" "0 < bytes x" "slot + 8 \<le> k"
      "laid (\<lambda>i. rel m a (k + i)) 0 x" by simp_all
  have p: "load64 m (a + of_nat slot) = of_nat k"
    using Some assms(1,2) by (simp add: load64_rel unat_offset)
  have k: "k < 2 ^ 64" "0 < k" using x(2-4) by (auto simp: valid_block_def)
  then have nz: "(of_nat k :: addr) \<noteq> NULL" using unat_offset [of k] by auto
  obtain m1 r where des: "storage_deserialize (store64 m (a + of_nat slot) (a + of_nat k))
      (a + of_nat k) (len (of_nat k)) = (m1, r)" by (meson surj_pair)
  note D = sub_deserialize_ok [OF x des]
  then have "m' = m1" "rc = 0"
    using assms(4) p nz des by (auto simp: sub_deserialize_def Let_def)
  with D Some show ?thesis by simp
qed

end

end
