(* ===== verification/Location.thy ===== *)
theory Location
  imports Serialization
begin

text \<open>
  \<^verbatim>\<open>src/exec/location.c\<close>: source-code locations. A \<^verbatim>\<open>ctest_location_t\<close> is read as the record
  \<open>ctest_location\<close> (its \<^verbatim>\<open>filename\<close> pointer as the string it points to, \<open>None\<close> for NULL); the
  storage operations write and rewrite its 16-byte image (filename pointer at 0, line at 8) and
  the filename bytes behind it.
\<close>

section \<open>Definitions\<close>

record ctest_location =
  loc_filename :: "string option"
  loc_line :: cint

definition sizeof_location :: size_t where
  "sizeof_location = 16"

definition alignof_location :: size_t where
  "alignof_location = alignof_ptr"

definition off_loc_filename :: size_t where
  "off_loc_filename = 0"

definition off_loc_line :: size_t where
  "off_loc_line = 8"

definition location_storage_size :: "ctest_location \<Rightarrow> size_t" where
  "location_storage_size location =
     (let sz = sizeof_location in
      case loc_filename location of
        Some filename \<Rightarrow> serialize_pad_size sz alignof_char + strlen filename + 1
      | None \<Rightarrow> sz)"

definition location_storage_format :: "mem \<Rightarrow> addr \<Rightarrow> size_t \<Rightarrow> ctest_location \<Rightarrow> mem \<times> int" where
  "location_storage_format m buf len location =
     (let ofs = 0 + sizeof_location in
      if ofs > len then (m, -1)
      else case loc_filename location of
        Some filename \<Rightarrow>
          (let filename_ofs = serialize_pad_size ofs alignof_char;
               filename_len = strlen filename + 1;
               ofs = filename_ofs + filename_len
           in if ofs > len then (m, -1)
              else let m = store64 m (buf + off_loc_filename) (buf + filename_ofs);
                       m = store m (buf + filename_ofs) (filename @ [NUL]);
                       m = store32 m (buf + off_loc_line) (loc_line location)
                   in (m, int_of_size ofs))
      | None \<Rightarrow>
          (let m = store64 m (buf + off_loc_filename) NULL;
               m = store32 m (buf + off_loc_line) (loc_line location)
           in (m, int_of_size ofs)))"

definition location_storage_serialize :: "mem \<Rightarrow> addr \<Rightarrow> size_t \<Rightarrow> mem \<times> int" where
  "location_storage_serialize m buf len =
     (let filename = load64 m (buf + off_loc_filename) in
      (if filename \<noteq> NULL
       then store64 m (buf + off_loc_filename) (serialize_rel_ptr_from_abs filename buf)
       else m, 0))"

definition location_storage_deserialize :: "mem \<Rightarrow> addr \<Rightarrow> size_t \<Rightarrow> mem \<times> int" where
  "location_storage_deserialize m buf len =
     (let filename = load64 m (buf + off_loc_filename) in
      (if filename \<noteq> NULL
       then store64 m (buf + off_loc_filename) (serialize_abs_ptr_from_rel filename buf)
       else m, 0))"

text \<open>What a reader of the structure at \<open>p\<close> sees.\<close>

definition read_location :: "mem \<Rightarrow> addr \<Rightarrow> ctest_location option" where
  "read_location m p =
     map_option (\<lambda>filename. \<lparr>loc_filename = filename, loc_line = load32 m (p + off_loc_line)\<rparr>)
       (read_cstr_opt m (load64 m (p + off_loc_filename)))"

section \<open>Layout\<close>

definition location_bytes :: "ctest_location \<Rightarrow> nat" where
  "location_bytes l = (case loc_filename l of None \<Rightarrow> 16 | Some s \<Rightarrow> 17 + length s)"

definition location_wf :: "ctest_location \<Rightarrow> bool" where
  "location_wf l \<longleftrightarrow> opt_all cstring (loc_filename l)"

definition location_laid :: "(nat \<Rightarrow> byte) \<Rightarrow> addr \<Rightarrow> ctest_location \<Rightarrow> bool" where
  "location_laid g pb l \<longleftrightarrow>
     rd64 g 0 = (case loc_filename l of None \<Rightarrow> NULL | Some s \<Rightarrow> pb + 16) \<and>
     rd32 g 8 = loc_line l \<and>
     (case loc_filename l of None \<Rightarrow> True | Some s \<Rightarrow> rd g 16 (Suc (length s)) = s @ [NUL])"

lemmas location_layout [layout_simps] =
  sizeof_location_def alignof_location_def off_loc_filename_def off_loc_line_def

lemma location_size_of_nat: "location_storage_size l = of_nat (location_bytes l)"
  by (simp add: location_storage_size_def location_bytes_def strlen_def layout_simps
      split: option.split)

lemma location_bytes_ge: "16 \<le> location_bytes l"
  by (simp add: location_bytes_def split: option.split)

lemma location_format_eq:
  assumes "location_bytes l < 2 ^ 31"
  shows "location_storage_format m buf len l =
    (if unat len < location_bytes l then (m, -1)
     else (case loc_filename l of
        None \<Rightarrow> store32 (store64 m buf NULL) (buf + 8) (loc_line l)
      | Some s \<Rightarrow> store32 (store (store64 m buf (buf + 16)) (buf + 16) (s @ [NUL])) (buf + 8)
          (loc_line l), int (location_bytes l)))"
proof (cases "loc_filename l")
  case None
  then show ?thesis
    using int_of_size_of_nat [of 16]
    by (simp add: location_storage_format_def location_bytes_def layout_simps Let_def
        size_less_numeral)
next
  case (Some s)
  then have n: "17 + length s < 2 ^ 31" using assms by (simp add: location_bytes_def)
  have w: "16 + (of_nat (length s) + 1) = (of_nat (17 + length s) :: size_t)" by simp
  have c: "len < of_nat (17 + length s) \<longleftrightarrow> unat len < 17 + length s"
    using n by (intro size_less_of_nat) simp
  show ?thesis
    using Some int_of_size_of_nat [OF n] c
    by (auto simp: location_storage_format_def location_bytes_def layout_simps Let_def strlen_def
        size_less_numeral w simp del: of_nat_add of_nat_Suc)
qed

lemma location_format_ok:
  assumes "location_bytes l < 2 ^ 31" and "location_bytes l \<le> unat len"
    and "location_storage_format m buf len l = (m', rc)"
  shows "location_laid (rel m' buf) buf l"
proof (cases "loc_filename l")
  case None
  with assms show ?thesis
    by (auto simp: location_format_eq location_laid_def rel_simps mem_simps)
next
  case (Some s)
  with assms(1) have "17 + length s < 2 ^ 31" by (simp add: location_bytes_def)
  with Some assms show ?thesis
    by (auto simp: location_format_eq location_laid_def rel_simps mem_simps)
qed

lemma location_format_frame:
  assumes "location_bytes l < 2 ^ 31" and "location_storage_format m buf len l = (m', rc)"
    and "unat len \<le> i"
  shows "rel m' buf i = rel m buf i"
proof (cases "unat len < location_bytes l")
  case True
  with assms show ?thesis by (simp add: location_format_eq)
next
  case False
  then have i: "location_bytes l \<le> i" using assms(3) by simp
  show ?thesis
  proof (cases "loc_filename l")
    case None
    with i have "16 \<le> i" by (simp add: location_bytes_def)
    with None False assms show ?thesis
      by (auto simp: location_format_eq rel_simps mem_simps)
  next
    case (Some s)
    with i assms(1) have "17 + length s \<le> i" "17 + length s < 2 ^ 31"
      by (simp_all add: location_bytes_def)
    with Some False assms show ?thesis
      by (auto simp: location_format_eq rel_simps mem_simps)
  qed
qed

text \<open>Rewriting the one pointer of a location, between two pointer bases.\<close>

lemma location_rebase:
  assumes "location_laid (rel m buf) pb l"
    and "m' = (if load64 m buf \<noteq> NULL then store64 m buf q else m)"
    and "loc_filename l \<noteq> None \<Longrightarrow> pb + 16 \<noteq> NULL \<and> q = pb' + 16"
  shows "location_laid (rel m' buf) pb' l \<and> (\<forall>i \<ge> location_bytes l. rel m' buf i = rel m buf i)"
proof (cases "loc_filename l")
  case None
  with assms show ?thesis by (auto simp: location_laid_def rel_simps)
next
  case (Some s)
  with assms show ?thesis
    by (auto simp: location_laid_def location_bytes_def rel_simps mem_simps)
qed

lemma location_serialize_ok:
  assumes "valid_block buf (location_bytes l)" and "location_laid (rel m buf) buf l"
    and "location_storage_serialize m buf len = (m', rc)"
  shows "rc = 0 \<and> location_laid (rel m' buf) 0 l \<and>
    (\<forall>i \<ge> location_bytes l. rel m' buf i = rel m buf i)"
proof -
  have "loc_filename l \<noteq> None \<Longrightarrow> buf + 16 \<noteq> NULL"
    using assms(1) by (intro valid_block_ptr) (auto simp: location_bytes_def)
  moreover have "loc_filename l \<noteq> None \<Longrightarrow> load64 m buf = buf + 16"
    using assms(2) by (auto simp: location_laid_def rel_simps)
  ultimately show ?thesis
    using assms(3) location_rebase [OF assms(2), of m' "load64 m buf - buf" 0]
    by (auto simp: location_storage_serialize_def serialize_rel_ptr_from_abs_def layout_simps
        Let_def)
qed

lemma location_deserialize_ok:
  assumes "location_laid (rel m buf) 0 l"
    and "location_storage_deserialize m buf len = (m', rc)"
  shows "rc = 0 \<and> location_laid (rel m' buf) buf l \<and>
    (\<forall>i \<ge> location_bytes l. rel m' buf i = rel m buf i)"
proof -
  have "loc_filename l \<noteq> None \<Longrightarrow> load64 m buf = 16"
    using assms(1) by (auto simp: location_laid_def rel_simps)
  then show ?thesis
    using assms(2) location_rebase [OF assms(1), of m' "buf + load64 m buf" buf]
    by (auto simp: location_storage_deserialize_def serialize_abs_ptr_from_rel_def layout_simps
        Let_def)
qed

lemma location_laid_cong:
  assumes "location_laid g pb l" and "\<And>i. i < location_bytes l \<Longrightarrow> g i = h i"
  shows "location_laid h pb l"
proof -
  have "rd g 0 8 = rd h 0 8" "rd g 8 4 = rd h 8 4"
    using location_bytes_ge [of l] by (auto intro!: rd_cong assms(2))
  moreover have "rd g 16 (Suc (length s)) = rd h 16 (Suc (length s))" if "loc_filename l = Some s" for s
    using that by (intro rd_cong assms(2)) (simp add: location_bytes_def)
  ultimately show ?thesis
    using assms(1) by (auto simp: location_laid_def rd32_def rd64_def split: option.splits)
qed

lemma location_read_laid:
  assumes "location_wf l" and "location_bytes l < 2 ^ 31"
    and "valid_block buf (location_bytes l)" and "location_laid (rel m buf) buf l"
  shows "read_location m buf = Some l"
proof (cases "loc_filename l")
  case None
  with assms(4) show ?thesis
    by (simp add: location_laid_def read_location_def rel_simps layout_simps)
next
  case (Some s)
  with assms have s: "cstring s" "17 + length s < 2 ^ 31" "valid_block buf (17 + length s)"
    by (auto simp: location_wf_def location_bytes_def)
  then have "buf + 16 \<noteq> NULL" by (auto dest: valid_block_ptr [of _ _ 16])
  moreover from s Some assms(4) have "load m (buf + 16) (Suc (length s)) = s @ [NUL]"
    by (simp add: location_laid_def load_rel)
  ultimately show ?thesis using s Some assms(4)
    by (simp add: location_laid_def read_location_def rel_simps layout_simps read_cstr_opt_Some)
qed

section \<open>The storage interface for locations\<close>

interpretation loc: storage location_storage_size location_storage_format
  location_storage_serialize location_storage_deserialize read_location location_bytes
  location_laid location_wf
proof (unfold_locales, goal_cases)
  case (1 x) then show ?case by (simp add: location_size_of_nat unat_of_nat)
next
  case 2 then show ?case by (simp add: location_format_eq)
next
  case 3 then show ?case by (intro location_format_ok)
next
  case 4 then show ?case by (intro location_format_frame)
next
  case 5 then show ?case by (intro location_serialize_ok)
next
  case 6 then show ?case by (intro location_deserialize_ok)
next
  case 7 then show ?case by (rule location_laid_cong)
next
  case 8 then show ?case by (rule location_read_laid)
qed

end
