(* ===== verification/Stacktrace.thy ===== *)
theory Stacktrace
  imports Serialization
begin

text \<open>
  \<^verbatim>\<open>src/exec/stacktrace.c\<close>: stack traces. The image is the frame count at 0, then 24 bytes per
  frame (address at 0, filename pointer at 8, line at 16), then the filenames one after the
  other. The loops over the frames are recursive functions over the remaining frames (format)
  or over the number of remaining frames (serialize, deserialize).
\<close>

section \<open>Definitions\<close>

record ctest_stackframe =
  fr_addr :: addr
  fr_filename :: "string option"
  fr_line :: cint

record ctest_stacktrace =
  st_frames :: "ctest_stackframe list"

definition sizeof_pointer :: size_t where
  "sizeof_pointer = 8"

definition sizeof_stackframe :: size_t where
  "sizeof_stackframe = 24"

definition alignof_stacktrace :: size_t where
  "alignof_stacktrace = alignof_ptr"

definition off_st_length :: size_t where
  "off_st_length = 0"

definition off_st_frames :: size_t where
  "off_st_frames = 8"

definition off_fr_addr :: size_t where
  "off_fr_addr = 0"

definition off_fr_filename :: size_t where
  "off_fr_filename = 8"

definition off_fr_line :: size_t where
  "off_fr_line = 16"

text \<open>The address \<^verbatim>\<open>stacktrace->frames + i\<close>.\<close>

definition frame_ptr :: "addr \<Rightarrow> size_t \<Rightarrow> addr" where
  "frame_ptr buf i = buf + (off_st_frames + sizeof_stackframe * i)"

fun stacktrace_size_loop :: "size_t \<Rightarrow> ctest_stackframe list \<Rightarrow> size_t" where
  "stacktrace_size_loop ofs [] = ofs"
| "stacktrace_size_loop ofs (f # fs) =
     (case fr_filename f of
        Some filename \<Rightarrow>
          stacktrace_size_loop (serialize_pad_size ofs alignof_char + (strlen filename + 1)) fs
      | None \<Rightarrow> stacktrace_size_loop ofs fs)"

definition stacktrace_storage_size :: "ctest_stacktrace \<Rightarrow> size_t" where
  "stacktrace_storage_size st =
     (let frames_length = of_nat (length (st_frames st)) in
      stacktrace_size_loop (sizeof_pointer + sizeof_stackframe * frames_length) (st_frames st))"

fun stacktrace_format_loop ::
  "mem \<Rightarrow> addr \<Rightarrow> size_t \<Rightarrow> size_t \<Rightarrow> size_t \<Rightarrow> ctest_stackframe list \<Rightarrow> mem \<times> int" where
  "stacktrace_format_loop m buf len i ofs [] = (m, int_of_size ofs)"
| "stacktrace_format_loop m buf len i ofs (f # fs) =
     (let dst = frame_ptr buf i in
      case fr_filename f of
        Some filename \<Rightarrow>
          (let file_ofs = serialize_pad_size ofs alignof_char;
               file_len = strlen filename + 1;
               ofs = file_ofs + file_len
           in if ofs > len then (m, -1)
              else let m = store64 m (dst + off_fr_filename) (buf + file_ofs);
                       m = store m (buf + file_ofs) (filename @ [NUL]);
                       m = store64 m (dst + off_fr_addr) (fr_addr f);
                       m = store32 m (dst + off_fr_line) (fr_line f)
                   in stacktrace_format_loop m buf len (i + 1) ofs fs)
      | None \<Rightarrow>
          (let m = store64 m (dst + off_fr_filename) NULL;
               m = store64 m (dst + off_fr_addr) (fr_addr f);
               m = store32 m (dst + off_fr_line) (fr_line f)
           in stacktrace_format_loop m buf len (i + 1) ofs fs))"

definition stacktrace_storage_format ::
  "mem \<Rightarrow> addr \<Rightarrow> size_t \<Rightarrow> ctest_stacktrace \<Rightarrow> mem \<times> int" where
  "stacktrace_storage_format m buf len st =
     (let frames_length = of_nat (length (st_frames st));
          ofs = sizeof_pointer + sizeof_stackframe * frames_length
      in if ofs > len then (m, -1)
         else let m = store64 m (buf + off_st_length) frames_length
              in stacktrace_format_loop m buf len 0 ofs (st_frames st))"

fun stacktrace_serialize_loop :: "mem \<Rightarrow> addr \<Rightarrow> size_t \<Rightarrow> nat \<Rightarrow> mem" where
  "stacktrace_serialize_loop m buf i 0 = m"
| "stacktrace_serialize_loop m buf i (Suc n) =
     (let p = frame_ptr buf i + off_fr_filename;
          filename = load64 m p;
          m = (if filename \<noteq> NULL then store64 m p (serialize_rel_ptr_from_abs filename buf)
               else m)
      in stacktrace_serialize_loop m buf (i + 1) n)"

definition stacktrace_storage_serialize :: "mem \<Rightarrow> addr \<Rightarrow> size_t \<Rightarrow> mem \<times> int" where
  "stacktrace_storage_serialize m buf len =
     (stacktrace_serialize_loop m buf 0 (unat (load64 m (buf + off_st_length))), 0)"

fun stacktrace_deserialize_loop :: "mem \<Rightarrow> addr \<Rightarrow> size_t \<Rightarrow> nat \<Rightarrow> mem" where
  "stacktrace_deserialize_loop m buf i 0 = m"
| "stacktrace_deserialize_loop m buf i (Suc n) =
     (let p = frame_ptr buf i + off_fr_filename;
          filename = load64 m p;
          m = (if filename \<noteq> NULL then store64 m p (serialize_abs_ptr_from_rel filename buf)
               else m)
      in stacktrace_deserialize_loop m buf (i + 1) n)"

definition stacktrace_storage_deserialize :: "mem \<Rightarrow> addr \<Rightarrow> size_t \<Rightarrow> mem \<times> int" where
  "stacktrace_storage_deserialize m buf len =
     (stacktrace_deserialize_loop m buf 0 (unat (load64 m (buf + off_st_length))), 0)"

text \<open>What a reader of the structure at \<open>p\<close> sees.\<close>

fun read_frames :: "mem \<Rightarrow> addr \<Rightarrow> size_t \<Rightarrow> nat \<Rightarrow> ctest_stackframe list option" where
  "read_frames m p i 0 = Some []"
| "read_frames m p i (Suc n) =
     (let q = frame_ptr p i in
      Option.bind (read_cstr_opt m (load64 m (q + off_fr_filename))) (\<lambda>filename.
      Option.bind (read_frames m p (i + 1) n) (\<lambda>fs.
      Some (\<lparr>fr_addr = load64 m (q + off_fr_addr), fr_filename = filename,
              fr_line = load32 m (q + off_fr_line)\<rparr> # fs))))"

definition read_stacktrace :: "mem \<Rightarrow> addr \<Rightarrow> ctest_stacktrace option" where
  "read_stacktrace m p =
     map_option (\<lambda>fs. \<lparr>st_frames = fs\<rparr>) (read_frames m p 0 (unat (load64 m (p + off_st_length))))"

section \<open>Layout\<close>

definition name_bytes :: "ctest_stackframe \<Rightarrow> nat" where
  "name_bytes f = (case fr_filename f of None \<Rightarrow> 0 | Some s \<Rightarrow> Suc (length s))"

definition names_bytes :: "ctest_stackframe list \<Rightarrow> nat" where
  "names_bytes fs = sum_list (map name_bytes fs)"

definition stacktrace_bytes :: "ctest_stacktrace \<Rightarrow> nat" where
  "stacktrace_bytes st = 8 + 24 * length (st_frames st) + names_bytes (st_frames st)"

definition stacktrace_wf :: "ctest_stacktrace \<Rightarrow> bool" where
  "stacktrace_wf st \<longleftrightarrow> (\<forall>f \<in> set (st_frames st). opt_all cstring (fr_filename f))"

text \<open>One frame at offset \<open>k\<close>, its filename (if any) at offset \<open>so\<close> of the block.\<close>

definition frame_laid :: "(nat \<Rightarrow> byte) \<Rightarrow> addr \<Rightarrow> nat \<Rightarrow> nat \<Rightarrow> ctest_stackframe \<Rightarrow> bool" where
  "frame_laid g pb k so f \<longleftrightarrow>
     rd64 g k = fr_addr f \<and>
     rd64 g (k + 8) = (case fr_filename f of None \<Rightarrow> NULL | Some s \<Rightarrow> pb + of_nat so) \<and>
     rd32 g (k + 16) = fr_line f \<and>
     (case fr_filename f of None \<Rightarrow> True | Some s \<Rightarrow> rd g so (Suc (length s)) = s @ [NUL])"

fun frames_laid :: "(nat \<Rightarrow> byte) \<Rightarrow> addr \<Rightarrow> nat \<Rightarrow> nat \<Rightarrow> ctest_stackframe list \<Rightarrow> bool" where
  "frames_laid g pb k so [] = True"
| "frames_laid g pb k so (f # fs) =
     (frame_laid g pb k so f \<and> frames_laid g pb (k + 24) (so + name_bytes f) fs)"

definition stacktrace_laid :: "(nat \<Rightarrow> byte) \<Rightarrow> addr \<Rightarrow> ctest_stacktrace \<Rightarrow> bool" where
  "stacktrace_laid g pb st \<longleftrightarrow>
     rd64 g 0 = of_nat (length (st_frames st)) \<and>
     frames_laid g pb 8 (8 + 24 * length (st_frames st)) (st_frames st)"

lemmas stacktrace_layout [layout_simps] =
  sizeof_pointer_def sizeof_stackframe_def alignof_stacktrace_def off_st_length_def
  off_st_frames_def off_fr_addr_def off_fr_filename_def off_fr_line_def

lemma names_bytes_simps [simp]:
  "names_bytes [] = 0" "names_bytes (f # fs) = name_bytes f + names_bytes fs"
  by (simp_all add: names_bytes_def)

lemma frame_ptr_of_nat:
  "frame_ptr buf (of_nat i) = buf + of_nat (8 + 24 * i)"
  by (simp add: frame_ptr_def layout_simps)

lemma stacktrace_size_loop_of_nat:
  "stacktrace_size_loop (of_nat n) fs = of_nat (n + names_bytes fs)"
proof (induction fs arbitrary: n)
  case (Cons f fs)
  show ?case
  proof (cases "fr_filename f")
    case (Some s)
    have "of_nat n + (of_nat (length s) + 1) = (of_nat (n + Suc (length s)) :: size_t)" by simp
    then show ?thesis using Some Cons.IH [of "n + Suc (length s)"]
      by (simp add: strlen_def name_bytes_def ac_simps)
  qed (simp add: Cons.IH name_bytes_def)
qed simp

lemma stacktrace_size_of_nat: "stacktrace_storage_size st = of_nat (stacktrace_bytes st)"
proof -
  have "8 + 24 * of_nat (length (st_frames st)) = (of_nat (8 + 24 * length (st_frames st)) :: size_t)"
    by simp
  then show ?thesis
    unfolding stacktrace_storage_size_def Let_def stacktrace_layout stacktrace_bytes_def
    by (simp only: stacktrace_size_loop_of_nat)
qed

section \<open>One frame\<close>

lemma frame_laid_cong:
  assumes "frame_laid g pb k so f"
    and "\<And>i. k \<le> i \<Longrightarrow> i < k + 24 \<Longrightarrow> g i = h i"
    and "\<And>i. so \<le> i \<Longrightarrow> i < so + name_bytes f \<Longrightarrow> g i = h i"
  shows "frame_laid h pb k so f"
proof -
  have "rd g k 8 = rd h k 8" "rd g (k + 8) 8 = rd h (k + 8) 8" "rd g (k + 16) 4 = rd h (k + 16) 4"
    by (auto intro!: rd_cong assms(2))
  moreover have "rd g so (Suc (length s)) = rd h so (Suc (length s))" if "fr_filename f = Some s" for s
    using that by (intro rd_cong assms(3)) (simp_all add: name_bytes_def)
  ultimately show ?thesis
    using assms(1) by (auto simp: frame_laid_def rd32_def rd64_def split: option.splits)
qed

lemma frames_laid_cong:
  assumes "frames_laid g pb k so fs"
    and "\<And>i. k \<le> i \<Longrightarrow> i < k + 24 * length fs \<Longrightarrow> g i = h i"
    and "\<And>i. so \<le> i \<Longrightarrow> i < so + names_bytes fs \<Longrightarrow> g i = h i"
  shows "frames_laid h pb k so fs"
  using assms
proof (induction fs arbitrary: k so)
  case (Cons f fs)
  have "frame_laid h pb k so f"
    using Cons.prems by (auto intro!: frame_laid_cong [of g])
  moreover have "frames_laid h pb (k + 24) (so + name_bytes f) fs"
    using Cons.prems by (intro Cons.IH) auto
  ultimately show ?case by simp
qed simp

text \<open>The memory after one iteration of the format loop.\<close>

definition put_frame :: "mem \<Rightarrow> addr \<Rightarrow> size_t \<Rightarrow> size_t \<Rightarrow> ctest_stackframe \<Rightarrow> mem" where
  "put_frame m buf i ofs f =
     (let dst = frame_ptr buf i;
          m = (case fr_filename f of
                 Some s \<Rightarrow> store (store64 m (dst + 8) (buf + ofs)) (buf + ofs) (s @ [NUL])
               | None \<Rightarrow> store64 m (dst + 8) NULL)
      in store32 (store64 m dst (fr_addr f)) (dst + 16) (fr_line f))"

lemma put_frame_rel:
  assumes "frame_ptr buf i = buf + of_nat k" and "k + 24 \<le> so" and "so + name_bytes f < 2 ^ 31"
  shows "frame_laid (rel (put_frame m buf i (of_nat so) f) buf) buf k so f"
    and "j < k \<or> k + 24 \<le> j \<Longrightarrow> j < so \<or> so + name_bytes f \<le> j
      \<Longrightarrow> rel (put_frame m buf i (of_nat so) f) buf j = rel m buf j"
  using assms
  by (auto simp: put_frame_def frame_laid_def name_bytes_def rel_simps mem_simps Let_def
      unat_offset split: option.splits)

lemma stacktrace_format_loop_step:
  assumes "so + name_bytes f < 2 ^ 31"
  shows "stacktrace_format_loop m buf len i (of_nat so) (f # fs) =
    (if fr_filename f \<noteq> None \<and> unat len < so + name_bytes f then (m, -1)
     else stacktrace_format_loop (put_frame m buf i (of_nat so) f) buf len (i + 1)
       (of_nat (so + name_bytes f)) fs)"
proof (cases "fr_filename f")
  case None
  then show ?thesis by (simp add: name_bytes_def put_frame_def layout_simps Let_def)
next
  case (Some s)
  then have n: "so + Suc (length s) < 2 ^ 31" using assms by (simp add: name_bytes_def)
  have w: "of_nat so + (of_nat (length s) + 1) = (of_nat (so + Suc (length s)) :: size_t)" by simp
  have c: "len < of_nat (so + Suc (length s)) \<longleftrightarrow> unat len < so + Suc (length s)"
    using n by (intro size_less_of_nat) simp
  show ?thesis
    using Some c by (auto simp: name_bytes_def put_frame_def layout_simps Let_def strlen_def w
        simp del: of_nat_add of_nat_Suc)
qed

section \<open>The format loop\<close>

lemma frame_ptr_nat: "k = 8 + 24 * i \<Longrightarrow> frame_ptr buf (of_nat i) = buf + of_nat k"
  by (simp add: frame_ptr_of_nat)

lemma stacktrace_format_loop_ok:
  assumes "k = 8 + 24 * i" and "k + 24 * length fs \<le> so" and "so + names_bytes fs < 2 ^ 31"
    and "so + names_bytes fs \<le> unat len"
    and "stacktrace_format_loop m buf len (of_nat i) (of_nat so) fs = (m', rc)"
  shows "rc = int (so + names_bytes fs) \<and> frames_laid (rel m' buf) buf k so fs \<and>
    (\<forall>j. (j < k \<or> k + 24 * length fs \<le> j) \<longrightarrow> (j < so \<or> so + names_bytes fs \<le> j)
       \<longrightarrow> rel m' buf j = rel m buf j)"
  using assms
proof (induction fs arbitrary: m i k so)
  case Nil
  then show ?case by (simp add: int_of_size_of_nat)
next
  case (Cons f fs)
  let ?m = "put_frame m buf (of_nat i) (of_nat so) f"
  note put = put_frame_rel [OF frame_ptr_nat [OF Cons.prems(1)], of so f, where m = m]
  from Cons.prems have "stacktrace_format_loop ?m buf len (of_nat (Suc i)) (of_nat (so + name_bytes f)) fs
      = (m', rc)"
    by (auto simp: stacktrace_format_loop_step ac_simps simp del: stacktrace_format_loop.simps)
  then have IH: "rc = int (so + name_bytes f + names_bytes fs)"
      "frames_laid (rel m' buf) buf (k + 24) (so + name_bytes f) fs"
      "\<And>j. j < k + 24 \<or> k + 24 + 24 * length fs \<le> j
        \<Longrightarrow> j < so + name_bytes f \<or> so + name_bytes f + names_bytes fs \<le> j
        \<Longrightarrow> rel m' buf j = rel ?m buf j"
    using Cons.IH [of "k + 24" "Suc i" "so + name_bytes f" ?m] Cons.prems(1-4) by auto
  have "frame_laid (rel m' buf) buf k so f"
    using Cons.prems by (intro frame_laid_cong [OF put(1)] IH(3) [symmetric]) auto
  moreover have "rel m' buf j = rel m buf j"
    if "j < k \<or> k + 24 * length (f # fs) \<le> j" "j < so \<or> so + names_bytes (f # fs) \<le> j" for j
  proof -
    have "rel m' buf j = rel ?m buf j" using that by (intro IH(3)) auto
    also have "\<dots> = rel m buf j" using that Cons.prems by (intro put(2)) auto
    finally show ?thesis .
  qed
  ultimately show ?case using IH(1,2) by simp
qed

lemma stacktrace_format_loop_frame:
  assumes "k = 8 + 24 * i" and "k + 24 * length fs \<le> so" and "so \<le> unat len"
    and "so + names_bytes fs < 2 ^ 31"
    and "stacktrace_format_loop m buf len (of_nat i) (of_nat so) fs = (m', rc)" and "unat len \<le> j"
  shows "rel m' buf j = rel m buf j"
  using assms
proof (induction fs arbitrary: m i k so)
  case (Cons f fs)
  let ?m = "put_frame m buf (of_nat i) (of_nat so) f"
  show ?case
  proof (cases "fr_filename f \<noteq> None \<and> unat len < so + name_bytes f")
    case True
    with Cons.prems show ?thesis
      by (simp add: stacktrace_format_loop_step del: stacktrace_format_loop.simps)
  next
    case False
    then have fits: "so + name_bytes f \<le> unat len"
      using Cons.prems(3) by (auto simp: name_bytes_def split: option.splits)
    from False Cons.prems have
      "stacktrace_format_loop ?m buf len (of_nat (Suc i)) (of_nat (so + name_bytes f)) fs = (m', rc)"
      by (auto simp: stacktrace_format_loop_step ac_simps simp del: stacktrace_format_loop.simps)
    with fits Cons.prems have "rel m' buf j = rel ?m buf j"
      by (intro Cons.IH [of "k + 24" "Suc i" "so + name_bytes f"]) auto
    also have "\<dots> = rel m buf j"
      using fits Cons.prems by (intro put_frame_rel [OF frame_ptr_nat [OF Cons.prems(1)]]) auto
    finally show ?thesis .
  qed
qed simp

lemma stacktrace_format_loop_short:
  assumes "so \<le> unat len" and "unat len < so + names_bytes fs" and "so + names_bytes fs < 2 ^ 31"
  shows "snd (stacktrace_format_loop m buf len i (of_nat so) fs) = -1"
  using assms
proof (induction fs arbitrary: m i so)
  case (Cons f fs)
  show ?case
  proof (cases "fr_filename f \<noteq> None \<and> unat len < so + name_bytes f")
    case True
    with Cons.prems show ?thesis
      by (simp add: stacktrace_format_loop_step del: stacktrace_format_loop.simps)
  next
    case False
    then have "so + name_bytes f \<le> unat len"
      using Cons.prems(1) by (auto simp: name_bytes_def split: option.splits)
    with Cons.prems False show ?thesis
      using Cons.IH [of "so + name_bytes f"]
      by (auto simp: stacktrace_format_loop_step simp del: stacktrace_format_loop.simps)
  qed
qed simp

section \<open>Rewriting the filename pointers\<close>

text \<open>
  The serialize and deserialize loops differ in how they rewrite a pointer; the layout argument
  is the same for both.
\<close>

fun rebase_loop :: "(addr \<Rightarrow> addr) \<Rightarrow> mem \<Rightarrow> addr \<Rightarrow> size_t \<Rightarrow> nat \<Rightarrow> mem" where
  "rebase_loop F m buf i 0 = m"
| "rebase_loop F m buf i (Suc n) =
     (let p = frame_ptr buf i + 8;
          m = (if load64 m p \<noteq> NULL then store64 m p (F (load64 m p)) else m)
      in rebase_loop F m buf (i + 1) n)"

lemma serialize_loop_rebase:
  "stacktrace_serialize_loop m buf i n = rebase_loop (\<lambda>p. p - buf) m buf i n"
  by (induction n arbitrary: m i)
    (simp_all add: layout_simps Let_def serialize_rel_ptr_from_abs_def)

lemma deserialize_loop_rebase:
  "stacktrace_deserialize_loop m buf i n = rebase_loop (\<lambda>p. buf + p) m buf i n"
  by (induction n arbitrary: m i)
    (simp_all add: layout_simps Let_def serialize_abs_ptr_from_rel_def)

lemma rebase_frame:
  assumes "frame_laid (rel m buf) pb k so f" and "k + 24 \<le> so" and "so < 2 ^ 31"
    and "fr_filename f \<noteq> None \<Longrightarrow> pb + of_nat so \<noteq> NULL"
    and "F (pb + of_nat so) = pb' + of_nat so" and "p = buf + of_nat k + 8"
    and "m' = (if load64 m p \<noteq> NULL then store64 m p (F (load64 m p)) else m)"
  shows "frame_laid (rel m' buf) pb' k so f"
    and "j < k \<or> k + 24 \<le> j \<Longrightarrow> rel m' buf j = rel m buf j"
proof -
  have load: "load64 m p = rd64 (rel m buf) (k + 8)"
    using assms(2,3,6) by (simp add: load64_rel2 unat_offset)
  have rel: "rel (store64 m p q) buf = upd (rel m buf) (k + 8) (enc 8 (unat q))" for q
    using assms(2,3,6) by (simp add: store64_def rel_store2 unat_offset)
  show "frame_laid (rel m' buf) pb' k so f"
    using assms(1-5) unfolding assms(7) load
    by (auto simp: frame_laid_def rel mem_simps split: option.splits)
  show "j < k \<or> k + 24 \<le> j \<Longrightarrow> rel m' buf j = rel m buf j"
    unfolding assms(7) by (auto simp: rel mem_simps)
qed

lemma rebase_loop_ok:
  assumes "k = 8 + 24 * i" and "k + 24 * length fs \<le> so" and "so + names_bytes fs < 2 ^ 31"
    and "frames_laid (rel m buf) pb k so fs"
    and "\<And>n. so \<le> n \<Longrightarrow> n < so + names_bytes fs \<Longrightarrow> pb + of_nat n \<noteq> NULL"
    and "\<And>n. F (pb + of_nat n) = pb' + of_nat n"
    and "m' = rebase_loop F m buf (of_nat i) (length fs)"
  shows "frames_laid (rel m' buf) pb' k so fs \<and>
    (\<forall>j. (j < k \<or> k + 24 * length fs \<le> j) \<longrightarrow> rel m' buf j = rel m buf j)"
  using assms
proof (induction fs arbitrary: m i k so)
  case (Cons f fs)
  define p where "p = buf + of_nat k + 8"
  define m1 where "m1 = (if load64 m p \<noteq> NULL then store64 m p (F (load64 m p)) else m)"
  have f: "frame_laid (rel m buf) pb k so f" using Cons.prems(4) by simp
  have nn: "fr_filename f \<noteq> None \<Longrightarrow> pb + of_nat so \<noteq> NULL"
    using Cons.prems(5) [of so] by (auto simp: name_bytes_def)
  note rebase = rebase_frame [OF f _ _ nn Cons.prems(6) p_def m1_def]
  have m': "m' = rebase_loop F m1 buf (of_nat (Suc i)) (length fs)"
    unfolding Cons.prems(7) m1_def p_def frame_ptr_nat [OF Cons.prems(1), symmetric]
    by (simp add: Let_def add.commute)
  have "frames_laid (rel m1 buf) pb (k + 24) (so + name_bytes f) fs"
    using Cons.prems(1-4)
    by (intro frames_laid_cong [of "rel m buf" pb "k + 24" "so + name_bytes f" fs "rel m1 buf"])
      (auto simp: rebase(2))
  then have IH: "frames_laid (rel m' buf) pb' (k + 24) (so + name_bytes f) fs"
      "\<And>j. j < k + 24 \<or> k + 24 + 24 * length fs \<le> j \<Longrightarrow> rel m' buf j = rel m1 buf j"
    using Cons.IH [of "k + 24" "Suc i" "so + name_bytes f" m1] Cons.prems m' by auto
  have "frame_laid (rel m' buf) pb' k so f"
    using Cons.prems by (intro frame_laid_cong [OF rebase(1)] IH(2) [symmetric]) auto
  moreover have "rel m' buf j = rel m buf j" if "j < k \<or> k + 24 * length (f # fs) \<le> j" for j
    using that Cons.prems IH(2) [of j] rebase(2) [of j] by auto
  ultimately show ?case using IH(1) by simp
qed simp

section \<open>The storage interface for stack traces\<close>

lemma stacktrace_ofs_of_nat:
  "sizeof_pointer + sizeof_stackframe * of_nat n = (of_nat (8 + 24 * n) :: size_t)"
  by (simp add: layout_simps)

lemma stacktrace_format_eq:
  assumes "stacktrace_bytes st < 2 ^ 31"
  shows "stacktrace_storage_format m buf len st =
    (if unat len < 8 + 24 * length (st_frames st) then (m, -1)
     else stacktrace_format_loop (store64 m buf (of_nat (length (st_frames st)))) buf len (of_nat 0)
       (of_nat (8 + 24 * length (st_frames st))) (st_frames st))"
proof -
  have "len < of_nat (8 + 24 * length (st_frames st)) \<longleftrightarrow> unat len < 8 + 24 * length (st_frames st)"
    using assms by (intro size_less_of_nat) (simp add: stacktrace_bytes_def)
  then show ?thesis
    unfolding stacktrace_storage_format_def Let_def stacktrace_ofs_of_nat
    by (simp add: off_st_length_def)
qed

lemma stacktrace_format_ok:
  assumes n: "stacktrace_bytes st < 2 ^ 31" and len: "stacktrace_bytes st \<le> unat len"
    and fmt: "stacktrace_storage_format m buf len st = (m', rc)"
  shows "rc = int (stacktrace_bytes st) \<and> stacktrace_laid (rel m' buf) buf st"
proof -
  let ?fs = "st_frames st" and ?m = "store64 m buf (of_nat (length (st_frames st)))"
  from fmt n len have "stacktrace_format_loop ?m buf len (of_nat 0) (of_nat (8 + 24 * length ?fs)) ?fs
      = (m', rc)"
    by (auto simp: stacktrace_format_eq stacktrace_bytes_def)
  from stacktrace_format_loop_ok [OF _ _ _ _ this, of 8] n len
  have loop: "rc = int (stacktrace_bytes st)" "frames_laid (rel m' buf) buf 8 (8 + 24 * length ?fs) ?fs"
      "\<And>j. j < 8 \<Longrightarrow> rel m' buf j = rel ?m buf j"
    by (auto simp: stacktrace_bytes_def)
  have "rd64 (rel m' buf) 0 = rd64 (rel ?m buf) 0"
    using loop(3) by (auto simp: rd64_def intro!: arg_cong [where f = "\<lambda>bs. of_nat (dec bs)"] rd_cong)
  also have "\<dots> = of_nat (length ?fs)" by (simp add: rel_simps mem_simps)
  finally show ?thesis using loop(1,2) by (simp add: stacktrace_laid_def)
qed

lemma stacktrace_format_rc:
  assumes "stacktrace_bytes st < 2 ^ 31"
  shows "snd (stacktrace_storage_format m buf len st)
    = (if unat len < stacktrace_bytes st then -1 else int (stacktrace_bytes st))"
proof (cases "unat len < stacktrace_bytes st")
  case True
  then show ?thesis
    using assms stacktrace_format_loop_short [of "8 + 24 * length (st_frames st)" len "st_frames st"]
    by (simp add: stacktrace_format_eq stacktrace_bytes_def del: of_nat_add)
next
  case False
  then show ?thesis
    using stacktrace_format_ok [OF assms, of len m buf]
    by (cases "stacktrace_storage_format m buf len st") simp
qed

lemma stacktrace_format_frame:
  assumes "stacktrace_bytes st < 2 ^ 31" and "stacktrace_storage_format m buf len st = (m', rc)"
    and "unat len \<le> i"
  shows "rel m' buf i = rel m buf i"
proof (cases "unat len < 8 + 24 * length (st_frames st)")
  case True
  with assms show ?thesis by (simp add: stacktrace_format_eq)
next
  case False
  let ?m = "store64 m buf (of_nat (length (st_frames st)))"
  from False assms(1,2) have "stacktrace_format_loop ?m buf len (of_nat 0)
      (of_nat (8 + 24 * length (st_frames st))) (st_frames st) = (m', rc)"
    by (simp add: stacktrace_format_eq)
  from stacktrace_format_loop_frame [OF _ _ _ _ this assms(3), of 8] False assms(1)
  have "rel m' buf i = rel ?m buf i" by (simp add: stacktrace_bytes_def)
  also have "\<dots> = rel m buf i" using False assms(3) by (simp add: rel_simps mem_simps)
  finally show ?thesis .
qed

lemma stacktrace_rebase:
  assumes "stacktrace_bytes st < 2 ^ 31" and "stacktrace_laid (rel m buf) pb st"
    and "\<And>n. 8 \<le> n \<Longrightarrow> n < stacktrace_bytes st \<Longrightarrow> pb + of_nat n \<noteq> NULL"
    and "\<And>n. F (pb + of_nat n) = pb' + of_nat n"
    and "m' = rebase_loop F m buf 0 (unat (load64 m buf))"
  shows "stacktrace_laid (rel m' buf) pb' st \<and>
    (\<forall>i \<ge> stacktrace_bytes st. rel m' buf i = rel m buf i)"
proof -
  let ?fs = "st_frames st"
  have "length ?fs < 2 ^ 31" using assms(1) by (simp add: stacktrace_bytes_def)
  with assms(2) have "unat (load64 m buf) = length ?fs"
    by (simp add: stacktrace_laid_def load64_rel0 unat_offset)
  with rebase_loop_ok [of 8 0 ?fs "8 + 24 * length ?fs" m buf pb F pb' m'] assms
  have loop: "frames_laid (rel m' buf) pb' 8 (8 + 24 * length ?fs) ?fs"
      "\<And>j. j < 8 \<or> 8 + 24 * length ?fs \<le> j \<Longrightarrow> rel m' buf j = rel m buf j"
    by (auto simp: stacktrace_laid_def stacktrace_bytes_def)
  have "rd64 (rel m' buf) 0 = rd64 (rel m buf) 0"
    using loop(2) by (auto simp: rd64_def intro!: arg_cong [where f = "\<lambda>bs. of_nat (dec bs)"] rd_cong)
  with loop assms(2) show ?thesis by (auto simp: stacktrace_laid_def stacktrace_bytes_def)
qed

lemma stacktrace_serialize_ok:
  assumes "stacktrace_bytes st < 2 ^ 31" and "valid_block buf (stacktrace_bytes st)"
    and "stacktrace_laid (rel m buf) buf st" and "stacktrace_storage_serialize m buf len = (m', rc)"
  shows "rc = 0 \<and> stacktrace_laid (rel m' buf) 0 st \<and>
    (\<forall>i \<ge> stacktrace_bytes st. rel m' buf i = rel m buf i)"
proof -
  have "buf + of_nat n \<noteq> NULL" if "n < stacktrace_bytes st" for n
    using that assms(1) by (intro valid_block_ptr [OF assms(2)]) (simp add: unat_offset)
  with stacktrace_rebase [OF assms(1,3), of "\<lambda>p. p - buf" 0 m'] assms(4) show ?thesis
    by (auto simp: stacktrace_storage_serialize_def off_st_length_def serialize_loop_rebase)
qed

lemma stacktrace_deserialize_ok:
  assumes "stacktrace_bytes st < 2 ^ 31" and "stacktrace_laid (rel m buf) 0 st"
    and "stacktrace_storage_deserialize m buf len = (m', rc)"
  shows "rc = 0 \<and> stacktrace_laid (rel m' buf) buf st \<and>
    (\<forall>i \<ge> stacktrace_bytes st. rel m' buf i = rel m buf i)"
proof -
  have "(of_nat n :: addr) \<noteq> 0" if "8 \<le> n" "n < stacktrace_bytes st" for n
  proof
    assume "(of_nat n :: addr) = 0"
    then have "unat (of_nat n :: addr) = 0" by simp
    with that assms(1) show False by (simp add: unat_offset)
  qed
  with stacktrace_rebase [OF assms(1,2), of "\<lambda>p. buf + p" buf m'] assms(3) show ?thesis
    by (auto simp: stacktrace_storage_deserialize_def off_st_length_def deserialize_loop_rebase)
qed

lemma stacktrace_laid_cong:
  assumes "stacktrace_laid g pb st" and "\<And>i. i < stacktrace_bytes st \<Longrightarrow> g i = h i"
  shows "stacktrace_laid h pb st"
proof -
  have "rd g 0 8 = rd h 0 8" by (intro rd_cong assms(2)) (simp add: stacktrace_bytes_def)
  moreover have "frames_laid h pb 8 (8 + 24 * length (st_frames st)) (st_frames st)"
    using assms by (intro frames_laid_cong [of g _ 8 "8 + 24 * length (st_frames st)" _ h])
      (auto simp: stacktrace_laid_def stacktrace_bytes_def)
  ultimately show ?thesis using assms(1) by (simp add: stacktrace_laid_def rd64_def)
qed

lemma read_frames_laid:
  assumes "k = 8 + 24 * i" and "k + 24 * length fs \<le> so" and "so + names_bytes fs < 2 ^ 31"
    and "\<forall>f \<in> set fs. opt_all cstring (fr_filename f)"
    and "valid_block p (so + names_bytes fs)" and "frames_laid (rel m p) p k so fs"
  shows "read_frames m p (of_nat i) (length fs) = Some fs"
  using assms
proof (induction fs arbitrary: i k so)
  case (Cons f fs)
  have q: "frame_ptr p (of_nat i) = p + of_nat k" using Cons.prems(1) by (rule frame_ptr_nat)
  have f: "frame_laid (rel m p) p k so f" using Cons.prems(6) by simp
  have loads: "load64 m (p + of_nat k + 8) = rd64 (rel m p) (k + 8)"
      "load64 m (p + of_nat k) = rd64 (rel m p) k" "load32 m (p + of_nat k + 16) = rd32 (rel m p) (k + 16)"
    using Cons.prems(2,3) load64_rel [of "of_nat k" m p]
    by (simp_all add: load64_rel2 load32_rel2 unat_offset)
  have name: "read_cstr_opt m (rd64 (rel m p) (k + 8)) = Some (fr_filename f)"
  proof (cases "fr_filename f")
    case (Some s)
    with Cons.prems have "unat (of_nat so :: addr) < so + names_bytes (f # fs)"
      by (simp add: unat_offset name_bytes_def)
    with Cons.prems(5) have "p + of_nat so \<noteq> NULL" by (rule valid_block_ptr)
    moreover have "load m (p + of_nat so) (Suc (length s)) = s @ [NUL]"
      using Some f Cons.prems(3) by (simp add: frame_laid_def load_rel unat_offset name_bytes_def)
    ultimately show ?thesis
      using Some f Cons.prems(4) by (simp add: frame_laid_def read_cstr_opt_Some)
  qed (use f in \<open>simp add: frame_laid_def\<close>)
  have "read_frames m p (of_nat (Suc i)) (length fs) = Some fs"
    using Cons.prems by (intro Cons.IH [of "k + 24" _ "so + name_bytes f"]) (auto simp: ac_simps)
  moreover have "rd64 (rel m p) k = fr_addr f" "rd32 (rel m p) (k + 16) = fr_line f"
    using f by (simp_all add: frame_laid_def)
  ultimately show ?case by (simp add: q layout_simps loads name Let_def add.commute)
qed simp

lemma stacktrace_read_laid:
  assumes "stacktrace_wf st" and "stacktrace_bytes st < 2 ^ 31"
    and "valid_block buf (stacktrace_bytes st)" and "stacktrace_laid (rel m buf) buf st"
  shows "read_stacktrace m buf = Some st"
proof -
  have "length (st_frames st) < 2 ^ 31" using assms(2) by (simp add: stacktrace_bytes_def)
  with assms(4) have "unat (load64 m buf) = length (st_frames st)"
    by (simp add: stacktrace_laid_def load64_rel0 unat_offset)
  moreover have "read_frames m buf (of_nat 0) (length (st_frames st)) = Some (st_frames st)"
    using assms by (intro read_frames_laid [of 8 0 _ "8 + 24 * length (st_frames st)"])
      (auto simp: stacktrace_laid_def stacktrace_bytes_def stacktrace_wf_def)
  ultimately show ?thesis by (simp add: read_stacktrace_def off_st_length_def)
qed

interpretation strace: storage stacktrace_storage_size stacktrace_storage_format
  stacktrace_storage_serialize stacktrace_storage_deserialize read_stacktrace stacktrace_bytes
  stacktrace_laid stacktrace_wf
proof (unfold_locales, goal_cases)
  case (1 x) then show ?case by (simp add: stacktrace_size_of_nat unat_of_nat)
next
  case (2 x m buf len) then show ?case by (rule stacktrace_format_rc)
next
  case 3 then show ?case using stacktrace_format_ok by blast
next
  case 4 then show ?case by (intro stacktrace_format_frame)
next
  case 5 then show ?case by (intro stacktrace_serialize_ok)
next
  case 6 then show ?case by (intro stacktrace_deserialize_ok)
next
  case 7 then show ?case by (rule stacktrace_laid_cong)
next
  case 8 then show ?case by (rule stacktrace_read_laid)
qed

end
