(* ===== verification/Failure.thy ===== *)
theory Failure
  imports Location Stacktrace
begin

text \<open>
  \<^verbatim>\<open>src/exec/failure.c\<close>: failures, stored in one block: a 32-byte header (stage at 0,
  description, location and stack trace pointers at 8, 16 and 24), the description, the location
  and the stack trace, the last two on 8-byte boundaries. The stage is kept as the 32-bit integer
  a C \<^verbatim>\<open>enum\<close> object is: a value read from a pipe can be outside the enumeration.
\<close>

section \<open>Definitions\<close>

type_synonym ctest_stage_t = cint

definition CTEST_STAGE_SETUP :: ctest_stage_t where
  "CTEST_STAGE_SETUP = 0"

definition CTEST_STAGE_EXECUTION :: ctest_stage_t where
  "CTEST_STAGE_EXECUTION = 1"

definition CTEST_STAGE_TEARDOWN :: ctest_stage_t where
  "CTEST_STAGE_TEARDOWN = 2"

lemmas stage_defs = CTEST_STAGE_SETUP_def CTEST_STAGE_EXECUTION_def CTEST_STAGE_TEARDOWN_def

record ctest_failure =
  fl_stage :: ctest_stage_t
  fl_description :: "string option"
  fl_location :: "ctest_location option"
  fl_stacktrace :: "ctest_stacktrace option"

definition sizeof_failure :: size_t where
  "sizeof_failure = 32"

definition off_fl_stage :: size_t where
  "off_fl_stage = 0"

definition off_fl_description :: size_t where
  "off_fl_description = 8"

definition off_fl_location :: size_t where
  "off_fl_location = 16"

definition off_fl_stacktrace :: size_t where
  "off_fl_stacktrace = 24"

definition storage_size ::
  "ctest_stage_t \<Rightarrow> size_t \<Rightarrow> ctest_location option \<Rightarrow> ctest_stacktrace option \<Rightarrow> size_t" where
  "storage_size stage description_len location stacktrace =
     (let sz = sizeof_failure;
          sz = (if description_len > 0 then serialize_pad_size sz alignof_char + description_len
                else sz);
          sz = (case location of
                  Some l \<Rightarrow> serialize_pad_size sz alignof_location + location_storage_size l
                | None \<Rightarrow> sz);
          sz = (case stacktrace of
                  Some st \<Rightarrow> serialize_pad_size sz alignof_stacktrace + stacktrace_storage_size st
                | None \<Rightarrow> sz)
      in sz)"

text \<open>
  The three parts \<^verbatim>\<open>storage_format__\<close> lays out in turn; each returns the memory and either the
  code the function returns at once or the next offset.
\<close>

definition format_description :: "mem \<Rightarrow> addr \<Rightarrow> size_t \<Rightarrow> size_t \<Rightarrow> size_t \<Rightarrow> mem \<times> (int + size_t)" where
  "format_description m buf len ofs description_len =
     (if description_len > 0
      then let description_ofs = serialize_pad_size ofs alignof_char;
               ofs = description_ofs + description_len
           in if ofs > len then (m, Inl (-1))
              else (store64 m (buf + off_fl_description) (buf + description_ofs), Inr ofs)
      else (store64 m (buf + off_fl_description) NULL, Inr ofs))"

definition format_location ::
  "mem \<Rightarrow> addr \<Rightarrow> size_t \<Rightarrow> size_t \<Rightarrow> ctest_location option \<Rightarrow> mem \<times> (int + size_t)" where
  "format_location m buf len ofs location =
     (case location of
        Some l \<Rightarrow>
          (let ofs = serialize_pad_size ofs alignof_location in
           if ofs > len then (m, Inl (-1))
           else let m = store64 m (buf + off_fl_location) (buf + ofs);
                    (m, rc) = location_storage_format m (buf + ofs) (len - ofs) l
                in if rc < 0 then (m, Inl rc) else (m, Inr (ofs + of_int rc)))
      | None \<Rightarrow> (store64 m (buf + off_fl_location) NULL, Inr ofs))"

definition format_stacktrace ::
  "mem \<Rightarrow> addr \<Rightarrow> size_t \<Rightarrow> size_t \<Rightarrow> ctest_stacktrace option \<Rightarrow> mem \<times> (int + size_t)" where
  "format_stacktrace m buf len ofs stacktrace =
     (case stacktrace of
        Some st \<Rightarrow>
          (let ofs = serialize_pad_size ofs alignof_stacktrace in
           if ofs > len then (m, Inl (-1))
           else let m = store64 m (buf + off_fl_stacktrace) (buf + ofs);
                    (m, rc) = stacktrace_storage_format m (buf + ofs) (len - ofs) st
                in if rc < 0 then (m, Inl rc) else (m, Inr (ofs + of_int rc)))
      | None \<Rightarrow> (store64 m (buf + off_fl_stacktrace) NULL, Inr ofs))"

definition storage_format ::
  "mem \<Rightarrow> addr \<Rightarrow> size_t \<Rightarrow> ctest_stage_t \<Rightarrow> size_t \<Rightarrow> ctest_location option
   \<Rightarrow> ctest_stacktrace option \<Rightarrow> mem \<times> int" where
  "storage_format m buf len stage description_len location stacktrace =
     (let ofs = sizeof_failure in
      if ofs > len then (m, -1)
      else let m = store m buf (replicate (unat len) NUL);
               m = store32 m (buf + off_fl_stage) stage
           in case format_description m buf len ofs description_len of
                (m, Inl rc) \<Rightarrow> (m, rc)
              | (m, Inr ofs) \<Rightarrow>
                  (case format_location m buf len ofs location of
                     (m, Inl rc) \<Rightarrow> (m, rc)
                   | (m, Inr ofs) \<Rightarrow>
                       (case format_stacktrace m buf len ofs stacktrace of
                          (m, Inl rc) \<Rightarrow> (m, rc)
                        | (m, Inr ofs) \<Rightarrow> (m, int_of_size ofs))))"

definition description_len_of :: "ctest_failure \<Rightarrow> size_t" where
  "description_len_of failure =
     (case fl_description failure of Some d \<Rightarrow> strlen d + 1 | None \<Rightarrow> 0)"

definition failure_storage_size :: "ctest_failure \<Rightarrow> size_t" where
  "failure_storage_size failure =
     storage_size (fl_stage failure) (description_len_of failure) (fl_location failure)
       (fl_stacktrace failure)"

definition failure_storage_format :: "mem \<Rightarrow> addr \<Rightarrow> size_t \<Rightarrow> ctest_failure \<Rightarrow> mem \<times> int" where
  "failure_storage_format m buf len failure =
     (let (m, rc) = storage_format m buf len (fl_stage failure) (description_len_of failure)
                      (fl_location failure) (fl_stacktrace failure)
      in if rc \<ge> 0
         then (case fl_description failure of
                 Some d \<Rightarrow> (store m (load64 m (buf + off_fl_description)) (d @ [NUL]), rc)
               | None \<Rightarrow> (m, rc))
         else (m, rc))"

definition failure_storage_serialize :: "mem \<Rightarrow> addr \<Rightarrow> size_t \<Rightarrow> mem \<times> int" where
  "failure_storage_serialize m buf len =
     (let description = load64 m (buf + off_fl_description);
          m = (if description \<noteq> NULL
               then store64 m (buf + off_fl_description) (serialize_rel_ptr_from_abs description buf)
               else m);
          location = load64 m (buf + off_fl_location);
          (m, rc) = (if location \<noteq> NULL
               then let (m, rc) = location_storage_serialize m location (len - (location - buf))
                    in if rc \<noteq> 0 then (m, -1)
                       else (store64 m (buf + off_fl_location)
                               (serialize_rel_ptr_from_abs (load64 m (buf + off_fl_location)) buf), 0)
               else (m, 0))
      in if rc \<noteq> 0 then (m, rc)
         else let stacktrace = load64 m (buf + off_fl_stacktrace)
              in if stacktrace \<noteq> NULL
                 then let (m, rc) = stacktrace_storage_serialize m stacktrace (len - (stacktrace - buf))
                      in if rc \<noteq> 0 then (m, -1)
                         else (store64 m (buf + off_fl_stacktrace)
                                 (serialize_rel_ptr_from_abs (load64 m (buf + off_fl_stacktrace)) buf), 0)
                 else (m, 0))"

text \<open>
  The last call passes \<^verbatim>\<open>len = (stacktrace - buf)\<close> (an assignment) as the length; the callee
  ignores it.
\<close>

definition failure_storage_deserialize :: "mem \<Rightarrow> addr \<Rightarrow> size_t \<Rightarrow> mem \<times> int" where
  "failure_storage_deserialize m buf len =
     (let description = load64 m (buf + off_fl_description);
          m = (if description \<noteq> NULL
               then store64 m (buf + off_fl_description) (serialize_abs_ptr_from_rel description buf)
               else m);
          location = load64 m (buf + off_fl_location);
          (m, rc) = (if location \<noteq> NULL
               then let location = serialize_abs_ptr_from_rel location buf;
                        m = store64 m (buf + off_fl_location) location;
                        (m, rc) = location_storage_deserialize m location (len - (location - buf))
                    in if rc \<noteq> 0 then (m, -1) else (m, 0)
               else (m, 0))
      in if rc \<noteq> 0 then (m, rc)
         else let stacktrace = load64 m (buf + off_fl_stacktrace)
              in if stacktrace \<noteq> NULL
                 then let stacktrace = serialize_abs_ptr_from_rel stacktrace buf;
                          m = store64 m (buf + off_fl_stacktrace) stacktrace;
                          len = stacktrace - buf;
                          (m, rc) = stacktrace_storage_deserialize m stacktrace len
                      in if rc \<noteq> 0 then (m, -1) else (m, 0)
                 else (m, 0))"

text \<open>
  \<^verbatim>\<open>vsnprintf\<close>: \<open>text\<close> is what the format and its arguments produce. With a buffer of \<open>n > 0\<close>
  bytes it writes at most \<open>n - 1\<close> of its characters and a NUL.
\<close>

definition vsnprintf :: "mem \<Rightarrow> addr \<Rightarrow> size_t \<Rightarrow> string \<Rightarrow> mem" where
  "vsnprintf m p n text = (if n = 0 then m else store m p (take (unat n - 1) text @ [NUL]))"

definition description_length :: "string \<Rightarrow> size_t" where
  "description_length text = strlen text"

text \<open>
  \<open>p\<close> is the block \<^verbatim>\<open>calloc\<close> returned (NULL when out of memory); the result is NULL or the
  failure's address.
\<close>

definition ctest_failure_create_va ::
  "mem \<Rightarrow> addr \<Rightarrow> ctest_stage_t \<Rightarrow> string \<Rightarrow> ctest_location option \<Rightarrow> ctest_stacktrace option
   \<Rightarrow> mem \<times> addr" where
  "ctest_failure_create_va m p stage text location stacktrace =
     (let description_len = description_length text + 1;
          sz = storage_size stage description_len location stacktrace
      in if p = NULL then (m, NULL)
         else let m = store m p (replicate (unat sz) NUL);
                  (m, rc) = storage_format m p sz stage description_len location stacktrace
              in if rc < 0 then (m, NULL)
                 else (vsnprintf m (load64 m (p + off_fl_description)) description_len text, p))"

text \<open>The variadic form collects its arguments, which are here the text they give.\<close>

definition ctest_failure_create ::
  "mem \<Rightarrow> addr \<Rightarrow> ctest_stage_t \<Rightarrow> string \<Rightarrow> ctest_location option \<Rightarrow> ctest_stacktrace option \<Rightarrow> mem \<times> addr" where
  "ctest_failure_create m p stage text location stacktrace = ctest_failure_create_va m p stage text location stacktrace"

text \<open>What a reader of the structure at \<open>p\<close> sees.\<close>

definition read_ptr :: "(mem \<Rightarrow> addr \<Rightarrow> 'a option) \<Rightarrow> mem \<Rightarrow> addr \<Rightarrow> 'a option option" where
  "read_ptr r m p = (if p = NULL then Some None else map_option Some (r m p))"

definition read_failure :: "mem \<Rightarrow> addr \<Rightarrow> ctest_failure option" where
  "read_failure m p =
     Option.bind (read_cstr_opt m (load64 m (p + off_fl_description))) (\<lambda>d.
     Option.bind (read_ptr read_location m (load64 m (p + off_fl_location))) (\<lambda>l.
     Option.bind (read_ptr read_stacktrace m (load64 m (p + off_fl_stacktrace))) (\<lambda>st.
     Some \<lparr>fl_stage = load32 m (p + off_fl_stage), fl_description = d, fl_location = l,
           fl_stacktrace = st\<rparr>)))"

section \<open>Layout\<close>

definition align8 :: "nat \<Rightarrow> nat" where
  "align8 n = (n + 7) div 8 * 8"

definition desc_bytes :: "ctest_failure \<Rightarrow> nat" where
  "desc_bytes f = (case fl_description f of None \<Rightarrow> 0 | Some d \<Rightarrow> Suc (length d))"

definition loc_ofs :: "ctest_failure \<Rightarrow> nat" where
  "loc_ofs f = align8 (32 + desc_bytes f)"

definition loc_end :: "ctest_failure \<Rightarrow> nat" where
  "loc_end f = (case fl_location f of None \<Rightarrow> 32 + desc_bytes f | Some l \<Rightarrow> loc_ofs f + location_bytes l)"

definition st_ofs :: "ctest_failure \<Rightarrow> nat" where
  "st_ofs f = align8 (loc_end f)"

definition failure_bytes :: "ctest_failure \<Rightarrow> nat" where
  "failure_bytes f = (case fl_stacktrace f of None \<Rightarrow> loc_end f | Some st \<Rightarrow> st_ofs f + stacktrace_bytes st)"

definition failure_wf :: "ctest_failure \<Rightarrow> bool" where
  "failure_wf f \<longleftrightarrow> opt_all cstring (fl_description f) \<and> opt_all location_wf (fl_location f) \<and>
     opt_all stacktrace_wf (fl_stacktrace f)"

text \<open>The pointer base of an object inside a block: its own address, or 0 when serialized.\<close>

definition sub_base :: "addr \<Rightarrow> nat \<Rightarrow> addr" where
  "sub_base pb k = (if pb = 0 then 0 else pb + of_nat k)"

definition failure_laid :: "(nat \<Rightarrow> byte) \<Rightarrow> addr \<Rightarrow> ctest_failure \<Rightarrow> bool" where
  "failure_laid g pb f \<longleftrightarrow>
     rd32 g 0 = fl_stage f \<and>
     rd64 g 8 = (case fl_description f of None \<Rightarrow> NULL | Some d \<Rightarrow> pb + 32) \<and>
     rd64 g 16 = (case fl_location f of None \<Rightarrow> NULL | Some l \<Rightarrow> pb + of_nat (loc_ofs f)) \<and>
     rd64 g 24 = (case fl_stacktrace f of None \<Rightarrow> NULL | Some st \<Rightarrow> pb + of_nat (st_ofs f)) \<and>
     (case fl_description f of None \<Rightarrow> True | Some d \<Rightarrow> rd g 32 (Suc (length d)) = d @ [NUL]) \<and>
     (case fl_location f of None \<Rightarrow> True
      | Some l \<Rightarrow> location_laid (\<lambda>i. g (loc_ofs f + i)) (sub_base pb (loc_ofs f)) l) \<and>
     (case fl_stacktrace f of None \<Rightarrow> True
      | Some st \<Rightarrow> stacktrace_laid (\<lambda>i. g (st_ofs f + i)) (sub_base pb (st_ofs f)) st)"

lemmas failure_layout [layout_simps] =
  sizeof_failure_def off_fl_stage_def off_fl_description_def off_fl_location_def
  off_fl_stacktrace_def

lemma align8_le: "n \<le> align8 n" "align8 n \<le> n + 7"
  by (simp_all add: align8_def)

lemma pad_align8:
  "n < 2 ^ 32 \<Longrightarrow> serialize_pad_size (of_nat n) alignof_location = of_nat (align8 n)"
  "n < 2 ^ 32 \<Longrightarrow> serialize_pad_size (of_nat n) alignof_stacktrace = of_nat (align8 n)"
  using unat_pad_size_8 [of n]
  by (simp_all add: alignof_location_def alignof_stacktrace_def alignof_ptr_def align8_def)

lemma failure_offsets:
  "32 + desc_bytes f \<le> loc_ofs f" "32 + desc_bytes f \<le> loc_end f" "loc_end f \<le> st_ofs f"
  "loc_end f \<le> failure_bytes f"
  "fl_location f = Some l \<Longrightarrow> loc_ofs f + location_bytes l = loc_end f"
  "fl_stacktrace f = Some st \<Longrightarrow> st_ofs f + stacktrace_bytes st = failure_bytes f"
  using align8_le(1) [of "32 + desc_bytes f"] align8_le(1) [of "loc_end f"]
  by (auto simp: loc_ofs_def loc_end_def st_ofs_def failure_bytes_def split: option.split)

lemma description_len: "description_len_of f = of_nat (desc_bytes f)"
  by (simp add: description_len_of_def desc_bytes_def strlen_def split: option.split)

lemma description_len_pos:
  assumes "failure_bytes f < 2 ^ 31"
  shows "0 < (of_nat (desc_bytes f) :: size_t) \<longleftrightarrow> fl_description f \<noteq> None"
  using assms failure_offsets [of f]
  by (simp add: desc_bytes_def word_less_nat_alt unat_offset del: of_nat_Suc split: option.splits)

lemma failure_size_of_nat:
  assumes n: "failure_bytes f < 2 ^ 31"
  shows "failure_storage_size f = of_nat (failure_bytes f)"
proof -
  have d: "(if 0 < (of_nat (desc_bytes f) :: size_t) then 32 + of_nat (desc_bytes f) else 32)
      = (of_nat (32 + desc_bytes f) :: size_t)"
    using description_len_pos [OF n] by (simp add: desc_bytes_def split: option.splits)
  have l: "(case fl_location f of
        Some l \<Rightarrow> serialize_pad_size (of_nat (32 + desc_bytes f)) alignof_location + of_nat (location_bytes l)
      | None \<Rightarrow> of_nat (32 + desc_bytes f)) = (of_nat (loc_end f) :: size_t)"
    using n failure_offsets [of f]
    by (simp add: pad_align8 loc_end_def loc_ofs_def del: of_nat_add split: option.split) simp
  have "(case fl_stacktrace f of
        Some st \<Rightarrow> serialize_pad_size (of_nat (loc_end f)) alignof_stacktrace + of_nat (stacktrace_bytes st)
      | None \<Rightarrow> of_nat (loc_end f)) = (of_nat (failure_bytes f) :: size_t)"
    using n failure_offsets [of f]
    by (simp add: pad_align8 failure_bytes_def st_ofs_def split: option.split)
  then show ?thesis
    by (simp only: failure_storage_size_def storage_size_def description_len
        sizeof_failure_def Let_def pad_size_char location_size_of_nat stacktrace_size_of_nat d l)
qed

section \<open>Formatting\<close>

lemma format_location_Some:
  assumes "n < 2 ^ 32"
  shows "format_location m buf len (of_nat n) (Some l)
    = sub_format location_storage_format m buf len 16 (of_nat (align8 n)) l"
  using assms by (simp add: format_location_def sub_format_def pad_align8 failure_layout Let_def)

lemma format_stacktrace_Some:
  assumes "n < 2 ^ 32"
  shows "format_stacktrace m buf len (of_nat n) (Some st)
    = sub_format stacktrace_storage_format m buf len 24 (of_nat (align8 n)) st"
  using assms by (simp add: format_stacktrace_def sub_format_def pad_align8 failure_layout Let_def)

lemma format_location_rc:
  assumes "failure_bytes f < 2 ^ 31" and "32 + desc_bytes f \<le> unat len"
  shows "snd (format_location m buf len (of_nat (32 + desc_bytes f)) (fl_location f))
    = (if unat len < loc_end f then Inl (-1) else Inr (of_nat (loc_end f)))"
proof (cases "fl_location f")
  case None
  with assms(2) show ?thesis by (simp add: format_location_def loc_end_def)
next
  case (Some l)
  note ofs = failure_offsets [of f] failure_offsets(5) [OF Some]
  have "format_location m buf len (of_nat (32 + desc_bytes f)) (fl_location f)
      = sub_format location_storage_format m buf len 16 (of_nat (loc_ofs f)) l"
    unfolding Some loc_ofs_def using assms(1) ofs by (intro format_location_Some) simp
  with loc.sub_format_rc [of l "loc_ofs f" m buf len 16] assms(1) ofs show ?thesis by simp
qed

lemma format_stacktrace_rc:
  assumes "failure_bytes f < 2 ^ 31" and "loc_end f \<le> unat len"
  shows "snd (format_stacktrace m buf len (of_nat (loc_end f)) (fl_stacktrace f))
    = (if unat len < failure_bytes f then Inl (-1) else Inr (of_nat (failure_bytes f)))"
proof (cases "fl_stacktrace f")
  case None
  with assms(2) show ?thesis by (simp add: format_stacktrace_def failure_bytes_def)
next
  case (Some st)
  note ofs = failure_offsets [of f] failure_offsets(6) [OF Some]
  have "format_stacktrace m buf len (of_nat (loc_end f)) (fl_stacktrace f)
      = sub_format stacktrace_storage_format m buf len 24 (of_nat (st_ofs f)) st"
    unfolding Some st_ofs_def using assms(1) ofs by (intro format_stacktrace_Some) simp
  with strace.sub_format_rc [of st "st_ofs f" m buf len 24] assms(1) ofs show ?thesis by simp
qed

lemma format_location_ok:
  assumes "failure_bytes f < 2 ^ 31" and "failure_bytes f \<le> unat len"
    and "valid_block buf (failure_bytes f)"
    and "format_location m buf len (of_nat (32 + desc_bytes f)) (fl_location f) = (m', r)"
  shows "rd64 (rel m' buf) 16 = (case fl_location f of None \<Rightarrow> NULL | Some l \<Rightarrow> buf + of_nat (loc_ofs f)) \<and>
    (case fl_location f of None \<Rightarrow> True
     | Some l \<Rightarrow> location_laid (\<lambda>i. rel m' buf (loc_ofs f + i)) (buf + of_nat (loc_ofs f)) l)"
proof (cases "fl_location f")
  case None
  with assms(4) show ?thesis
    by (auto simp: format_location_def layout_simps rel_simps mem_simps)
next
  case (Some l)
  note ofs = failure_offsets [of f] failure_offsets(5) [OF Some] location_bytes_ge [of l]
  have blk: "valid_block buf (loc_ofs f + location_bytes l)"
    using assms(3) ofs by (simp add: valid_block_def)
  from assms(4) Some ofs assms(1)
  have "sub_format location_storage_format m buf len 16 (of_nat (loc_ofs f)) l = (m', r)"
    by (simp add: format_location_Some loc_ofs_def del: of_nat_add)
  from loc.sub_format_ok [OF _ _ blk _ _ this] assms(1,2) Some ofs show ?thesis by simp
qed

lemma format_stacktrace_ok:
  assumes "failure_bytes f < 2 ^ 31" and "failure_bytes f \<le> unat len"
    and "valid_block buf (failure_bytes f)"
    and "format_stacktrace m buf len (of_nat (loc_end f)) (fl_stacktrace f) = (m', r)"
  shows "rd64 (rel m' buf) 24 = (case fl_stacktrace f of None \<Rightarrow> NULL | Some st \<Rightarrow> buf + of_nat (st_ofs f)) \<and>
    (case fl_stacktrace f of None \<Rightarrow> True
     | Some st \<Rightarrow> stacktrace_laid (\<lambda>i. rel m' buf (st_ofs f + i)) (buf + of_nat (st_ofs f)) st)"
proof (cases "fl_stacktrace f")
  case None
  with assms(4) show ?thesis
    by (auto simp: format_stacktrace_def layout_simps rel_simps mem_simps)
next
  case (Some st)
  note ofs = failure_offsets [of f] failure_offsets(6) [OF Some]
  have b: "0 < stacktrace_bytes st" by (simp add: stacktrace_bytes_def)
  have blk: "valid_block buf (st_ofs f + stacktrace_bytes st)"
    using assms(3) ofs by (simp add: valid_block_def)
  from assms(4) Some ofs assms(1)
  have "sub_format stacktrace_storage_format m buf len 24 (of_nat (st_ofs f)) st = (m', r)"
    by (simp add: format_stacktrace_Some st_ofs_def del: of_nat_add)
  from strace.sub_format_ok [OF _ _ blk b _ this] assms(1,2) Some ofs show ?thesis by simp
qed

text \<open>What a part's format leaves alone, whether it succeeds or not.\<close>

lemma format_location_frame:
  assumes "failure_bytes f < 2 ^ 31" and "32 \<le> unat len"
    and "format_location m buf len (of_nat (32 + desc_bytes f)) (fl_location f) = (m', r)"
    and "j < 32 + desc_bytes f \<or> unat len \<le> j" and "j < 16 \<or> 24 \<le> j"
  shows "rel m' buf j = rel m buf j"
proof (cases "fl_location f")
  case None
  with assms show ?thesis by (auto simp: format_location_def failure_layout rel_simps mem_simps)
next
  case (Some l)
  note ofs = failure_offsets [of f] failure_offsets(5) [OF Some]
  from assms(1,3) Some ofs
  have "sub_format location_storage_format m buf len 16 (of_nat (loc_ofs f)) l = (m', r)"
    by (simp add: format_location_Some loc_ofs_def del: of_nat_add)
  from loc.sub_format_frame [OF _ _ _ this] ofs assms(1,2,4,5) show ?thesis by auto
qed

lemma format_stacktrace_frame:
  assumes "failure_bytes f < 2 ^ 31" and "32 \<le> unat len"
    and "format_stacktrace m buf len (of_nat (loc_end f)) (fl_stacktrace f) = (m', r)"
    and "j < loc_end f \<or> unat len \<le> j" and "j < 24 \<or> 32 \<le> j"
  shows "rel m' buf j = rel m buf j"
proof (cases "fl_stacktrace f")
  case None
  with assms show ?thesis by (auto simp: format_stacktrace_def failure_layout rel_simps mem_simps)
next
  case (Some st)
  note ofs = failure_offsets [of f] failure_offsets(6) [OF Some]
  from assms(1,3) Some ofs
  have "sub_format stacktrace_storage_format m buf len 24 (of_nat (st_ofs f)) st = (m', r)"
    by (simp add: format_stacktrace_Some st_ofs_def del: of_nat_add)
  from strace.sub_format_frame [OF _ _ _ this] ofs assms(1,2,4,5) show ?thesis by auto
qed

lemma format_description_eq:
  assumes "failure_bytes f < 2 ^ 31"
  shows "format_description m buf len 32 (of_nat (desc_bytes f)) =
    (if fl_description f \<noteq> None \<and> unat len < 32 + desc_bytes f then (m, Inl (-1))
     else (store64 m (buf + 8) (case fl_description f of None \<Rightarrow> NULL | Some d \<Rightarrow> buf + 32),
       Inr (of_nat (32 + desc_bytes f))))"
proof -
  have n: "32 + desc_bytes f < 2 ^ 64" using assms failure_offsets [of f] by simp
  have "(32 + of_nat (desc_bytes f) :: size_t) = of_nat (32 + desc_bytes f)" by simp
  then show ?thesis
    using n assms
    by (auto simp: format_description_def description_len_pos failure_layout desc_bytes_def
        size_less_of_nat simp del: of_nat_add of_nat_Suc split: option.splits)
qed

text \<open>Everything of the layout but the bytes of the description, which are written last.\<close>

definition failure_core :: "(nat \<Rightarrow> byte) \<Rightarrow> addr \<Rightarrow> ctest_failure \<Rightarrow> bool" where
  "failure_core g pb f \<longleftrightarrow>
     rd32 g 0 = fl_stage f \<and>
     rd64 g 8 = (case fl_description f of None \<Rightarrow> NULL | Some d \<Rightarrow> pb + 32) \<and>
     rd64 g 16 = (case fl_location f of None \<Rightarrow> NULL | Some l \<Rightarrow> pb + of_nat (loc_ofs f)) \<and>
     rd64 g 24 = (case fl_stacktrace f of None \<Rightarrow> NULL | Some st \<Rightarrow> pb + of_nat (st_ofs f)) \<and>
     (case fl_location f of None \<Rightarrow> True
      | Some l \<Rightarrow> location_laid (\<lambda>i. g (loc_ofs f + i)) (sub_base pb (loc_ofs f)) l) \<and>
     (case fl_stacktrace f of None \<Rightarrow> True
      | Some st \<Rightarrow> stacktrace_laid (\<lambda>i. g (st_ofs f + i)) (sub_base pb (st_ofs f)) st)"

lemma failure_laid_core:
  "failure_laid g pb f \<longleftrightarrow> failure_core g pb f \<and>
     (case fl_description f of None \<Rightarrow> True | Some d \<Rightarrow> rd g 32 (Suc (length d)) = d @ [NUL])"
  by (auto simp: failure_laid_def failure_core_def split: option.splits)

text \<open>The memory once the header's stage and description pointer are written.\<close>

definition put_header :: "mem \<Rightarrow> addr \<Rightarrow> size_t \<Rightarrow> ctest_failure \<Rightarrow> mem" where
  "put_header m buf len f =
     store64 (store32 (store m buf (replicate (unat len) NUL)) buf (fl_stage f)) (buf + 8)
       (case fl_description f of None \<Rightarrow> NULL | Some d \<Rightarrow> buf + 32)"

lemma put_header_rel:
  "rd32 (rel (put_header m buf len f) buf) 0 = fl_stage f"
  "rd64 (rel (put_header m buf len f) buf) 8 = (case fl_description f of None \<Rightarrow> NULL | Some d \<Rightarrow> buf + 32)"
  "16 \<le> unat len \<Longrightarrow> unat len \<le> j \<Longrightarrow> rel (put_header m buf len f) buf j = rel m buf j"
  using unat_bound [of len] by (simp_all add: put_header_def rel_simps mem_simps)

lemma storage_format_step:
  assumes "failure_bytes f < 2 ^ 31" and "32 + desc_bytes f \<le> unat len"
  shows "storage_format m buf len (fl_stage f) (of_nat (desc_bytes f)) (fl_location f) (fl_stacktrace f) =
    (case format_location (put_header m buf len f) buf len (of_nat (32 + desc_bytes f)) (fl_location f) of
       (m, Inl rc) \<Rightarrow> (m, rc)
     | (m, Inr ofs) \<Rightarrow>
         (case format_stacktrace m buf len ofs (fl_stacktrace f) of
            (m, Inl rc) \<Rightarrow> (m, rc)
          | (m, Inr ofs) \<Rightarrow> (m, int_of_size ofs)))"
proof -
  have "\<not> len < 32" using assms(2) by (simp add: size_less_numeral)
  then show ?thesis using assms
    by (simp add: storage_format_def failure_layout format_description_eq put_header_def del: of_nat_add)
qed

lemma storage_format_short:
  assumes "failure_bytes f < 2 ^ 31" and "unat len < 32 + desc_bytes f"
    and "storage_format m buf len (fl_stage f) (of_nat (desc_bytes f)) (fl_location f) (fl_stacktrace f)
      = (m', rc)"
  shows "rc = -1 \<and> (\<forall>j \<ge> unat len. rel m' buf j = rel m buf j)"
proof (cases "len < 32")
  case True
  with assms(3) show ?thesis by (simp add: storage_format_def failure_layout)
next
  case False
  then have len: "32 \<le> unat len" by (simp add: size_less_numeral)
  with assms(2) have "fl_description f \<noteq> None" by (auto simp: desc_bytes_def split: option.splits)
  with assms False len show ?thesis
    using unat_bound [of len]
    by (auto simp: storage_format_def failure_layout format_description_eq rel_simps mem_simps
        simp del: of_nat_add)
qed

lemma storage_format_rc:
  assumes "failure_bytes f < 2 ^ 31"
  shows "snd (storage_format m buf len (fl_stage f) (of_nat (desc_bytes f)) (fl_location f)
      (fl_stacktrace f)) = (if unat len < failure_bytes f then -1 else int (failure_bytes f))"
proof (cases "unat len < 32 + desc_bytes f")
  case True
  with storage_format_short [OF assms True] failure_offsets [of f] show ?thesis
    by (metis (no_types, opaque_lifting) le_trans not_less prod.collapse)
next
  case False
  then have d: "32 + desc_bytes f \<le> unat len" by simp
  obtain m1 r1 where l: "format_location (put_header m buf len f) buf len (of_nat (32 + desc_bytes f))
      (fl_location f) = (m1, r1)" by (meson surj_pair)
  have r1: "r1 = (if unat len < loc_end f then Inl (-1) else Inr (of_nat (loc_end f)))"
    using format_location_rc [OF assms d, of "put_header m buf len f" buf] l by simp
  show ?thesis
  proof (cases "unat len < loc_end f")
    case True
    then show ?thesis using failure_offsets(4) [of f]
      by (simp add: storage_format_step [OF assms d] l r1 del: of_nat_add)
  next
    case False
    then have e: "loc_end f \<le> unat len" by simp
    obtain m2 r2 where t: "format_stacktrace m1 buf len (of_nat (loc_end f)) (fl_stacktrace f) = (m2, r2)"
      by (meson surj_pair)
    have "r2 = (if unat len < failure_bytes f then Inl (-1) else Inr (of_nat (failure_bytes f)))"
      using format_stacktrace_rc [OF assms e, of m1 buf] t by simp
    then show ?thesis using False t int_of_size_of_nat [OF assms]
      by (simp add: storage_format_step [OF assms d] l r1 del: of_nat_add)
  qed
qed

lemma storage_format_frame:
  assumes "failure_bytes f < 2 ^ 31"
    and "storage_format m buf len (fl_stage f) (of_nat (desc_bytes f)) (fl_location f) (fl_stacktrace f)
      = (m', rc)" and "unat len \<le> j"
  shows "rel m' buf j = rel m buf j"
proof (cases "unat len < 32 + desc_bytes f")
  case True
  with storage_format_short [OF assms(1) True assms(2)] assms(3) show ?thesis by simp
next
  case False
  then have d: "32 + desc_bytes f \<le> unat len" by simp
  let ?m = "put_header m buf len f"
  obtain m1 r1 where l: "format_location ?m buf len (of_nat (32 + desc_bytes f)) (fl_location f) = (m1, r1)"
    by (meson surj_pair)
  have r1: "r1 = (if unat len < loc_end f then Inl (-1) else Inr (of_nat (loc_end f)))"
    using format_location_rc [OF assms(1) d, of ?m buf] l by simp
  have m1: "rel m1 buf j = rel m buf j"
    using format_location_frame [OF assms(1) _ l] assms(3) d put_header_rel(3) [of len j m buf f] by simp
  show ?thesis
  proof (cases "unat len < loc_end f")
    case True
    with assms(2) l r1 m1 show ?thesis
      by (simp add: storage_format_step [OF assms(1) d] del: of_nat_add)
  next
    case False
    obtain m2 r2 where t: "format_stacktrace m1 buf len (of_nat (loc_end f)) (fl_stacktrace f) = (m2, r2)"
      by (meson surj_pair)
    have "rel m2 buf j = rel m1 buf j"
      using format_stacktrace_frame [OF assms(1) _ t] assms(3) d by simp
    moreover have "m' = m2"
      using assms(2) False l r1 t
      by (auto simp: storage_format_step [OF assms(1) d] simp del: of_nat_add split: sum.splits)
    ultimately show ?thesis using m1 by simp
  qed
qed

lemma storage_format_desc:
  assumes n: "failure_bytes f < 2 ^ 31" and len: "failure_bytes f \<le> unat len"
    and fmt: "storage_format m buf len (fl_stage f) (of_nat (desc_bytes f)) (fl_location f)
      (fl_stacktrace f) = (m', rc)"
  shows "rd32 (rel m' buf) 0 = fl_stage f"
    and "rd64 (rel m' buf) 8 = (case fl_description f of None \<Rightarrow> NULL | Some d \<Rightarrow> buf + 32)"
proof -
  let ?m = "put_header m buf len f"
  have d: "32 + desc_bytes f \<le> unat len" and e: "loc_end f \<le> unat len"
    using failure_offsets [of f] len by simp_all
  obtain m1 r1 where l: "format_location ?m buf len (of_nat (32 + desc_bytes f)) (fl_location f) = (m1, r1)"
    by (meson surj_pair)
  obtain m2 r2 where t: "format_stacktrace m1 buf len (of_nat (loc_end f)) (fl_stacktrace f) = (m2, r2)"
    by (meson surj_pair)
  have m': "m' = m2"
    using fmt l t e len format_location_rc [OF n d, where m = ?m and buf = buf] format_stacktrace_rc [OF n e, where m = m1 and buf = buf]
    by (simp add: storage_format_step [OF n d] del: of_nat_add)
  have "rel m2 buf j = rel ?m buf j" if "j < 16" for j
    using format_location_frame [OF n _ l] format_stacktrace_frame [OF n _ t] that d e
      failure_offsets [of f] by simp
  then have "rd (rel m2 buf) 0 4 = rd (rel ?m buf) 0 4" "rd (rel m2 buf) 8 8 = rd (rel ?m buf) 8 8"
    by (auto intro!: rd_cong)
  then show "rd32 (rel m' buf) 0 = fl_stage f"
    and "rd64 (rel m' buf) 8 = (case fl_description f of None \<Rightarrow> NULL | Some d \<Rightarrow> buf + 32)"
    using put_header_rel(1,2) [where m = m and buf = buf and len = len and f = f]
    by (simp_all add: m' rd32_def rd64_def)
qed

lemma storage_format_core:
  assumes n: "failure_bytes f < 2 ^ 31" and len: "failure_bytes f \<le> unat len"
    and blk: "valid_block buf (failure_bytes f)"
    and fmt: "storage_format m buf len (fl_stage f) (of_nat (desc_bytes f)) (fl_location f)
      (fl_stacktrace f) = (m', rc)"
  shows "failure_core (rel m' buf) buf f"
proof -
  note ofs = failure_offsets [of f]
  let ?m = "put_header m buf len f"
  have d: "32 + desc_bytes f \<le> unat len" and e: "loc_end f \<le> unat len" using ofs len by simp_all
  obtain m1 r1 where l: "format_location ?m buf len (of_nat (32 + desc_bytes f)) (fl_location f) = (m1, r1)"
    by (meson surj_pair)
  obtain m2 r2 where t: "format_stacktrace m1 buf len (of_nat (loc_end f)) (fl_stacktrace f) = (m2, r2)"
    by (meson surj_pair)
  have m': "m' = m2"
    using fmt l t e len format_location_rc [OF n d, where m = ?m and buf = buf] format_stacktrace_rc [OF n e, where m = m1 and buf = buf]
    by (simp add: storage_format_step [OF n d] del: of_nat_add)
  note L = format_location_ok [OF n len blk l] and T = format_stacktrace_ok [OF n len blk t]
  have ft: "rel m2 buf j = rel m1 buf j" if "j < loc_end f" "j < 24 \<or> 32 \<le> j" for j
    using format_stacktrace_frame [OF n _ t] that d by simp
  have "rd (rel m2 buf) 16 8 = rd (rel m1 buf) 16 8" using ft ofs by (intro rd_cong) simp
  then have hdr: "rd64 (rel m2 buf) 16 = rd64 (rel m1 buf) 16" by (simp add: rd64_def)
  have loc: "location_laid (\<lambda>i. rel m2 buf (loc_ofs f + i)) (buf + of_nat (loc_ofs f)) x"
    if "fl_location f = Some x" for x
  proof (rule location_laid_cong [of "\<lambda>i. rel m1 buf (loc_ofs f + i)"])
    show "location_laid (\<lambda>i. rel m1 buf (loc_ofs f + i)) (buf + of_nat (loc_ofs f)) x"
      using L that by simp
    show "rel m1 buf (loc_ofs f + i) = rel m2 buf (loc_ofs f + i)" if "i < location_bytes x" for i
      using ft that failure_offsets(5) [OF \<open>fl_location f = Some x\<close>] ofs(1) by simp
  qed
  have "sub_base buf k = buf + of_nat k" for k using blk by (simp add: sub_base_def valid_block_def)
  with L T loc storage_format_desc [OF n len fmt] show ?thesis
    unfolding failure_core_def m' hdr by (cases "fl_location f"; cases "fl_stacktrace f"; simp)
qed

lemma failure_core_cong:
  assumes "failure_core g pb f"
    and "\<And>i. i < failure_bytes f \<Longrightarrow> i < 32 \<or> 32 + desc_bytes f \<le> i \<Longrightarrow> g i = h i"
  shows "failure_core h pb f"
proof -
  note ofs = failure_offsets [of f]
  have "rd g 0 4 = rd h 0 4" "rd g 8 8 = rd h 8 8" "rd g 16 8 = rd h 16 8" "rd g 24 8 = rd h 24 8"
    using ofs by (auto intro!: rd_cong assms(2))
  moreover have "location_laid (\<lambda>i. h (loc_ofs f + i)) p l"
    if "fl_location f = Some l" "location_laid (\<lambda>i. g (loc_ofs f + i)) p l" for p l
    using that(2) failure_offsets(5) [OF that(1)] ofs
    by (rule_tac location_laid_cong [OF that(2)]) (simp add: assms(2))
  moreover have "stacktrace_laid (\<lambda>i. h (st_ofs f + i)) p st"
    if "fl_stacktrace f = Some st" "stacktrace_laid (\<lambda>i. g (st_ofs f + i)) p st" for p st
    using that(2) failure_offsets(6) [OF that(1)] ofs
    by (rule_tac stacktrace_laid_cong [OF that(2)]) (simp add: assms(2))
  ultimately show ?thesis
    using assms(1) unfolding failure_core_def rd32_def rd64_def
    by (cases "fl_location f"; cases "fl_stacktrace f"; simp)
qed

lemma failure_laid_cong:
  assumes "failure_laid g pb f" and "\<And>i. i < failure_bytes f \<Longrightarrow> g i = h i"
  shows "failure_laid h pb f"
proof -
  have "failure_core h pb f"
    using assms(1) by (rule_tac failure_core_cong [of g, OF _ assms(2)]) (simp_all add: failure_laid_core)
  moreover have "rd g 32 (Suc (length d)) = rd h 32 (Suc (length d))" if "fl_description f = Some d" for d
    using that failure_offsets [of f] by (intro rd_cong assms(2)) (simp add: desc_bytes_def)
  ultimately show ?thesis
    using assms(1) by (simp add: failure_laid_core split: option.splits)
qed

text \<open>Writing the description completes the layout.\<close>

lemma failure_core_desc:
  assumes "failure_core (rel m buf) buf f" and "fl_description f = Some d" and "failure_bytes f < 2 ^ 31"
  shows "failure_laid (rel (store m (load64 m (buf + 8)) (d @ [NUL])) buf) buf f"
proof -
  note ofs = failure_offsets [of f]
  have d: "desc_bytes f = Suc (length d)" using assms(2) by (simp add: desc_bytes_def)
  have "load64 m (buf + 8) = buf + 32" using assms(1,2) by (simp add: load64_rel failure_core_def)
  then have r: "rel (store m (load64 m (buf + 8)) (d @ [NUL])) buf = upd (rel m buf) 32 (d @ [NUL])"
    using assms(3) ofs d by (simp add: rel_store)
  have "failure_core (upd (rel m buf) 32 (d @ [NUL])) buf f"
    by (rule failure_core_cong [OF assms(1)]) (auto simp: upd_outside d)
  then show ?thesis using assms(2) by (simp add: failure_laid_core r rd_upd_same)
qed

lemma failure_format_rc:
  assumes "failure_bytes f < 2 ^ 31"
  shows "snd (failure_storage_format m buf len f)
    = (if unat len < failure_bytes f then -1 else int (failure_bytes f))"
  using storage_format_rc [OF assms, of m buf len]
  by (auto simp: failure_storage_format_def description_len case_prod_beta split: option.split)

lemma failure_format_ok:
  assumes "failure_bytes f < 2 ^ 31" and "failure_bytes f \<le> unat len"
    and "valid_block buf (failure_bytes f)" and "failure_storage_format m buf len f = (m', rc)"
  shows "failure_laid (rel m' buf) buf f"
proof -
  obtain m1 rc1 where fmt: "storage_format m buf len (fl_stage f) (of_nat (desc_bytes f)) (fl_location f)
      (fl_stacktrace f) = (m1, rc1)" by (meson surj_pair)
  have "rc1 \<ge> 0" using storage_format_rc [OF assms(1), of m buf len] fmt assms(2) by simp
  note core = storage_format_core [OF assms(1-3) fmt]
  show ?thesis
    using assms(4) fmt core failure_core_desc [OF core _ assms(1)] \<open>rc1 \<ge> 0\<close>
    by (auto simp: failure_storage_format_def description_len failure_layout failure_laid_core
        split: option.splits)
qed

lemma failure_format_frame:
  assumes "failure_bytes f < 2 ^ 31" and "failure_storage_format m buf len f = (m', rc)"
    and "unat len \<le> i"
  shows "rel m' buf i = rel m buf i"
proof -
  obtain m1 rc1 where fmt: "storage_format m buf len (fl_stage f) (of_nat (desc_bytes f)) (fl_location f)
      (fl_stacktrace f) = (m1, rc1)" by (meson surj_pair)
  have m1: "rel m1 buf i = rel m buf i" using storage_format_frame [OF assms(1) fmt assms(3)] .
  show ?thesis
  proof (cases "rc1 \<ge> 0 \<and> fl_description f \<noteq> None")
    case False
    then show ?thesis using assms(2) fmt m1
      by (auto simp: failure_storage_format_def description_len split: option.splits)
  next
    case True
    then obtain d where d: "fl_description f = Some d" by blast
    have len: "failure_bytes f \<le> unat len"
      using True storage_format_rc [OF assms(1), of m buf len] fmt by (simp split: if_splits)
    have "rd64 (rel m1 buf) 8 = buf + 32"
      using storage_format_desc [OF assms(1) len fmt] d by simp
    then have "m' = store m1 (buf + 32) (d @ [NUL])"
      using assms(2) fmt True d
      by (simp add: failure_storage_format_def description_len failure_layout load64_rel)
    moreover have "32 + Suc (length d) \<le> i"
      using failure_offsets [of f] len assms(3) d by (simp add: desc_bytes_def)
    ultimately show ?thesis
      using m1 assms(1) failure_offsets [of f] d by (simp add: rel_store upd_outside desc_bytes_def)
  qed
qed

section \<open>Serialization\<close>

lemma failure_serialize_eq:
  "failure_storage_serialize m buf len =
     (let m = (if load64 m (buf + 8) \<noteq> NULL then store64 m (buf + 8) (load64 m (buf + 8) - buf) else m);
          (m, rc) = sub_serialize location_storage_serialize m buf len 16
      in if rc \<noteq> 0 then (m, rc) else sub_serialize stacktrace_storage_serialize m buf len 24)"
  unfolding failure_storage_serialize_def sub_serialize_def failure_layout Let_def
    serialize_rel_ptr_from_abs_def of_nat_numeral ..

lemma failure_deserialize_eq:
  "failure_storage_deserialize m buf len =
     (let m = (if load64 m (buf + 8) \<noteq> NULL then store64 m (buf + 8) (buf + load64 m (buf + 8)) else m);
          (m, rc) = sub_deserialize location_storage_deserialize m buf (\<lambda>p. len - p) 16
      in if rc \<noteq> 0 then (m, rc)
         else sub_deserialize stacktrace_storage_deserialize m buf (\<lambda>p. p) 24)"
  unfolding failure_storage_deserialize_def sub_deserialize_def failure_layout Let_def
    serialize_abs_ptr_from_rel_def of_nat_numeral add_diff_cancel_left' ..

text \<open>
  The three pointers of the header are rewritten from base \<open>pb\<close> to base \<open>pb'\<close> one after the other;
  \<open>g\<close> to \<open>g1\<close> is the description, \<open>g1\<close> to \<open>g2\<close> the location, \<open>g2\<close> to \<open>g3\<close> the stack trace.
\<close>

lemma failure_rebase:
  assumes "failure_laid g pb f"
    and "g1 = (if fl_description f \<noteq> None then upd g 8 (enc 8 (unat (pb' + 32))) else g)"
    and "opt_all (location_laid (\<lambda>i. g2 (loc_ofs f + i)) (sub_base pb' (loc_ofs f))) (fl_location f)"
    and "rd64 g2 16 = (case fl_location f of None \<Rightarrow> NULL | Some l \<Rightarrow> pb' + of_nat (loc_ofs f))"
    and "\<And>j. (case fl_location f of None \<Rightarrow> True | Some l \<Rightarrow> j < loc_ofs f \<or> loc_ofs f + location_bytes l \<le> j)
      \<Longrightarrow> j < 16 \<or> 24 \<le> j \<Longrightarrow> g2 j = g1 j"
    and "opt_all (stacktrace_laid (\<lambda>i. g3 (st_ofs f + i)) (sub_base pb' (st_ofs f))) (fl_stacktrace f)"
    and "rd64 g3 24 = (case fl_stacktrace f of None \<Rightarrow> NULL | Some st \<Rightarrow> pb' + of_nat (st_ofs f))"
    and "\<And>j. (case fl_stacktrace f of None \<Rightarrow> True | Some st \<Rightarrow> j < st_ofs f \<or> st_ofs f + stacktrace_bytes st \<le> j)
      \<Longrightarrow> j < 24 \<or> 32 \<le> j \<Longrightarrow> g3 j = g2 j"
  shows "failure_laid g3 pb' f \<and> (\<forall>i \<ge> failure_bytes f. g3 i = g i)"
proof -
  note ofs = failure_offsets [of f]
  have g2: "g2 j = g1 j" if "j < 32 + desc_bytes f \<or> failure_bytes f \<le> j" "j < 16 \<or> 24 \<le> j" for j
    using that ofs failure_offsets(5) [of f] by (intro assms(5)) (auto split: option.split)
  have g3: "g3 j = g2 j" if "j < loc_end f \<or> failure_bytes f \<le> j" "j < 24 \<or> 32 \<le> j" for j
    using that ofs failure_offsets(6) [of f] by (intro assms(8)) (auto split: option.split)
  have g1: "g1 j = g j" if "j < 8 \<or> 16 \<le> j" for j using that by (simp add: assms(2) upd_outside)
  have "rd g3 0 4 = rd g 0 4" "rd g3 8 8 = rd g1 8 8" "rd g3 16 8 = rd g2 16 8"
    using g1 g2 g3 ofs by (auto intro!: rd_cong)
  moreover have "rd64 g1 8 = (case fl_description f of None \<Rightarrow> NULL | Some d \<Rightarrow> pb' + 32)"
    using assms(1,2) by (auto simp: failure_laid_def rd64_upd_same split: option.split)
  ultimately have hdr: "rd32 g3 0 = fl_stage f" "rd64 g3 16 = rd64 g2 16"
      "rd64 g3 8 = (case fl_description f of None \<Rightarrow> NULL | Some d \<Rightarrow> pb' + 32)"
    using assms(1) by (simp_all add: failure_laid_def rd32_def rd64_def)
  have desc: "rd g3 32 (Suc (length d)) = d @ [NUL]" if "fl_description f = Some d" for d
  proof -
    have "rd g3 32 (Suc (length d)) = rd g 32 (Suc (length d))"
      using that ofs g1 g2 g3 by (intro rd_cong) (simp add: desc_bytes_def)
    with assms(1) that show ?thesis by (simp add: failure_laid_def)
  qed
  have loc: "location_laid (\<lambda>i. g3 (loc_ofs f + i)) (sub_base pb' (loc_ofs f)) l" if "fl_location f = Some l" for l
  proof (rule location_laid_cong [of "\<lambda>i. g2 (loc_ofs f + i)"])
    show "location_laid (\<lambda>i. g2 (loc_ofs f + i)) (sub_base pb' (loc_ofs f)) l" using assms(3) that by simp
    show "g2 (loc_ofs f + i) = g3 (loc_ofs f + i)" if "i < location_bytes l" for i
      using g3 that failure_offsets(5) [OF \<open>fl_location f = Some l\<close>] ofs(1) by simp
  qed
  have "failure_laid g3 pb' f"
    using assms(4,6,7) loc desc unfolding failure_laid_def hdr
    by (cases "fl_description f"; cases "fl_location f"; cases "fl_stacktrace f"; simp)
  moreover have "g3 i = g i" if "failure_bytes f \<le> i" for i
    using that g1 g2 g3 ofs by simp
  ultimately show ?thesis by blast
qed

text \<open>What the parts' own (de)serialization needs, from the layout of the whole.\<close>

lemma failure_location_part:
  assumes "failure_laid g pb f" and "failure_bytes f < 2 ^ 31" and "valid_block buf (failure_bytes f)"
    and "\<And>j. 16 \<le> j \<Longrightarrow> h j = g j"
  shows "rd64 h 16 = (case fl_location f of None \<Rightarrow> NULL | Some l \<Rightarrow> pb + of_nat (loc_ofs f))"
    and "opt_all (\<lambda>l. location_bytes l < 2 ^ 31 \<and> valid_block buf (loc_ofs f + location_bytes l) \<and>
      0 < location_bytes l \<and> 16 + 8 \<le> loc_ofs f \<and>
      location_laid (\<lambda>i. h (loc_ofs f + i)) (sub_base pb (loc_ofs f)) l) (fl_location f)"
proof -
  note ofs = failure_offsets [of f]
  have "rd h 16 8 = rd g 16 8" using assms(4) by (auto intro!: rd_cong)
  with assms(1) show "rd64 h 16 = (case fl_location f of None \<Rightarrow> NULL | Some l \<Rightarrow> pb + of_nat (loc_ofs f))"
    by (simp add: failure_laid_def rd64_def)
  have "(\<lambda>i. h (loc_ofs f + i)) = (\<lambda>i. g (loc_ofs f + i))"
    using ofs assms(4) by (simp add: fun_eq_iff)
  note h = this
  show "opt_all (\<lambda>l. location_bytes l < 2 ^ 31 \<and> valid_block buf (loc_ofs f + location_bytes l) \<and>
      0 < location_bytes l \<and> 16 + 8 \<le> loc_ofs f \<and>
      location_laid (\<lambda>i. h (loc_ofs f + i)) (sub_base pb (loc_ofs f)) l) (fl_location f)"
  proof (cases "fl_location f")
    case (Some l)
    with assms(1-3) h ofs(1-4) failure_offsets(5) [OF Some] location_bytes_ge [of l] show ?thesis
      by (simp add: failure_laid_def valid_block_def)
  qed simp
qed

lemma failure_stacktrace_part:
  assumes "failure_laid g pb f" and "failure_bytes f < 2 ^ 31" and "valid_block buf (failure_bytes f)"
    and "\<And>j. 24 \<le> j \<Longrightarrow> j < 32 \<or> st_ofs f \<le> j \<Longrightarrow> h j = g j"
  shows "rd64 h 24 = (case fl_stacktrace f of None \<Rightarrow> NULL | Some st \<Rightarrow> pb + of_nat (st_ofs f))"
    and "opt_all (\<lambda>st. stacktrace_bytes st < 2 ^ 31 \<and> valid_block buf (st_ofs f + stacktrace_bytes st) \<and>
      0 < stacktrace_bytes st \<and> 24 + 8 \<le> st_ofs f \<and>
      stacktrace_laid (\<lambda>i. h (st_ofs f + i)) (sub_base pb (st_ofs f)) st) (fl_stacktrace f)"
proof -
  note ofs = failure_offsets [of f]
  have "rd h 24 8 = rd g 24 8" using assms(4) by (auto intro!: rd_cong)
  with assms(1) show "rd64 h 24 = (case fl_stacktrace f of None \<Rightarrow> NULL | Some st \<Rightarrow> pb + of_nat (st_ofs f))"
    by (simp add: failure_laid_def rd64_def)
  have "(\<lambda>i. h (st_ofs f + i)) = (\<lambda>i. g (st_ofs f + i))"
    using ofs assms(4) by (simp add: fun_eq_iff)
  with assms(1-3) show "opt_all (\<lambda>st. stacktrace_bytes st < 2 ^ 31 \<and> valid_block buf (st_ofs f + stacktrace_bytes st) \<and>
      0 < stacktrace_bytes st \<and> 24 + 8 \<le> st_ofs f \<and>
      stacktrace_laid (\<lambda>i. h (st_ofs f + i)) (sub_base pb (st_ofs f)) st) (fl_stacktrace f)"
    using ofs(1-4) failure_offsets(6) [of f]
    by (cases "fl_stacktrace f") (force simp: failure_laid_def valid_block_def stacktrace_bytes_def)+
qed

lemma failure_serialize_ok:
  assumes n: "failure_bytes f < 2 ^ 31" and blk: "valid_block buf (failure_bytes f)"
    and laid: "failure_laid (rel m buf) buf f" and ser: "failure_storage_serialize m buf len = (m', rc)"
  shows "rc = 0 \<and> failure_laid (rel m' buf) 0 f \<and> (\<forall>i \<ge> failure_bytes f. rel m' buf i = rel m buf i)"
proof -
  note ofs = failure_offsets [of f] failure_offsets(5) [of f]
  define m1 where "m1 = (if load64 m (buf + 8) \<noteq> NULL
    then store64 m (buf + 8) (load64 m (buf + 8) - buf) else m)"
  obtain m2 r2 where l: "sub_serialize location_storage_serialize m1 buf len 16 = (m2, r2)"
    by (meson surj_pair)
  obtain m3 r3 where t: "sub_serialize stacktrace_storage_serialize m2 buf len 24 = (m3, r3)"
    by (meson surj_pair)
  have nz: "buf + 32 \<noteq> NULL" if "fl_description f \<noteq> None"
    using that ofs(1-4) by (intro valid_block_ptr [OF blk]) (auto simp: desc_bytes_def)
  have g1: "rel m1 buf = (if fl_description f \<noteq> None then upd (rel m buf) 8 (enc 8 (unat (0 + 32 :: addr))) else rel m buf)"
    using laid nz by (auto simp: m1_def failure_laid_def load64_rel store64_def rel_store)
  have sb: "sub_base buf k = buf + of_nat k" "sub_base 0 k = 0" for k
    using blk by (simp_all add: sub_base_def valid_block_def)
  have "rel m1 buf j = rel m buf j" if "16 \<le> j" for j using that by (simp add: g1 upd_outside)
  note m1 = this and P = failure_location_part [OF laid n blk this, unfolded sb]
  have L: "r2 = 0 \<and> opt_all (location_laid (\<lambda>i. rel m2 buf (loc_ofs f + i)) 0) (fl_location f) \<and>
    rd64 (rel m2 buf) 16 = (case fl_location f of None \<Rightarrow> NULL | Some x \<Rightarrow> of_nat (loc_ofs f)) \<and>
    (\<forall>j. (case fl_location f of None \<Rightarrow> True | Some x \<Rightarrow> j < loc_ofs f \<or> loc_ofs f + location_bytes x \<le> j)
       \<longrightarrow> j < 16 \<or> 16 + 8 \<le> j \<longrightarrow> rel m2 buf j = rel m1 buf j)"
    by (rule loc.sub_serialize_opt [OF _ P l]) simp
  have "rel m2 buf j = rel m buf j" if "24 \<le> j" "j < 32 \<or> st_ofs f \<le> j" for j
    using L m1 that ofs by (auto split: option.splits)
  note Q = failure_stacktrace_part [OF laid n blk this, unfolded sb]
  have T: "r3 = 0 \<and> opt_all (stacktrace_laid (\<lambda>i. rel m3 buf (st_ofs f + i)) 0) (fl_stacktrace f) \<and>
    rd64 (rel m3 buf) 24 = (case fl_stacktrace f of None \<Rightarrow> NULL | Some x \<Rightarrow> of_nat (st_ofs f)) \<and>
    (\<forall>j. (case fl_stacktrace f of None \<Rightarrow> True | Some x \<Rightarrow> j < st_ofs f \<or> st_ofs f + stacktrace_bytes x \<le> j)
       \<longrightarrow> j < 24 \<or> 24 + 8 \<le> j \<longrightarrow> rel m3 buf j = rel m2 buf j)"
    by (rule strace.sub_serialize_opt [OF _ Q t]) simp
  have "m' = m3" "rc = 0"
    using ser l t L T by (auto simp: failure_serialize_eq m1_def [symmetric] Let_def)
  moreover have "failure_laid (rel m3 buf) 0 f \<and> (\<forall>i \<ge> failure_bytes f. rel m3 buf i = rel m buf i)"
    using L T by (intro failure_rebase [OF laid g1, of "rel m2 buf", unfolded add_0]) (auto simp: sb)
  ultimately show ?thesis by simp
qed

lemma failure_deserialize_ok:
  assumes n: "failure_bytes f < 2 ^ 31" and blk: "valid_block buf (failure_bytes f)"
    and laid: "failure_laid (rel m buf) 0 f" and des: "failure_storage_deserialize m buf len = (m', rc)"
  shows "rc = 0 \<and> failure_laid (rel m' buf) buf f \<and> (\<forall>i \<ge> failure_bytes f. rel m' buf i = rel m buf i)"
proof -
  note ofs = failure_offsets [of f] failure_offsets(5) [of f]
  define m1 where "m1 = (if load64 m (buf + 8) \<noteq> NULL
    then store64 m (buf + 8) (buf + load64 m (buf + 8)) else m)"
  obtain m2 r2 where l: "sub_deserialize location_storage_deserialize m1 buf (\<lambda>p. len - p) 16 = (m2, r2)"
    by (meson surj_pair)
  obtain m3 r3 where t: "sub_deserialize stacktrace_storage_deserialize m2 buf (\<lambda>p. p) 24 = (m3, r3)"
    by (meson surj_pair)
  have g1: "rel m1 buf = (if fl_description f \<noteq> None then upd (rel m buf) 8 (enc 8 (unat (buf + 32))) else rel m buf)"
    using laid by (auto simp: m1_def failure_laid_def load64_rel store64_def rel_store)
  have sb: "sub_base buf k = buf + of_nat k" "sub_base 0 k = 0" for k
    using blk by (simp_all add: sub_base_def valid_block_def)
  have "rel m1 buf j = rel m buf j" if "16 \<le> j" for j using that by (simp add: g1 upd_outside)
  note m1 = this and P = failure_location_part [OF laid n blk this, unfolded sb add_0]
  have L: "r2 = 0 \<and> opt_all (location_laid (\<lambda>i. rel m2 buf (loc_ofs f + i)) (buf + of_nat (loc_ofs f))) (fl_location f) \<and>
    rd64 (rel m2 buf) 16 = (case fl_location f of None \<Rightarrow> NULL | Some x \<Rightarrow> buf + of_nat (loc_ofs f)) \<and>
    (\<forall>j. (case fl_location f of None \<Rightarrow> True | Some x \<Rightarrow> j < loc_ofs f \<or> loc_ofs f + location_bytes x \<le> j)
       \<longrightarrow> j < 16 \<or> 16 + 8 \<le> j \<longrightarrow> rel m2 buf j = rel m1 buf j)"
    by (rule loc.sub_deserialize_opt [OF _ P l]) simp
  have "rel m2 buf j = rel m buf j" if "24 \<le> j" "j < 32 \<or> st_ofs f \<le> j" for j
    using L m1 that ofs by (auto split: option.splits)
  note Q = failure_stacktrace_part [OF laid n blk this, unfolded sb add_0]
  have T: "r3 = 0 \<and> opt_all (stacktrace_laid (\<lambda>i. rel m3 buf (st_ofs f + i)) (buf + of_nat (st_ofs f))) (fl_stacktrace f) \<and>
    rd64 (rel m3 buf) 24 = (case fl_stacktrace f of None \<Rightarrow> NULL | Some x \<Rightarrow> buf + of_nat (st_ofs f)) \<and>
    (\<forall>j. (case fl_stacktrace f of None \<Rightarrow> True | Some x \<Rightarrow> j < st_ofs f \<or> st_ofs f + stacktrace_bytes x \<le> j)
       \<longrightarrow> j < 24 \<or> 24 + 8 \<le> j \<longrightarrow> rel m3 buf j = rel m2 buf j)"
    by (rule strace.sub_deserialize_opt [OF _ Q t]) simp
  have "m' = m3" "rc = 0"
    using des l t L T by (auto simp: failure_deserialize_eq m1_def [symmetric] Let_def)
  moreover have "failure_laid (rel m3 buf) buf f \<and> (\<forall>i \<ge> failure_bytes f. rel m3 buf i = rel m buf i)"
    using L T by (intro failure_rebase [OF laid g1, of "rel m2 buf"]) (auto simp: sb)
  ultimately show ?thesis by simp
qed

section \<open>Reading\<close>

lemma failure_read_laid:
  assumes wf: "failure_wf f" and n: "failure_bytes f < 2 ^ 31" and blk: "valid_block buf (failure_bytes f)"
    and laid: "failure_laid (rel m buf) buf f"
  shows "read_failure m buf = Some f"
proof -
  note ofs = failure_offsets [of f]
  have sb: "sub_base buf k = buf + of_nat k" for k using blk by (simp add: sub_base_def valid_block_def)
  have ptr: "buf + of_nat k \<noteq> NULL" "k < 2 ^ 64" if "k < failure_bytes f" for k
    using that n by (auto simp: unat_offset intro!: valid_block_ptr [OF blk])
  have sub: "valid_block (buf + of_nat k) j" if "k + j \<le> failure_bytes f" "0 < j" for k j
    using valid_block_offset [OF blk, of "of_nat k" j] that n by (simp add: unat_offset)
  have desc: "read_cstr_opt m (rd64 (rel m buf) 8) = Some (fl_description f)"
  proof (cases "fl_description f")
    case (Some d)
    with ofs n laid have "load m (buf + 32) (Suc (length d)) = d @ [NUL]"
      by (simp add: load_rel failure_laid_def desc_bytes_def)
    then show ?thesis using Some laid wf ptr [of 32] ofs
      by (simp add: failure_laid_def failure_wf_def desc_bytes_def read_cstr_opt_Some)
  qed (use laid in \<open>simp add: failure_laid_def\<close>)
  have loc: "read_ptr read_location m (rd64 (rel m buf) 16) = Some (fl_location f)"
  proof (cases "fl_location f")
    case (Some l)
    note o = ofs failure_offsets(5) [OF Some] location_bytes_ge [of l]
    have "location_laid (rel m (buf + of_nat (loc_ofs f))) (buf + of_nat (loc_ofs f)) l"
      using laid Some o n by (simp add: loc.laid_at failure_laid_def sb unat_offset)
    with Some wf n o sub [of "loc_ofs f" "location_bytes l"]
    have "read_location m (buf + of_nat (loc_ofs f)) = Some l"
      by (intro location_read_laid) (simp_all add: failure_wf_def)
    then show ?thesis using laid Some ptr [of "loc_ofs f"] o by (simp add: read_ptr_def failure_laid_def)
  qed (use laid in \<open>simp add: failure_laid_def read_ptr_def\<close>)
  have st: "read_ptr read_stacktrace m (rd64 (rel m buf) 24) = Some (fl_stacktrace f)"
  proof (cases "fl_stacktrace f")
    case (Some st)
    note o = ofs failure_offsets(6) [OF Some]
    have b: "0 < stacktrace_bytes st" by (simp add: stacktrace_bytes_def)
    have "stacktrace_laid (rel m (buf + of_nat (st_ofs f))) (buf + of_nat (st_ofs f)) st"
      using laid Some o n by (simp add: strace.laid_at failure_laid_def sb unat_offset)
    with Some wf n o b sub [of "st_ofs f" "stacktrace_bytes st"]
    have "read_stacktrace m (buf + of_nat (st_ofs f)) = Some st"
      by (intro stacktrace_read_laid) (simp_all add: failure_wf_def)
    then show ?thesis using laid Some ptr [of "st_ofs f"] o b by (simp add: read_ptr_def failure_laid_def)
  qed (use laid in \<open>simp add: failure_laid_def read_ptr_def\<close>)
  have "rd32 (rel m buf) 0 = fl_stage f" using laid by (simp add: failure_laid_def)
  then show ?thesis
    using load32_rel [of 0 m buf] by (simp add: read_failure_def failure_layout load64_rel desc loc st)
qed

interpretation flr: storage failure_storage_size failure_storage_format
  failure_storage_serialize failure_storage_deserialize read_failure failure_bytes
  failure_laid failure_wf
proof (unfold_locales, goal_cases)
  case (1 x) then show ?case by (simp add: failure_size_of_nat unat_offset)
next
  case 2 then show ?case by (rule failure_format_rc)
next
  case 3 then show ?case by (rule failure_format_ok)
next
  case 4 then show ?case by (rule failure_format_frame)
next
  case 5 then show ?case by (rule failure_serialize_ok)
next
  case 6 then show ?case by (rule failure_deserialize_ok)
next
  case 7 then show ?case by (rule failure_laid_cong)
next
  case 8 then show ?case by (rule failure_read_laid)
qed

section \<open>Properties\<close>

text \<open>
  C10: A failure formatted into a block of the size announced for it, serialized there, copied byte
  for byte to any block of another address space and deserialized is the same failure: stage,
  description, location and every frame of the stack trace. Each step returns its success code.
\<close>

theorem failure_round_trip:
  assumes "failure_wf f" and "failure_bytes f < 2 ^ 31"
    and "valid_block src (failure_bytes f)" and "valid_block dst (failure_bytes f)"
  shows "case failure_storage_format m src (failure_storage_size f) f of (m1, rc1) \<Rightarrow>
    case failure_storage_serialize m1 src (failure_storage_size f) of (m2, rc2) \<Rightarrow>
    case failure_storage_deserialize
      (store m' dst (load m2 src (unat (failure_storage_size f)))) dst len of (m3, rc3) \<Rightarrow>
      rc1 = int (failure_bytes f) \<and> rc2 = 0 \<and> rc3 = 0 \<and> read_failure m3 dst = Some f"
  using flr.round_trip [OF assms _ _ refl] flr.size_bytes [OF assms(2)]
  by (simp split: prod.split)

theorem failure_round_trip_witness:
  "failure_wf \<lparr>fl_stage = 1, fl_description = Some ''no'', fl_location = Some \<lparr>loc_filename = Some ''a.c'',
     loc_line = 3\<rparr>, fl_stacktrace = None\<rparr> \<and>
   (case failure_storage_format (\<lambda>_. NUL) 4096 (failure_storage_size
       \<lparr>fl_stage = 1, fl_description = Some ''no'', fl_location = Some \<lparr>loc_filename = Some ''a.c'',
        loc_line = 3\<rparr>, fl_stacktrace = None\<rparr>)
       \<lparr>fl_stage = 1, fl_description = Some ''no'', fl_location = Some \<lparr>loc_filename = Some ''a.c'',
        loc_line = 3\<rparr>, fl_stacktrace = None\<rparr> of (m1, rc1) \<Rightarrow> rc1 = 60)"
proof -
  let ?f = "\<lparr>fl_stage = 1, fl_description = Some ''no'', fl_location = Some \<lparr>loc_filename = Some ''a.c'',
        loc_line = 3\<rparr>, fl_stacktrace = None\<rparr>"
  have b: "failure_bytes ?f = 60"
    by (simp add: failure_bytes_def loc_end_def loc_ofs_def align8_def desc_bytes_def location_bytes_def)
  have w: "failure_wf ?f" by (simp add: failure_wf_def location_wf_def cstring_def)
  have "valid_block 4096 (failure_bytes ?f)" "valid_block 8192 (failure_bytes ?f)" "failure_bytes ?f < 2 ^ 31"
    unfolding b by (simp_all add: valid_block_def)
  from failure_round_trip [OF w this(3) this(1,2), where m = "\<lambda>_. NUL" and m' = "\<lambda>_. NUL" and len = 60] w b show ?thesis
    by (auto split: prod.splits)
qed

text \<open>
  C31: Formatting a failure succeeds exactly when the buffer is large enough, returns the size it
  used, and never writes a byte beyond the buffer, whether it succeeds or not.
\<close>

theorem failure_format_bounds:
  assumes "failure_bytes f < 2 ^ 31"
  shows "snd (failure_storage_format m buf len f)
      = (if unat len < failure_bytes f then -1 else int (failure_bytes f)) \<and>
    (\<forall>i. unat len \<le> i \<longrightarrow> rel (fst (failure_storage_format m buf len f)) buf i = rel m buf i)"
  using flr.format_rc [OF assms] flr.format_frame [OF assms]
  by (metis prod.collapse)

theorem failure_format_bounds_witness:
  "failure_bytes \<lparr>fl_stage = 0, fl_description = Some ''no'', fl_location = None, fl_stacktrace = None\<rparr> = 35 \<and>
   snd (failure_storage_format (\<lambda>_. NUL) 4096 34
     \<lparr>fl_stage = 0, fl_description = Some ''no'', fl_location = None, fl_stacktrace = None\<rparr>) = -1"
proof -
  let ?f = "\<lparr>fl_stage = 0, fl_description = Some ''no'', fl_location = None, fl_stacktrace = None\<rparr>"
  have b: "failure_bytes ?f = 35" by (simp add: failure_bytes_def loc_end_def desc_bytes_def)
  then have "failure_bytes ?f < 2 ^ 31" by simp
  from failure_format_bounds [OF this, of "\<lambda>_. NUL" 4096 34] b show ?thesis by simp
qed

text \<open>
  C30: \<^verbatim>\<open>ctest_failure_create_va\<close> returns the block it allocated, holding exactly the stage, the
  formatted description, the location and the stack trace it was given.
\<close>

theorem failure_create_read:
  assumes "f = \<lparr>fl_stage = stage, fl_description = Some text, fl_location = location,
      fl_stacktrace = stacktrace\<rparr>"
    and "failure_wf f" and "failure_bytes f < 2 ^ 31" and "valid_block p (failure_bytes f)"
  shows "case ctest_failure_create_va m p stage text location stacktrace of (m', r) \<Rightarrow>
    r = p \<and> read_failure m' r = Some f"
proof -
  have d: "description_length text + 1 = of_nat (desc_bytes f)"
    by (simp add: description_length_def strlen_def assms(1) desc_bytes_def)
  have sz: "storage_size stage (of_nat (desc_bytes f)) location stacktrace = of_nat (failure_bytes f)"
    using failure_size_of_nat [OF assms(3)] assms(1)
    by (simp add: failure_storage_size_def description_len)
  let ?m = "store m p (replicate (failure_bytes f) NUL)"
  obtain m1 rc where fmt: "storage_format ?m p (of_nat (failure_bytes f)) (fl_stage f)
      (of_nat (desc_bytes f)) (fl_location f) (fl_stacktrace f) = (m1, rc)" by (meson surj_pair)
  have u: "unat (of_nat (failure_bytes f) :: size_t) = failure_bytes f"
    using assms(3) by (simp add: unat_offset)
  have rc: "rc \<ge> 0"
    using storage_format_rc [OF assms(3), of ?m p "of_nat (failure_bytes f)"] fmt u by simp
  have core: "failure_core (rel m1 p) p f"
    using storage_format_core [OF assms(3) _ assms(4) fmt] u by simp
  have n: "unat (of_nat (desc_bytes f) :: size_t) = Suc (length text)"
    using assms(1,3) failure_offsets [of f] by (simp add: unat_offset desc_bytes_def del: of_nat_Suc)
  then have "of_nat (desc_bytes f) \<noteq> (0 :: size_t)" by auto
  with n have "vsnprintf m1 (load64 m1 (p + 8)) (of_nat (desc_bytes f)) text
      = store m1 (load64 m1 (p + 8)) (text @ [NUL])"
    by (simp add: vsnprintf_def)
  moreover have "failure_laid (rel (store m1 (load64 m1 (p + 8)) (text @ [NUL])) p) p f"
    by (rule failure_core_desc [OF core _ assms(3)]) (simp add: assms(1))
  ultimately have "read_failure (vsnprintf m1 (load64 m1 (p + 8)) (of_nat (desc_bytes f)) text) p = Some f"
    using failure_read_laid [OF assms(2-4)] by simp
  moreover have "fl_stage f = stage" "fl_location f = location" "fl_stacktrace f = stacktrace"
    using assms(1) by simp_all
  ultimately show ?thesis
    using fmt rc assms(4) u
    by (simp add: ctest_failure_create_va_def d sz failure_layout valid_block_def Let_def)
qed

theorem failure_create_read_witness:
  "case ctest_failure_create_va (\<lambda>_. NUL) 4096 1 ''no'' None None of (m', r) \<Rightarrow>
    r = 4096 \<and> read_failure m' r = Some \<lparr>fl_stage = 1, fl_description = Some ''no'', fl_location = None,
      fl_stacktrace = None\<rparr>"
proof -
  let ?f = "\<lparr>fl_stage = 1, fl_description = Some ''no'', fl_location = None, fl_stacktrace = None\<rparr>"
  have b: "failure_bytes ?f = 35" by (simp add: failure_bytes_def loc_end_def desc_bytes_def)
  have "failure_wf ?f" by (simp add: failure_wf_def cstring_def)
  moreover have "failure_bytes ?f < 2 ^ 31" "valid_block 4096 (failure_bytes ?f)"
    unfolding b by (simp_all add: valid_block_def)
  ultimately show ?thesis by (rule failure_create_read [OF refl])
qed

end
