(* ===== verification/Poll_Handler.thy ===== *)
theory Poll_Handler
  imports Prelude
begin

text \<open>
  \<^verbatim>\<open>src/exec/poll_handler.h\<close>: what the polling loop of the forking runner relies on. A handler
  reads from a pipe whose unread bytes are \<open>pipe s\<close>; one notification reads at most as many
  bytes as the kernel offers at that moment. The locale \<open>stream_handler\<close> is the contract of a
  handler: every notification with data consumes some, and what the handler will have produced
  once the pipe is drained (\<open>x\<close>) does not change. It is interpreted for the event reader and
  for the output reader.
\<close>

section \<open>Definitions\<close>

text \<open>
  \<open>read(fd, p, len)\<close> on a pipe holding \<open>data\<close>, the kernel offering \<open>k\<close> bytes: the bytes copied to
  \<open>p\<close>, or \<open>None\<close> (\<^verbatim>\<open>EFAULT\<close>) when a byte of the destination is not mapped.
\<close>

definition block_mapped :: "(addr \<Rightarrow> bool) \<Rightarrow> addr \<Rightarrow> nat \<Rightarrow> bool" where
  "block_mapped mapped p n \<longleftrightarrow> list_all (\<lambda>i. mapped (p + of_nat i)) [0..<n]"

definition sys_read :: "(addr \<Rightarrow> bool) \<Rightarrow> nat \<Rightarrow> byte list \<Rightarrow> addr \<Rightarrow> size_t \<Rightarrow> byte list option" where
  "sys_read mapped k data p len =
     (let bs = take (min k (unat len)) data
      in if block_mapped mapped p (length bs) then Some bs else None)"

text \<open>
  A handler notified once per element of \<open>ks\<close>, each time with as many bytes on offer, as long as
  there is data: \<open>None\<close> when it faults or reports an error.
\<close>

fun poll_run :: "(nat \<Rightarrow> 's \<Rightarrow> ('s \<times> int) option) \<Rightarrow> ('s \<Rightarrow> byte list) \<Rightarrow> nat list \<Rightarrow> 's \<Rightarrow> 's option" where
  "poll_run handler pipe [] s = Some s"
| "poll_run handler pipe (k # ks) s =
     (if pipe s = [] then Some s
      else case handler k s of
             None \<Rightarrow> None
           | Some (s', rc) \<Rightarrow> if rc < 0 then None else poll_run handler pipe ks s')"

section \<open>The handler contract\<close>

locale stream_handler =
  fixes handler :: "nat \<Rightarrow> 's \<Rightarrow> ('s \<times> int) option"
    and pipe :: "'s \<Rightarrow> byte list"
    and good :: "'x \<Rightarrow> 's \<Rightarrow> bool"
  assumes handler_ok: "good x s \<Longrightarrow> pipe s \<noteq> [] \<Longrightarrow> 0 < k
    \<Longrightarrow> \<exists>s' n. handler k s = Some (s', int n) \<and> 0 < n \<and> pipe s' = drop n (pipe s) \<and> good x s'"
begin

text \<open>However the data is cut up, enough notifications drain the pipe and keep the outcome.\<close>

lemma run_drains:
  assumes "good x s" and "\<forall>k \<in> set ks. 0 < k" and "length (pipe s) \<le> length ks"
  shows "\<exists>s'. poll_run handler pipe ks s = Some s' \<and> pipe s' = [] \<and> good x s'"
  using assms
proof (induction ks arbitrary: s)
  case (Cons k ks)
  show ?case
  proof (cases "pipe s = []")
    case False
    from handler_ok [OF Cons.prems(1) False, of k] Cons.prems(2)
    obtain s' n where s': "handler k s = Some (s', int n)" "0 < n" "pipe s' = drop n (pipe s)" "good x s'"
      by auto
    moreover have "length (pipe s') \<le> length ks" using Cons.prems(3) s'(2,3) by simp
    ultimately show ?thesis using Cons.IH [OF s'(4)] Cons.prems(2) False by auto
  qed (use Cons.prems in simp)
qed simp

text \<open>Stopped early, it has faulted nowhere and its outcome is still the same.\<close>

lemma run_safe:
  assumes "good x s" and "\<forall>k \<in> set ks. 0 < k"
  shows "\<exists>s'. poll_run handler pipe ks s = Some s' \<and> good x s'"
  using assms
proof (induction ks arbitrary: s)
  case (Cons k ks)
  show ?case
  proof (cases "pipe s = []")
    case False
    from handler_ok [OF Cons.prems(1) False, of k] Cons.prems(2)
    obtain s' n where "handler k s = Some (s', int n)" "good x s'" by auto
    then show ?thesis using Cons.IH Cons.prems(2) False by auto
  qed (use Cons.prems in simp)
qed simp

end

section \<open>Bytes arriving in a block\<close>

lemma load_store_append:
  assumes "j + length bs \<le> 2 ^ 64"
  shows "load (store m (a + of_nat j) bs) a (j + length bs) = load m a j @ bs"
proof (cases "bs = []")
  case False
  then have "0 < length bs" by blast
  with assms have j: "j < 2 ^ 64" by linarith
  have "(store m (a + of_nat j) bs) (a + of_nat i) = (load m a j @ bs) ! i" if "i < j + length bs" for i
  proof -
    have i: "i < 2 ^ 64" using that assms by simp
    show ?thesis using that i j assms
      by (auto simp: store_def unat_diff_offset unat_offset load_def nth_append)
  qed
  then show ?thesis by (intro nth_equalityI) (simp_all add: load_def)
qed (simp add: store_def)

lemma block_mapped_sub:
  assumes "block_mapped mapped p n" and "j + i \<le> n"
  shows "block_mapped mapped (p + of_nat j) i"
  using assms by (auto simp: block_mapped_def list_all_iff add.assoc simp flip: of_nat_add)

lemma block_mapped_all [simp]: "block_mapped (\<lambda>_. True) p n"
  by (simp add: block_mapped_def list_all_iff)


end
