(* ===== verification/Exec_Events.thy ===== *)
theory Exec_Events
  imports Failure Poll_Handler
begin

text \<open>
  \<^verbatim>\<open>src/exec/exec_events.c\<close>: the event channel from the child that runs a test to its parent.
  The writer turns a stage change or a failure into a 4-byte header (16-bit type and length) and
  a body; the reader reassembles them from whatever pieces \<^verbatim>\<open>read\<close> returns and notifies its
  consumer. The reader works on the byte memory: its header and stage are read into its own
  union, failures into blocks from \<^verbatim>\<open>malloc\<close>.
\<close>

section \<open>Definitions\<close>

subsection \<open>Messages\<close>

definition EXEC_EVENT_STAGE_CHANGE :: "16 word" where
  "EXEC_EVENT_STAGE_CHANGE = 0"

definition EXEC_EVENT_FAILURE :: "16 word" where
  "EXEC_EVENT_FAILURE = 1"

record exec_event_msg_header =
  hdr_type :: "16 word"
  hdr_length :: "16 word"

definition sizeof_msg_header :: size_t where
  "sizeof_msg_header = 4"

definition sizeof_stage :: size_t where
  "sizeof_stage = 4"

definition header_image :: "exec_event_msg_header \<Rightarrow> byte list" where
  "header_image h = enc 2 (unat (hdr_type h)) @ enc 2 (unat (hdr_length h))"

subsection \<open>Consumers\<close>

text \<open>
  The two operations of a consumer. A failure is passed as what its pointer designates at the
  time of the call (\<open>None\<close> when that is not a readable failure); ownership goes to the consumer.
\<close>

record 'c exec_event_consumer_ops =
  op_on_stage_change :: "'c \<Rightarrow> ctest_stage_t \<Rightarrow> 'c"
  op_on_failure :: "'c \<Rightarrow> ctest_failure option \<Rightarrow> 'c"

definition exec_event_consumer_on_stage_change ::
  "'c exec_event_consumer_ops \<Rightarrow> 'c \<Rightarrow> ctest_stage_t \<Rightarrow> 'c" where
  "exec_event_consumer_on_stage_change ops consumer stage = op_on_stage_change ops consumer stage"

definition exec_event_consumer_on_failure ::
  "'c exec_event_consumer_ops \<Rightarrow> 'c \<Rightarrow> mem \<Rightarrow> addr \<Rightarrow> 'c" where
  "exec_event_consumer_on_failure ops consumer m failure =
     op_on_failure ops consumer (read_failure m failure)"

subsection \<open>The writer\<close>

text \<open>
  The writer's end of the pipe: the bytes written so far and what the next \<^verbatim>\<open>write\<close> calls are
  limited to (a negative limit is an error; none left means unlimited).
\<close>

record exec_event_writer =
  wr_mem :: mem
  wr_out :: "byte list"
  wr_limits :: "int list"
  wr_open :: bool

definition sys_write :: "exec_event_writer \<Rightarrow> byte list \<Rightarrow> exec_event_writer \<times> int" where
  "sys_write w bs =
     (case wr_limits w of
        [] \<Rightarrow> (w\<lparr>wr_out := wr_out w @ bs\<rparr>, int (length bs))
      | l # ls \<Rightarrow>
          if l < 0 then (w\<lparr>wr_limits := ls\<rparr>, -1)
          else (w\<lparr>wr_limits := ls, wr_out := wr_out w @ take (nat l) bs\<rparr>,
                int (min (nat l) (length bs))))"

definition exec_event_writer_init :: "mem \<Rightarrow> int list \<Rightarrow> exec_event_writer" where
  "exec_event_writer_init m limits = \<lparr>wr_mem = m, wr_out = [], wr_limits = limits, wr_open = True\<rparr>"

definition exec_event_writer_destroy :: "exec_event_writer \<Rightarrow> exec_event_writer" where
  "exec_event_writer_destroy w = w\<lparr>wr_open := False\<rparr>"

definition exec_event_writer_op_on_stage_change ::
  "exec_event_writer \<Rightarrow> ctest_stage_t \<Rightarrow> exec_event_writer" where
  "exec_event_writer_op_on_stage_change w stage =
     (let header = \<lparr>hdr_type = EXEC_EVENT_STAGE_CHANGE, hdr_length = ucast sizeof_stage\<rparr>;
          (w, rc) = sys_write w (header_image header)
      in if rc \<noteq> int_of_size sizeof_msg_header then w
         else fst (sys_write w (enc 4 (unat stage))))"

text \<open>\<open>buf\<close> is where the variable-length array of the function lies on the stack.\<close>

definition exec_event_writer_op_on_failure ::
  "exec_event_writer \<Rightarrow> addr \<Rightarrow> ctest_failure \<Rightarrow> exec_event_writer" where
  "exec_event_writer_op_on_failure w buf failure =
     (let len = failure_storage_size failure;
          (m, rc) = failure_storage_format (wr_mem w) buf len failure;
          w = w\<lparr>wr_mem := m\<rparr>
      in if rc \<noteq> int_of_size len then w
         else let (m, rc) = failure_storage_serialize (wr_mem w) buf len;
                  w = w\<lparr>wr_mem := m\<rparr>
              in if rc \<noteq> 0 then w
                 else let header = \<lparr>hdr_type = EXEC_EVENT_FAILURE, hdr_length = ucast len\<rparr>;
                          (w, rc) = sys_write w (header_image header)
                      in if rc \<noteq> int_of_size sizeof_msg_header then w
                         else fst (sys_write w (load (wr_mem w) buf (unat len))))"

subsection \<open>The reader\<close>

datatype body_callback =
    Reader_On_Ignored_Msg_Done
  | Reader_On_State_Change_Done
  | Reader_On_Failure_Done

datatype reader_callback =
    Reader_On_Msg_Header_Done
  | Reader_On_Msg_Body_Done
  | Reader_Prep_Next_Msg

text \<open>
  The fields of \<^verbatim>\<open>exec_event_reader_t\<close>, and the world it runs in: the process memory, which
  addresses are mapped, what the next \<^verbatim>\<open>malloc\<close> calls return (NULL once the list is used up), the
  blocks freed, the unread bytes of the pipe and the consumer's state.
\<close>

record 'c exec_event_reader =
  er_self :: addr
  er_buf :: addr
  er_ofs :: size_t
  er_cap :: size_t
  er_len :: size_t
  er_body_done :: body_callback
  er_on_done :: reader_callback
  er_open :: bool
  er_mem :: mem
  er_mapped :: "addr \<Rightarrow> bool"
  er_mallocs :: "addr list"
  er_freed :: "addr list"
  er_pipe :: "byte list"
  er_consumer :: 'c

definition sizeof_exec_event_reader :: size_t where
  "sizeof_exec_event_reader = 80"

definition off_er_state :: size_t where
  "off_er_state = 56"

text \<open>\<^verbatim>\<open>&reader->state.read_header.header\<close> and \<^verbatim>\<open>&reader->state.read_body.msg\<close>.\<close>

definition state_ptr :: "'c exec_event_reader \<Rightarrow> addr" where
  "state_ptr r = er_self r + off_er_state"

definition reader_on_state_change_done ::
  "'c exec_event_consumer_ops \<Rightarrow> 'c exec_event_reader \<Rightarrow> 'c exec_event_reader" where
  "reader_on_state_change_done ops r =
     r\<lparr>er_consumer := exec_event_consumer_on_stage_change ops (er_consumer r)
        (load32 (er_mem r) (state_ptr r))\<rparr>"

text \<open>\<open>None\<close>: the buffer was never allocated and \<^verbatim>\<open>failure_storage_deserialize\<close> dereferences NULL.\<close>

definition reader_on_failure_done ::
  "'c exec_event_consumer_ops \<Rightarrow> 'c exec_event_reader \<Rightarrow> 'c exec_event_reader option" where
  "reader_on_failure_done ops r =
     (if er_buf r = NULL then None
      else let (m, rc) = failure_storage_deserialize (er_mem r) (er_buf r) (er_ofs r);
               r = r\<lparr>er_mem := m\<rparr>
           in if rc = 0
              then Some (r\<lparr>er_consumer := exec_event_consumer_on_failure ops (er_consumer r) m (er_buf r)\<rparr>)
              else Some (r\<lparr>er_freed := er_buf r # er_freed r\<rparr>))"

definition reader_body_done ::
  "'c exec_event_consumer_ops \<Rightarrow> 'c exec_event_reader \<Rightarrow> 'c exec_event_reader option" where
  "reader_body_done ops r =
     (case er_body_done r of
        Reader_On_Ignored_Msg_Done \<Rightarrow> Some r
      | Reader_On_State_Change_Done \<Rightarrow> Some (reader_on_state_change_done ops r)
      | Reader_On_Failure_Done \<Rightarrow> reader_on_failure_done ops r)"

definition reader_prep_next_msg :: "'c exec_event_reader \<Rightarrow> 'c exec_event_reader" where
  "reader_prep_next_msg r =
     r\<lparr>er_buf := state_ptr r, er_ofs := 0, er_len := sizeof_msg_header, er_cap := sizeof_msg_header,
       er_on_done := Reader_On_Msg_Header_Done\<rparr>"

definition malloc :: "'c exec_event_reader \<Rightarrow> 'c exec_event_reader \<times> addr" where
  "malloc r = (case er_mallocs r of [] \<Rightarrow> (r, NULL) | p # ps \<Rightarrow> (r\<lparr>er_mallocs := ps\<rparr>, p))"

definition reader_on_msg_header_done :: "'c exec_event_reader \<Rightarrow> 'c exec_event_reader" where
  "reader_on_msg_header_done r =
     (let header = \<lparr>hdr_type = load16 (er_mem r) (state_ptr r),
                    hdr_length = load16 (er_mem r) (state_ptr r + 2)\<rparr>;
          r = r\<lparr>er_buf := NULL, er_ofs := 0, er_len := ucast (hdr_length header),
                er_cap := ucast (hdr_length header), er_body_done := Reader_On_Ignored_Msg_Done\<rparr>;
          r = (if hdr_type header = EXEC_EVENT_STAGE_CHANGE
               then if er_len r \<ge> sizeof_stage
                    then r\<lparr>er_buf := state_ptr r, er_cap := sizeof_stage,
                           er_body_done := Reader_On_State_Change_Done\<rparr>
                    else r
               else if hdr_type header = EXEC_EVENT_FAILURE
               then let (r, p) = malloc r
                    in r\<lparr>er_buf := p, er_body_done := Reader_On_Failure_Done\<rparr>
               else r)
      in r\<lparr>er_on_done := Reader_On_Msg_Body_Done\<rparr>)"

definition reader_on_msg_body_done ::
  "'c exec_event_consumer_ops \<Rightarrow> 'c exec_event_reader \<Rightarrow> 'c exec_event_reader option" where
  "reader_on_msg_body_done ops r =
     map_option (\<lambda>r.
       if er_cap r < er_len r
       then r\<lparr>er_buf := NULL, er_cap := er_len r, er_on_done := Reader_Prep_Next_Msg\<rparr>
       else reader_prep_next_msg r) (reader_body_done ops r)"

definition reader_done ::
  "'c exec_event_consumer_ops \<Rightarrow> 'c exec_event_reader \<Rightarrow> 'c exec_event_reader option" where
  "reader_done ops r =
     (case er_on_done r of
        Reader_On_Msg_Header_Done \<Rightarrow> Some (reader_on_msg_header_done r)
      | Reader_On_Msg_Body_Done \<Rightarrow> reader_on_msg_body_done ops r
      | Reader_Prep_Next_Msg \<Rightarrow> Some (reader_prep_next_msg r))"

text \<open>
  One notification, the kernel offering \<open>k\<close> bytes. Ignored bytes go to a local array (always
  mapped) and are lost; the test for NULL is on \<^verbatim>\<open>reader->buf + reader->ofs\<close>.
\<close>

definition reader_op_on_data_available ::
  "'c exec_event_consumer_ops \<Rightarrow> nat \<Rightarrow> 'c exec_event_reader \<Rightarrow> ('c exec_event_reader \<times> int) option" where
  "reader_op_on_data_available ops k r =
     (let buf = er_buf r + er_ofs r;
          len = er_cap r - er_ofs r;
          garbage = (buf = NULL);
          len = (if garbage \<and> len > 1024 then 1024 else len)
      in case sys_read (if garbage then \<lambda>_. True else er_mapped r) k (er_pipe r) buf len of
           None \<Rightarrow> Some (r, -1)
         | Some bs \<Rightarrow>
             (let r = r\<lparr>er_mem := (if garbage then er_mem r else store (er_mem r) buf bs),
                        er_pipe := drop (length bs) (er_pipe r),
                        er_ofs := er_ofs r + of_nat (length bs)\<rparr>
              in map_option (\<lambda>r. (r, int (length bs)))
                   (if er_ofs r \<ge> er_cap r then reader_done ops r else Some r)))"

text \<open>The fields that \<^verbatim>\<open>exec_event_reader_init\<close> gives a value; the world is passed in.\<close>

definition exec_event_reader_init ::
  "addr \<Rightarrow> mem \<Rightarrow> (addr \<Rightarrow> bool) \<Rightarrow> addr list \<Rightarrow> byte list \<Rightarrow> 'c \<Rightarrow> 'c exec_event_reader" where
  "exec_event_reader_init self m mapped mallocs pipe consumer =
     reader_prep_next_msg
       \<lparr>er_self = self, er_buf = NULL, er_ofs = 0, er_cap = 0, er_len = 0,
        er_body_done = Reader_On_Ignored_Msg_Done, er_on_done = Reader_Prep_Next_Msg, er_open = True,
        er_mem = store m self (replicate (unat sizeof_exec_event_reader) NUL), er_mapped = mapped,
        er_mallocs = mallocs, er_freed = [], er_pipe = pipe, er_consumer = consumer\<rparr>"

definition exec_event_reader_destroy :: "'c exec_event_reader \<Rightarrow> 'c exec_event_reader" where
  "exec_event_reader_destroy r =
     (let lower_bound = er_self r;
          upper_bound = er_self r + sizeof_exec_event_reader;
          r = r\<lparr>er_open := False\<rparr>;
          r = (if er_buf r \<noteq> NULL \<and> er_buf r < lower_bound \<and> er_buf r \<ge> upper_bound
               then r\<lparr>er_freed := er_buf r # er_freed r\<rparr> else r)
      in r\<lparr>er_mem := store (er_mem r) (er_self r) (replicate (unat sizeof_exec_event_reader) NUL),
           er_buf := NULL, er_ofs := 0, er_cap := 0, er_len := 0\<rparr>)"

section \<open>What is on the wire\<close>

datatype exec_event = Stage_Change ctest_stage_t | Failure_Event ctest_failure

text \<open>
  A failure travels if its strings are C strings and its image fits the 16-bit length field.
\<close>

fun event_ok :: "exec_event \<Rightarrow> bool" where
  "event_ok (Stage_Change stage) = True"
| "event_ok (Failure_Event f) = (failure_wf f \<and> failure_bytes f < 2 ^ 16)"

fun event_type :: "exec_event \<Rightarrow> 16 word" where
  "event_type (Stage_Change stage) = EXEC_EVENT_STAGE_CHANGE"
| "event_type (Failure_Event f) = EXEC_EVENT_FAILURE"

fun body_bytes :: "exec_event \<Rightarrow> nat" where
  "body_bytes (Stage_Change stage) = 4"
| "body_bytes (Failure_Event f) = failure_bytes f"

fun body_of :: "exec_event \<Rightarrow> byte list \<Rightarrow> bool" where
  "body_of (Stage_Change stage) bs = (bs = enc 4 (unat stage))"
| "body_of (Failure_Event f) bs = (length bs = failure_bytes f \<and> failure_laid (\<lambda>i. bs ! i) 0 f)"

definition message :: "exec_event \<Rightarrow> byte list \<Rightarrow> byte list" where
  "message e body = header_image \<lparr>hdr_type = event_type e, hdr_length = of_nat (body_bytes e)\<rparr> @ body"

inductive stream :: "exec_event list \<Rightarrow> byte list \<Rightarrow> bool" where
  stream_Nil: "stream [] []"
| stream_Cons: "event_ok e \<Longrightarrow> body_of e body \<Longrightarrow> stream es bs \<Longrightarrow> stream (e # es) (message e body @ bs)"

inductive_cases stream_NilE [elim]: "stream [] bs"
inductive_cases stream_ConsE [elim]: "stream (e # es) bs"

fun deliver :: "'c exec_event_consumer_ops \<Rightarrow> exec_event \<Rightarrow> 'c \<Rightarrow> 'c" where
  "deliver ops (Stage_Change stage) c = op_on_stage_change ops c stage"
| "deliver ops (Failure_Event f) c = op_on_failure ops c (Some f)"

lemma length_header_image [simp]: "length (header_image h) = 4"
  by (simp add: header_image_def)

lemma body_of_length: "body_of e bs \<Longrightarrow> length bs = body_bytes e"
  by (cases e) simp_all

lemma failure_bytes_ge: "32 \<le> failure_bytes f"
  using failure_offsets(2,4) [of f] by simp

lemma body_bytes_bounds: "4 \<le> body_bytes e" "event_ok e \<Longrightarrow> body_bytes e < 2 ^ 16"
  using order_trans [OF _ failure_bytes_ge, of 4] by (cases e; simp)+

lemma stream_short: "stream es bs \<Longrightarrow> length bs < 4 \<Longrightarrow> es = [] \<and> bs = []"
  by (induction rule: stream.induct) (auto simp: message_def)

section \<open>The writer\<close>

lemma event_constants [simp]:
  "unat sizeof_stage = 4" "unat sizeof_msg_header = 4" "int_of_size sizeof_msg_header = 4"
  "EXEC_EVENT_FAILURE \<noteq> EXEC_EVENT_STAGE_CHANGE"
  using int_of_size_of_nat [of 4]
  by (simp_all add: sizeof_stage_def sizeof_msg_header_def EXEC_EVENT_FAILURE_def EXEC_EVENT_STAGE_CHANGE_def)

lemma sys_write_free [simp]: "wr_limits w = [] \<Longrightarrow> sys_write w bs = (w\<lparr>wr_out := wr_out w @ bs\<rparr>, int (length bs))"
  by (simp add: sys_write_def)

lemma write_stage_change:
  assumes "wr_limits w = []"
  shows "exec_event_writer_op_on_stage_change w stage
    = w\<lparr>wr_out := wr_out w @ message (Stage_Change stage) (enc 4 (unat stage))\<rparr>"
  using assms
  by (simp add: exec_event_writer_op_on_stage_change_def message_def sizeof_stage_def)

lemma write_failure:
  assumes "wr_limits w = []" and "failure_bytes f < 2 ^ 31" and "valid_block buf (failure_bytes f)"
  shows "\<exists>m body. body_of (Failure_Event f) body \<and>
    exec_event_writer_op_on_failure w buf f
      = w\<lparr>wr_mem := m, wr_out := wr_out w @ message (Failure_Event f) body\<rparr>"
proof -
  let ?n = "failure_bytes f"
  have sz: "failure_storage_size f = of_nat ?n" "unat (of_nat ?n :: size_t) = ?n"
      "int_of_size (of_nat ?n) = int ?n"
    using assms(2) by (simp_all add: failure_size_of_nat unat_offset int_of_size_of_nat)
  obtain m1 rc1 where f: "failure_storage_format (wr_mem w) buf (of_nat ?n) f = (m1, rc1)"
    by (meson surj_pair)
  have rc1: "rc1 = int ?n"
    using flr.format_rc [OF assms(2), of "wr_mem w" buf "of_nat ?n"] f sz(2) by simp
  have laid: "failure_laid (rel m1 buf) buf f"
    using flr.format_ok [OF assms(2) _ assms(3) f] sz(2) by simp
  obtain m2 rc2 where s: "failure_storage_serialize m1 buf (of_nat ?n) = (m2, rc2)"
    by (meson surj_pair)
  from flr.serialize_ok [OF assms(2,3) laid s] have rc2: "rc2 = 0" and "failure_laid (rel m2 buf) 0 f"
    by simp_all
  then have "failure_laid (\<lambda>i. load m2 buf ?n ! i) 0 f"
    using assms(2) by (elim failure_laid_cong) (simp add: load_rel0 rd_def)
  then have "body_of (Failure_Event f) (load m2 buf ?n)" by simp
  moreover have "ucast (of_nat ?n :: size_t) = (of_nat ?n :: 16 word)"
    by (simp add: word_of_nat_eq_iff unsigned_of_nat)
  ultimately show ?thesis
    using assms(1) f s rc1 rc2 sz
    by (intro exI [of _ m2] exI [of _ "load m2 buf ?n"])
      (simp add: exec_event_writer_op_on_failure_def message_def)
qed

section \<open>The reader\<close>

fun mallocs_ok :: "(addr \<Rightarrow> bool) \<Rightarrow> addr list \<Rightarrow> exec_event list \<Rightarrow> bool" where
  "mallocs_ok mapped ps [] = True"
| "mallocs_ok mapped ps (Stage_Change stage # es) = mallocs_ok mapped ps es"
| "mallocs_ok mapped [] (Failure_Event f # es) = False"
| "mallocs_ok mapped (p # ps) (Failure_Event f # es) =
     (valid_block p (failure_bytes f) \<and> block_mapped mapped p (failure_bytes f) \<and> mallocs_ok mapped ps es)"

text \<open>Bytes of the next header, or of the body of \<open>e\<close>, have been read; the rest is in the pipe.\<close>

definition in_header :: "exec_event list \<Rightarrow> 'c exec_event_reader \<Rightarrow> bool" where
  "in_header es r \<longleftrightarrow>
     er_on_done r = Reader_On_Msg_Header_Done \<and> er_buf r = state_ptr r \<and> er_cap r = of_nat 4 \<and>
     unat (er_ofs r) < 4 \<and>
     stream es (load (er_mem r) (state_ptr r) (unat (er_ofs r)) @ er_pipe r)"

fun body_target :: "exec_event \<Rightarrow> 'c exec_event_reader \<Rightarrow> bool" where
  "body_target (Stage_Change stage) r =
     (er_body_done r = Reader_On_State_Change_Done \<and> er_buf r = state_ptr r)"
| "body_target (Failure_Event f) r =
     (er_body_done r = Reader_On_Failure_Done \<and> valid_block (er_buf r) (failure_bytes f) \<and>
      block_mapped (er_mapped r) (er_buf r) (failure_bytes f))"

definition in_body :: "exec_event \<Rightarrow> exec_event list \<Rightarrow> 'c exec_event_reader \<Rightarrow> bool" where
  "in_body e es r \<longleftrightarrow>
     er_on_done r = Reader_On_Msg_Body_Done \<and> event_ok e \<and> body_target e r \<and>
     er_cap r = of_nat (body_bytes e) \<and> er_len r = of_nat (body_bytes e) \<and>
     unat (er_ofs r) < body_bytes e \<and>
     (\<exists>body bs. body_of e body \<and> stream es bs \<and>
        load (er_mem r) (er_buf r) (unat (er_ofs r)) @ er_pipe r = body @ bs)"

definition reader_good :: "'c exec_event_consumer_ops \<Rightarrow> 'c \<Rightarrow> 'c exec_event_reader \<Rightarrow> bool" where
  "reader_good ops c r \<longleftrightarrow>
     valid_block (state_ptr r) 4 \<and> block_mapped (er_mapped r) (state_ptr r) 4 \<and>
     (\<exists>es. mallocs_ok (er_mapped r) (er_mallocs r) es \<and>
        (in_header es r \<and> fold (deliver ops) es (er_consumer r) = c \<or>
         (\<exists>e. in_body e es r \<and> fold (deliver ops) (e # es) (er_consumer r) = c)))"

text \<open>The state after \<open>read\<close> has put \<open>bs\<close> behind the bytes already there.\<close>

definition take_bytes :: "nat \<Rightarrow> 'c exec_event_reader \<Rightarrow> 'c exec_event_reader" where
  "take_bytes n r =
     r\<lparr>er_mem := store (er_mem r) (er_buf r + er_ofs r) (take n (er_pipe r)),
       er_pipe := drop n (er_pipe r), er_ofs := of_nat (unat (er_ofs r) + n)\<rparr>"

lemma take_bytes_simps [simp]:
  "er_buf (take_bytes n r) = er_buf r" "er_cap (take_bytes n r) = er_cap r"
  "er_len (take_bytes n r) = er_len r" "er_on_done (take_bytes n r) = er_on_done r"
  "er_body_done (take_bytes n r) = er_body_done r" "er_self (take_bytes n r) = er_self r"
  "er_mapped (take_bytes n r) = er_mapped r" "er_mallocs (take_bytes n r) = er_mallocs r"
  "er_consumer (take_bytes n r) = er_consumer r" "er_pipe (take_bytes n r) = drop n (er_pipe r)"
  "state_ptr (take_bytes n r) = state_ptr r"
  "er_ofs (take_bytes n r) = of_nat (unat (er_ofs r) + n)"
  by (simp_all add: take_bytes_def state_ptr_def)

lemma body_target_take [simp]: "body_target e (take_bytes n r) = body_target e r"
  by (cases e) simp_all

lemma take_bytes_load:
  assumes "unat (er_ofs r) + n < 2 ^ 64" and "n \<le> length (er_pipe r)"
  shows "load (er_mem (take_bytes n r)) (er_buf r) (unat (er_ofs r) + n)
    = load (er_mem r) (er_buf r) (unat (er_ofs r)) @ take n (er_pipe r)"
  using load_store_append [of "unat (er_ofs r)" "take n (er_pipe r)" "er_mem r" "er_buf r"] assms
  by (simp add: take_bytes_def min_absorb2)

lemma reader_step:
  assumes "valid_block (er_buf r) n" and "block_mapped (er_mapped r) (er_buf r) n"
    and "er_cap r = of_nat n" and "n < 2 ^ 16" and "unat (er_ofs r) < n"
    and "er_pipe r \<noteq> []" and "0 < k"
  obtains i where "0 < i" and "i \<le> length (er_pipe r)" and "unat (er_ofs r) + i \<le> n"
    and "reader_op_on_data_available ops k r = map_option (\<lambda>r. (r, int i))
      (if unat (er_ofs r) + i = n then reader_done ops (take_bytes i r) else Some (take_bytes i r))"
proof -
  let ?j = "unat (er_ofs r)"
  define i where "i = min (length (er_pipe r)) (min k (n - ?j))"
  have ptr: "er_buf r + er_ofs r \<noteq> NULL" using assms(1,5) by (rule valid_block_ptr)
  have le: "er_ofs r \<le> er_cap r" using assms(3-5) by (simp add: word_le_nat_alt unat_offset)
  have len: "unat (er_cap r - er_ofs r) = n - ?j"
    using le assms(3,4) by (simp add: unat_sub unat_offset)
  have "block_mapped (er_mapped r) (er_buf r + of_nat ?j) i"
    using assms(2) by (rule block_mapped_sub) (use assms(5) in \<open>simp add: i_def\<close>)
  moreover have "take (min k (n - ?j)) (er_pipe r) = take i (er_pipe r)" "length (take i (er_pipe r)) = i"
    by (simp_all add: i_def min_def)
  ultimately have rd: "sys_read (er_mapped r) k (er_pipe r) (er_buf r + er_ofs r) (er_cap r - er_ofs r)
      = Some (take i (er_pipe r))"
    by (simp add: sys_read_def len Let_def)
  have i: "0 < i" "i \<le> length (er_pipe r)" "?j + i \<le> n" using assms(5-7) by (simp_all add: i_def)
  have "er_ofs r + of_nat i = of_nat (?j + i)" by simp
  moreover have "of_nat n \<le> (of_nat (?j + i) :: size_t) \<longleftrightarrow> ?j + i = n"
    using i(3) assms(4) unat_offset [of "?j + i"] by (auto simp: of_nat_le_size simp del: of_nat_add)
  ultimately show thesis
    using that [OF i] ptr rd i(2) assms(3)
    by (simp add: reader_op_on_data_available_def take_bytes_def min_absorb2 Let_def del: of_nat_add)
qed

lemma load_split: "load m a (i + j) = load m a i @ load m (a + of_nat i) j"
  by (auto simp: load_def nth_append add.assoc simp flip: of_nat_add intro!: nth_equalityI)

lemma header_read:
  assumes "load m a 4 = header_image h"
  shows "load16 m a = hdr_type h" and "load16 m (a + 2) = hdr_length h"
proof -
  have "load m a 2 @ load m (a + 2) 2 = enc 2 (unat (hdr_type h)) @ enc 2 (unat (hdr_length h))"
    using assms load_split [of m a 2 2] by (simp add: header_image_def)
  then have "load m a 2 = enc 2 (unat (hdr_type h))" "load m (a + 2) 2 = enc 2 (unat (hdr_length h))"
    by (simp_all add: append_eq_append_conv)
  then show "load16 m a = hdr_type h" and "load16 m (a + 2) = hdr_length h"
    by (simp_all add: load16_def)
qed

text \<open>A complete header opens the body of the next event.\<close>

lemma header_done:
  assumes "stream es (load (er_mem r) (state_ptr r) 4 @ er_pipe r)"
    and "mallocs_ok (er_mapped r) (er_mallocs r) es"
  shows "\<exists>e es'. es = e # es' \<and> in_body e es' (reader_on_msg_header_done r) \<and>
    mallocs_ok (er_mapped r) (er_mallocs (reader_on_msg_header_done r)) es' \<and>
    er_consumer (reader_on_msg_header_done r) = er_consumer r \<and>
    er_mapped (reader_on_msg_header_done r) = er_mapped r \<and>
    state_ptr (reader_on_msg_header_done r) = state_ptr r \<and> er_pipe (reader_on_msg_header_done r) = er_pipe r"
  using assms(1)
proof cases
  case stream_Nil
  then show ?thesis by (metis append_is_Nil_conv length_load list.size(3) zero_neq_numeral)
next
  case (stream_Cons e body es' bs)
  let ?h = "\<lparr>hdr_type = event_type e, hdr_length = of_nat (body_bytes e)\<rparr>"
  from stream_Cons(2) have "load (er_mem r) (state_ptr r) 4 = header_image ?h" and pipe: "er_pipe r = body @ bs"
    by (simp_all add: message_def append_eq_append_conv)
  note hdr = header_read [OF this(1)]
  have n: "ucast (of_nat (body_bytes e) :: 16 word) = (of_nat (body_bytes e) :: size_t)"
    using body_bytes_bounds(2) [OF stream_Cons(3)]
    by (simp add: unsigned_of_nat take_bit_nat_eq_self)
  show ?thesis
  proof (cases e)
    case (Stage_Change stage)
    then show ?thesis
      using stream_Cons assms(2) hdr n pipe
      by (auto simp: reader_on_msg_header_done_def in_body_def state_ptr_def sizeof_stage_def Let_def load_def)
  next
    case (Failure_Event f)
    with assms(2) stream_Cons(1) obtain p ps where "er_mallocs r = p # ps"
        "valid_block p (failure_bytes f)" "block_mapped (er_mapped r) p (failure_bytes f)"
        "mallocs_ok (er_mapped r) ps es'"
      by (cases "er_mallocs r") auto
    then show ?thesis
      using stream_Cons Failure_Event hdr n pipe failure_bytes_ge [of f]
      by (auto simp: reader_on_msg_header_done_def in_body_def state_ptr_def malloc_def Let_def load_def)
  qed
qed

lemma prep_next_simps [simp]:
  "er_consumer (reader_prep_next_msg r) = er_consumer r" "er_mapped (reader_prep_next_msg r) = er_mapped r"
  "er_mallocs (reader_prep_next_msg r) = er_mallocs r" "er_pipe (reader_prep_next_msg r) = er_pipe r"
  "state_ptr (reader_prep_next_msg r) = state_ptr r"
  by (simp_all add: reader_prep_next_msg_def state_ptr_def)

lemma prep_next_in_header: "stream es (er_pipe r) \<Longrightarrow> in_header es (reader_prep_next_msg r)"
  by (simp add: in_header_def reader_prep_next_msg_def state_ptr_def sizeof_msg_header_def load_def)

text \<open>The callback of a complete body notifies the consumer of the event.\<close>

lemma body_done_deliver:
  assumes "event_ok e" and "body_target e r" and "load (er_mem r) (er_buf r) (body_bytes e) = body"
    and "body_of e body"
  shows "\<exists>m. reader_body_done ops r = Some (r\<lparr>er_mem := m, er_consumer := deliver ops e (er_consumer r)\<rparr>)"
proof (cases e)
  case (Stage_Change stage)
  with assms(2-4) have "load32 (er_mem r) (state_ptr r) = stage" by (simp add: load32_def)
  with Stage_Change assms(2) show ?thesis
    by (intro exI [of _ "er_mem r"])
      (simp add: reader_body_done_def reader_on_state_change_done_def exec_event_consumer_on_stage_change_def)
next
  case (Failure_Event f)
  with assms(1,2) have f: "failure_wf f" "failure_bytes f < 2 ^ 31" "valid_block (er_buf r) (failure_bytes f)"
      "er_body_done r = Reader_On_Failure_Done" by simp_all
  obtain m rc where des: "failure_storage_deserialize (er_mem r) (er_buf r) (er_ofs r) = (m, rc)"
    by (meson surj_pair)
  from assms(3,4) Failure_Event have "failure_laid (\<lambda>i. load (er_mem r) (er_buf r) (failure_bytes f) ! i) 0 f"
    by simp
  then have "failure_laid (rel (er_mem r) (er_buf r)) 0 f"
    using f(2) by (elim failure_laid_cong) (simp add: load_rel0 rd_def)
  from flr.deserialize_ok [OF f(2,3) this des] flr.read_laid [OF f(1-3), of m]
  have "rc = 0" "read_failure m (er_buf r) = Some f" by simp_all
  with des f(3,4) Failure_Event show ?thesis
    by (intro exI [of _ m])
      (simp add: reader_body_done_def reader_on_failure_done_def exec_event_consumer_on_failure_def valid_block_def)
qed

lemma body_done:
  assumes "event_ok e" and "body_target e r" and "er_cap r = er_len r"
    and "load (er_mem r) (er_buf r) (body_bytes e) @ er_pipe r = body @ bs"
    and "body_of e body" and "stream es bs"
  shows "\<exists>r'. reader_on_msg_body_done ops r = Some r' \<and> in_header es r' \<and> er_mallocs r' = er_mallocs r \<and>
    er_mapped r' = er_mapped r \<and> er_pipe r' = er_pipe r \<and> state_ptr r' = state_ptr r \<and>
    er_consumer r' = deliver ops e (er_consumer r)"
proof -
  from assms(4,5) have b: "load (er_mem r) (er_buf r) (body_bytes e) = body" "er_pipe r = bs"
    using body_of_length [of e body] by (simp_all add: append_eq_append_conv)
  obtain m where "reader_body_done ops r = Some (r\<lparr>er_mem := m, er_consumer := deliver ops e (er_consumer r)\<rparr>)"
    using body_done_deliver [OF assms(1,2) b(1) assms(5)] by blast
  then show ?thesis using assms(3,6) b(2)
    by (simp add: reader_on_msg_body_done_def prep_next_in_header state_ptr_def)
      (simp add: reader_prep_next_msg_def)
qed

lemma reader_goodI_header:
  "valid_block (state_ptr r) 4 \<Longrightarrow> block_mapped (er_mapped r) (state_ptr r) 4 \<Longrightarrow> in_header es r
   \<Longrightarrow> mallocs_ok (er_mapped r) (er_mallocs r) es \<Longrightarrow> fold (deliver ops) es (er_consumer r) = c
   \<Longrightarrow> reader_good ops c r"
  unfolding reader_good_def by blast

lemma reader_goodI_body:
  "valid_block (state_ptr r) 4 \<Longrightarrow> block_mapped (er_mapped r) (state_ptr r) 4 \<Longrightarrow> in_body e es r
   \<Longrightarrow> mallocs_ok (er_mapped r) (er_mallocs r) es
   \<Longrightarrow> fold (deliver ops) es (deliver ops e (er_consumer r)) = c \<Longrightarrow> reader_good ops c r"
  unfolding reader_good_def by auto

lemma reader_good_header:
  assumes "reader_good ops c r" and "in_header es r" and "er_pipe r \<noteq> []" and "0 < k"
    and "mallocs_ok (er_mapped r) (er_mallocs r) es" and "fold (deliver ops) es (er_consumer r) = c"
  shows "\<exists>r' n. reader_op_on_data_available ops k r = Some (r', int n) \<and> 0 < n \<and>
    er_pipe r' = drop n (er_pipe r) \<and> reader_good ops c r'"
proof -
  from assms(1) have st: "valid_block (state_ptr r) 4" "block_mapped (er_mapped r) (state_ptr r) 4"
    by (simp_all add: reader_good_def)
  from assms(2) have h: "er_on_done r = Reader_On_Msg_Header_Done" "er_buf r = state_ptr r"
      "er_cap r = of_nat 4" "unat (er_ofs r) < 4"
      "stream es (load (er_mem r) (state_ptr r) (unat (er_ofs r)) @ er_pipe r)"
    by (simp_all add: in_header_def)
  have blk: "valid_block (er_buf r) 4" "block_mapped (er_mapped r) (er_buf r) 4" "(4 :: nat) < 2 ^ 16"
    using st h(2) by simp_all
  obtain i where i: "0 < i" "i \<le> length (er_pipe r)" "unat (er_ofs r) + i \<le> 4"
    and op: "reader_op_on_data_available ops k r = map_option (\<lambda>r. (r, int i))
      (if unat (er_ofs r) + i = 4 then reader_done ops (take_bytes i r) else Some (take_bytes i r))"
    using reader_step [OF blk(1,2) h(3) blk(3) h(4) assms(3,4)] by blast
  let ?r = "take_bytes i r"
  have "load (er_mem ?r) (state_ptr r) (unat (er_ofs r) + i) @ er_pipe ?r
      = load (er_mem r) (state_ptr r) (unat (er_ofs r)) @ er_pipe r"
    using take_bytes_load [of r i] i h(2) by simp
  then have str: "stream es (load (er_mem ?r) (state_ptr ?r) (unat (er_ofs r) + i) @ er_pipe ?r)"
    using h(5) by simp
  show ?thesis
  proof (cases "unat (er_ofs r) + i = 4")
    case True
    let ?r' = "reader_on_msg_header_done ?r"
    have "reader_good ops c ?r' \<and> er_pipe ?r' = drop i (er_pipe r)"
      using header_done [of es ?r] str assms(5,6) st by (auto simp: True intro: reader_goodI_body)
    with True op i(1) h(1) show ?thesis by (simp add: reader_done_def)
  next
    case False
    then have "in_header es ?r"
      using i(3) h str by (simp add: in_header_def unat_offset del: of_nat_add)
    then have "reader_good ops c ?r" using st assms(5,6) by (intro reader_goodI_header) simp_all
    with False op i(1) show ?thesis by simp
  qed
qed

lemma reader_good_body:
  assumes "reader_good ops c r" and "in_body e es r" and "er_pipe r \<noteq> []" and "0 < k"
    and "mallocs_ok (er_mapped r) (er_mallocs r) es" and "fold (deliver ops) (e # es) (er_consumer r) = c"
  shows "\<exists>r' n. reader_op_on_data_available ops k r = Some (r', int n) \<and> 0 < n \<and>
    er_pipe r' = drop n (er_pipe r) \<and> reader_good ops c r'"
proof -
  from assms(1) have st: "valid_block (state_ptr r) 4" "block_mapped (er_mapped r) (state_ptr r) 4"
    by (simp_all add: reader_good_def)
  let ?n = "body_bytes e"
  from assms(2) have b: "er_on_done r = Reader_On_Msg_Body_Done" "event_ok e" "body_target e r"
      "er_cap r = of_nat ?n" "er_len r = of_nat ?n" "unat (er_ofs r) < ?n"
    by (simp_all add: in_body_def)
  from assms(2) obtain body bs where s: "body_of e body" "stream es bs"
      "load (er_mem r) (er_buf r) (unat (er_ofs r)) @ er_pipe r = body @ bs"
    by (auto simp: in_body_def)
  have blk: "valid_block (er_buf r) ?n" "block_mapped (er_mapped r) (er_buf r) ?n"
    using b(3) st by (cases e; simp)+
  have n: "?n < 2 ^ 16" using b(2) by (rule body_bytes_bounds)
  obtain i where i: "0 < i" "i \<le> length (er_pipe r)" "unat (er_ofs r) + i \<le> ?n"
    and op: "reader_op_on_data_available ops k r = map_option (\<lambda>r. (r, int i))
      (if unat (er_ofs r) + i = ?n then reader_done ops (take_bytes i r) else Some (take_bytes i r))"
    using reader_step [OF blk b(4) n b(6) assms(3,4)] by blast
  let ?r = "take_bytes i r"
  have ld: "load (er_mem ?r) (er_buf ?r) (unat (er_ofs r) + i) @ er_pipe ?r = body @ bs"
    using take_bytes_load [of r i] i n s(3) by simp
  show ?thesis
  proof (cases "unat (er_ofs r) + i = ?n")
    case True
    with ld body_done [of e ?r body bs es ops] b s
    obtain r' where "reader_on_msg_body_done ops ?r = Some r'" "in_header es r'" "er_mallocs r' = er_mallocs r"
        "er_mapped r' = er_mapped r" "er_pipe r' = drop i (er_pipe r)" "state_ptr r' = state_ptr r"
        "er_consumer r' = deliver ops e (er_consumer r)"
      by auto
    then show ?thesis
      using True op i(1) b(1) st assms(5,6)
      by (auto simp: reader_done_def intro!: reader_goodI_header)
  next
    case False
    then have "in_body e es ?r"
      using i(3) n b s ld by (auto simp: in_body_def unat_offset simp del: of_nat_add)
    then have "reader_good ops c ?r" using st assms(5,6) by (intro reader_goodI_body) simp_all
    with False op i(1) show ?thesis by simp
  qed
qed

interpretation rdr: stream_handler "reader_op_on_data_available ops" er_pipe "reader_good ops"
  for ops :: "'c exec_event_consumer_ops"
proof (unfold_locales, goal_cases)
  case (1 x s k)
  then obtain es where "mallocs_ok (er_mapped s) (er_mallocs s) es"
    "in_header es s \<and> fold (deliver ops) es (er_consumer s) = x \<or>
     (\<exists>e. in_body e es s \<and> fold (deliver ops) (e # es) (er_consumer s) = x)"
    unfolding reader_good_def by blast
  then show ?case using 1 reader_good_header reader_good_body by metis
qed

lemma reader_drained:
  assumes "reader_good ops c r" and "er_pipe r = []"
  shows "er_consumer r = c"
proof -
  from assms(1) obtain es where
    "in_header es r \<and> fold (deliver ops) es (er_consumer r) = c \<or>
     (\<exists>e. in_body e es r \<and> fold (deliver ops) (e # es) (er_consumer r) = c)"
    unfolding reader_good_def by blast
  moreover have "\<not> in_body e es r" for e
    using assms(2) body_of_length
    by (auto simp: in_body_def) (metis length_append length_load linorder_not_less le_add1)
  moreover have "es = []" if "in_header es r"
    using that assms(2) stream_short [of es "load (er_mem r) (state_ptr r) (unat (er_ofs r))"]
    by (simp add: in_header_def)
  ultimately show ?thesis by auto
qed

lemma reader_init_good:
  assumes "stream es bs" and "mallocs_ok mapped mallocs es" and "valid_block self 80"
    and "block_mapped mapped self 80"
  shows "reader_good ops (fold (deliver ops) es c) (exec_event_reader_init self m mapped mallocs bs c)"
proof -
  let ?r = "exec_event_reader_init self m mapped mallocs bs c"
  have p: "state_ptr ?r = self + of_nat 56"
    by (simp add: exec_event_reader_init_def state_ptr_def off_er_state_def reader_prep_next_msg_def)
  have "valid_block (state_ptr ?r) 4"
    unfolding p using valid_block_offset [OF assms(3), of "of_nat 56" 4] by simp
  moreover have "block_mapped mapped (state_ptr ?r) 4"
    unfolding p using assms(4) by (rule block_mapped_sub) simp
  moreover have "in_header es ?r"
    unfolding exec_event_reader_init_def using assms(1) by (intro prep_next_in_header) simp
  ultimately show ?thesis
    using assms(2) by (intro reader_goodI_header) (simp_all add: exec_event_reader_init_def)
qed

text \<open>The writer called for each event in turn, its array always at \<open>sp\<close>.\<close>

fun write_event :: "addr \<Rightarrow> exec_event \<Rightarrow> exec_event_writer \<Rightarrow> exec_event_writer" where
  "write_event sp (Stage_Change stage) w = exec_event_writer_op_on_stage_change w stage"
| "write_event sp (Failure_Event f) w = exec_event_writer_op_on_failure w sp f"

fun stack_ok :: "addr \<Rightarrow> exec_event \<Rightarrow> bool" where
  "stack_ok sp (Stage_Change stage) = True"
| "stack_ok sp (Failure_Event f) = valid_block sp (failure_bytes f)"

lemma write_event_message:
  assumes "wr_limits w = []" and "event_ok e" and "stack_ok sp e"
  shows "\<exists>body. body_of e body \<and> wr_out (write_event sp e w) = wr_out w @ message e body \<and>
    wr_limits (write_event sp e w) = []"
proof (cases e)
  case (Stage_Change stage)
  then show ?thesis using assms(1) by (simp add: write_stage_change)
next
  case (Failure_Event f)
  then show ?thesis using assms write_failure [of w f sp] by fastforce
qed

lemma write_events_stream:
  assumes "wr_limits w = []" and "list_all event_ok es" and "list_all (stack_ok sp) es"
  shows "\<exists>bs. stream es bs \<and> wr_out (fold (write_event sp) es w) = wr_out w @ bs"
  using assms
proof (induction es arbitrary: w)
  case Nil
  then show ?case by (auto intro: stream_Nil)
next
  case (Cons e es)
  from Cons.prems obtain body where body: "body_of e body" "wr_out (write_event sp e w) = wr_out w @ message e body"
      "wr_limits (write_event sp e w) = []"
    using write_event_message [of w e sp] by auto
  from Cons.IH [OF body(3)] Cons.prems obtain bs where "stream es bs"
      "wr_out (fold (write_event sp) es (write_event sp e w)) = wr_out (write_event sp e w) @ bs"
    by auto
  with body Cons.prems show ?case
    by (intro exI [of _ "message e body @ bs"]) (simp add: stream_Cons)
qed

section \<open>Properties\<close>

text \<open>
  C9: The event channel from a child to its parent. Whatever events the child reports and however
  the bytes are cut up by the pipe, the reader's consumer is notified of exactly these events, in
  order, and nothing is left over. The events are stage changes and failures of less than 64 KiB;
  the reader's \<^verbatim>\<open>malloc\<close> succeeds.
\<close>

theorem event_channel:
  assumes "list_all event_ok es" and "list_all (stack_ok sp) es"
    and "mallocs_ok mapped mallocs es" and "valid_block self 80" and "block_mapped mapped self 80"
    and "bs = wr_out (fold (write_event sp) es (exec_event_writer_init m []))"
    and "\<forall>k \<in> set ks. 0 < k" and "length bs \<le> length ks"
  shows "\<exists>r. poll_run (reader_op_on_data_available ops) er_pipe ks
      (exec_event_reader_init self m' mapped mallocs bs c) = Some r \<and>
    er_pipe r = [] \<and> er_consumer r = fold (deliver ops) es c"
proof -
  have "stream es bs"
    using write_events_stream [OF _ assms(1,2), of "exec_event_writer_init m []"] assms(6)
    by (auto simp: exec_event_writer_init_def)
  from reader_init_good [OF this assms(3-5), of ops c m']
  have "reader_good ops (fold (deliver ops) es c) (exec_event_reader_init self m' mapped mallocs bs c)" .
  from rdr.run_drains [OF this assms(7)] assms(8) reader_drained show ?thesis
    by (fastforce simp: exec_event_reader_init_def)
qed

theorem event_channel_witness:
  "\<exists>r. poll_run (reader_op_on_data_available
        \<lparr>op_on_stage_change = (\<lambda>c s. c @ [Stage_Change s]), op_on_failure = (\<lambda>c f. c @ [Failure_Event (the f)])\<rparr>)
      er_pipe (replicate 47 3)
      (exec_event_reader_init 4096 (\<lambda>_. NUL) (\<lambda>_. True) [8192]
        (wr_out (fold (write_event 65536) [Stage_Change 1, Failure_Event
          \<lparr>fl_stage = 1, fl_description = Some ''no'', fl_location = None, fl_stacktrace = None\<rparr>]
          (exec_event_writer_init (\<lambda>_. NUL) []))) []) = Some r \<and>
    er_consumer r = [Stage_Change 1, Failure_Event
      \<lparr>fl_stage = 1, fl_description = Some ''no'', fl_location = None, fl_stacktrace = None\<rparr>]"
proof -
  let ?f = "\<lparr>fl_stage = 1, fl_description = Some ''no'', fl_location = None, fl_stacktrace = None\<rparr>"
  let ?es = "[Stage_Change 1, Failure_Event ?f]"
  have b: "failure_bytes ?f = 35" by (simp add: failure_bytes_def loc_end_def desc_bytes_def)
  have ok: "list_all event_ok ?es" "list_all (stack_ok 65536) ?es"
    using b by (simp_all add: failure_wf_def cstring_def valid_block_def)
  have m: "mallocs_ok (\<lambda>_. True) [8192] ?es" using b by (simp add: valid_block_def block_mapped_def list_all_iff)
  obtain bs where bs: "stream ?es bs"
      "wr_out (fold (write_event 65536) ?es (exec_event_writer_init (\<lambda>_. NUL) [])) = bs"
    using write_events_stream [OF _ ok, of "exec_event_writer_init (\<lambda>_. NUL) []"]
    by (auto simp: exec_event_writer_init_def)
  from bs(1) have len: "length bs = 47"
    using b by (auto simp: message_def dest!: body_of_length elim!: stream_ConsE stream_NilE)
  have s: "valid_block 4096 80" "block_mapped (\<lambda>_. True) 4096 80"
    by (simp_all add: valid_block_def block_mapped_def list_all_iff)
  from event_channel [OF ok m s bs(2) [symmetric], of "replicate 47 3" _ "\<lambda>_. NUL" "[]"] len
  show ?thesis unfolding bs(2) by fastforce
qed

text \<open>
  C37: The length field of a failure message is the low 16 bits of the body that follows it: a
  failure of 64 KiB or more is announced shorter than it is, and the reader takes the rest of its
  body for further messages.
\<close>

theorem failure_length_truncated:
  assumes "wr_limits w = []" and "failure_bytes f < 2 ^ 31" and "valid_block sp (failure_bytes f)"
  shows "\<exists>body. wr_out (exec_event_writer_op_on_failure w sp f) = wr_out w @
      header_image \<lparr>hdr_type = EXEC_EVENT_FAILURE, hdr_length = of_nat (failure_bytes f)\<rparr> @ body \<and>
    length body = failure_bytes f \<and>
    (unat (of_nat (failure_bytes f) :: 16 word) = length body \<longleftrightarrow> failure_bytes f < 2 ^ 16)"
proof -
  obtain m body where b: "body_of (Failure_Event f) body"
    "exec_event_writer_op_on_failure w sp f = w\<lparr>wr_mem := m, wr_out := wr_out w @ message (Failure_Event f) body\<rparr>"
    using write_failure [OF assms] by blast
  have "unat (of_nat (failure_bytes f) :: 16 word) = failure_bytes f mod 2 ^ 16"
    by (simp add: unat_of_nat)
  moreover have "failure_bytes f mod 2 ^ 16 = failure_bytes f \<longleftrightarrow> failure_bytes f < 2 ^ 16"
    by (metis mod_less mod_less_divisor zero_less_numeral zero_less_power)
  ultimately show ?thesis using b by (auto simp: message_def)
qed

theorem failure_length_truncated_witness:
  "\<exists>body. wr_out (exec_event_writer_op_on_failure (exec_event_writer_init (\<lambda>_. NUL) []) 65536
      \<lparr>fl_stage = 0, fl_description = Some (replicate 65503 CHR ''x''), fl_location = None, fl_stacktrace = None\<rparr>)
    = header_image \<lparr>hdr_type = EXEC_EVENT_FAILURE, hdr_length = 0\<rparr> @ body \<and> length body = 65536"
proof -
  let ?f = "\<lparr>fl_stage = 0, fl_description = Some (replicate 65503 CHR ''x''), fl_location = None, fl_stacktrace = None\<rparr>"
  have b: "failure_bytes ?f = 65536" by (simp add: failure_bytes_def loc_end_def desc_bytes_def)
  have z: "(65536 :: 16 word) = 0" by (simp add: word_eq_iff_unsigned)
  have "wr_limits (exec_event_writer_init (\<lambda>_. NUL) []) = []" by (simp add: exec_event_writer_init_def)
  moreover have "failure_bytes ?f < 2 ^ 31" "valid_block 65536 (failure_bytes ?f)"
    unfolding b by (simp_all add: valid_block_def)
  ultimately show ?thesis
    using failure_length_truncated [of "exec_event_writer_init (\<lambda>_. NUL) []" ?f 65536] b z
    by (auto simp: exec_event_writer_init_def)
qed

text \<open>
  Bytes to be ignored are dropped only while none of the message has been read: as soon as
  \<^verbatim>\<open>ofs\<close> is positive the NULL test looks at NULL plus \<^verbatim>\<open>ofs\<close>, and \<^verbatim>\<open>read\<close> is handed that
  unmapped low address. Each further notification fails and consumes nothing.
\<close>

lemma ignored_rest_faults:
  assumes "er_buf r = NULL" and "0 < unat (er_ofs r)" and "unat (er_ofs r) < unat (er_cap r)"
    and "\<not> er_mapped r (er_ofs r)" and "er_pipe r \<noteq> []" and "0 < k"
  shows "reader_op_on_data_available ops k r = Some (r, -1)"
proof -
  have nz: "er_ofs r \<noteq> 0" using assms(2) by auto
  have len: "0 < unat (er_cap r - er_ofs r)"
    using assms(3) by (simp add: unat_sub word_le_nat_alt)
  have "\<not> block_mapped (er_mapped r) (er_ofs r) (Suc n)" for n
    using assms(4) by (simp add: block_mapped_def upt_conv_Cons del: upt_Suc)
  moreover have "0 < length (take (min k (unat (er_cap r - er_ofs r))) (er_pipe r))"
    using assms(5,6) len by simp
  ultimately have "sys_read (er_mapped r) k (er_pipe r) (er_ofs r) (er_cap r - er_ofs r) = None"
    unfolding sys_read_def Let_def by (metis gr0_implies_Suc)
  then show ?thesis using nz assms(1) by (simp add: reader_op_on_data_available_def Let_def)
qed

text \<open>
  When \<^verbatim>\<open>malloc\<close> fails for a failure message whose body fits the local array, the body is
  read into that array and the reader then dereferences the NULL buffer: the parent crashes.
\<close>

lemma failure_malloc_fails:
  assumes "er_on_done r = Reader_On_Msg_Body_Done" and "er_body_done r = Reader_On_Failure_Done"
    and "er_buf r = NULL" and "er_ofs r = 0" and "0 < unat (er_cap r)" and "unat (er_cap r) \<le> 1024"
    and "unat (er_cap r) \<le> length (er_pipe r)" and "unat (er_cap r) \<le> k"
  shows "reader_op_on_data_available ops k r = None"
proof -
  have "sys_read (\<lambda>_. True) k (er_pipe r) 0 (er_cap r) = Some (take (unat (er_cap r)) (er_pipe r))"
    using assms(7,8) by (simp add: sys_read_def block_mapped_def list_all_iff min_absorb2)
  moreover have "\<not> 1024 < er_cap r" using assms(6) by (simp add: word_less_nat_alt)
  ultimately show ?thesis using assms
    by (simp add: reader_op_on_data_available_def Let_def min_absorb2 reader_done_def
        reader_on_msg_body_done_def reader_body_done_def reader_on_failure_done_def)
qed

text \<open>
  \<^verbatim>\<open>exec_event_reader_destroy\<close> frees no buffer, not even that of a failure it has read in part:
  no address is both below and not below the reader object.
\<close>

lemma reader_destroy_leaks:
  assumes "valid_block (er_self r) 81"
  shows "er_freed (exec_event_reader_destroy r) = er_freed r"
proof -
  have "unat (er_self r + 80) = unat (er_self r) + 80"
    using assms by (simp add: valid_block_def unat_word_ariths)
  then have "\<not> (b < er_self r \<and> er_self r + 80 \<le> b)" for b
    by (simp add: word_less_nat_alt word_le_nat_alt)
  then show ?thesis by (simp add: exec_event_reader_destroy_def sizeof_exec_event_reader_def Let_def)
qed

end
