(* ===== verification/Repartition.thy ===== *)
theory Repartition
  imports Prelude "HOL-Library.Multiset"
begin

text \<open>
  The two repartitioning routines of \<^verbatim>\<open>src/exec/runner_utils.c\<close>, which bring tests of the same
  suite and test cases of the same test together before they are run. The index loops and
  \<^verbatim>\<open>memmove\<close> calls are kept; they are shown equal to a reference that groups by first occurrence.
\<close>

section \<open>Definitions\<close>

definition memmove :: "'a list \<Rightarrow> nat \<Rightarrow> nat \<Rightarrow> nat \<Rightarrow> 'a list" where
  "memmove xs dst src n = take dst xs @ take n (drop src xs) @ drop (dst + n) xs"

text \<open>
  The loops over \<^verbatim>\<open>i_read_test\<close>; \<open>w\<close> and \<open>r\<close> are \<^verbatim>\<open>i_write_test\<close> and \<^verbatim>\<open>i_read_test\<close>.
\<close>

function repartition_tests_inner ::
  "('t \<Rightarrow> 's) \<Rightarrow> 's \<Rightarrow> nat \<Rightarrow> 't list \<Rightarrow> nat \<Rightarrow> nat \<Rightarrow> 't list \<times> nat" where
  "repartition_tests_inner get_testsuite testsuite test_count xs w r =
     (if r < test_count
      then let read_test = xs ! r in
           if get_testsuite read_test \<noteq> testsuite
           then repartition_tests_inner get_testsuite testsuite test_count xs w (r + 1)
           else let w = w + 1 in
                if w = r then repartition_tests_inner get_testsuite testsuite test_count xs w (r + 1)
                else let xs = memmove xs (w + 1) w (r - w);
                         xs = xs[w := read_test]
                     in repartition_tests_inner get_testsuite testsuite test_count xs w (r + 1)
      else (xs, w))"
  by pat_completeness auto
termination
  by (relation "measure (\<lambda>(_, _, test_count, _, _, r). test_count - r)") auto

declare repartition_tests_inner.simps [simp del]

lemma repartition_tests_inner_ge:
  "w \<le> snd (repartition_tests_inner get_testsuite testsuite test_count xs w r)"
  by (induction get_testsuite testsuite test_count xs w r rule: repartition_tests_inner.induct)
    (subst repartition_tests_inner.simps, fastforce simp: Let_def)

function repartition_tests_outer :: "('t \<Rightarrow> 's) \<Rightarrow> nat \<Rightarrow> 't list \<Rightarrow> nat \<Rightarrow> 't list" where
  "repartition_tests_outer get_testsuite test_count xs w =
     (if w < test_count
      then let testsuite = get_testsuite (xs ! w);
               (xs, w) = repartition_tests_inner get_testsuite testsuite test_count xs w (w + 1)
           in repartition_tests_outer get_testsuite test_count xs (w + 1)
      else xs)"
  by pat_completeness auto
termination
proof (relation "measure (\<lambda>(_, test_count, _, w). test_count - w)", goal_cases)
  case (2 get_testsuite test_count xs w testsuite p xs' w')
  then have "w' = snd (repartition_tests_inner get_testsuite testsuite test_count xs w (w + 1))"
    by (metis snd_conv)
  then show ?case
    using 2(1) repartition_tests_inner_ge [of w get_testsuite testsuite test_count xs "w + 1"] by simp
qed simp

declare repartition_tests_outer.simps [simp del]

text \<open>\<open>ok\<close>: the allocation of the copy succeeds.\<close>

definition repartition_tests :: "bool \<Rightarrow> ('t \<Rightarrow> 's) \<Rightarrow> 't list \<Rightarrow> nat \<Rightarrow> 't list option" where
  "repartition_tests ok get_testsuite tests test_count =
     (if \<not> ok then None
      else Some (repartition_tests_outer get_testsuite test_count (take test_count tests) 0))"

text \<open>
  The same for test cases. The innermost loop also finds the next test of the suite that has
  cases left; the loop around it continues with that test until the suite is done.
\<close>

function repartition_testcases_inner ::
  "('c \<Rightarrow> 't) \<Rightarrow> ('t \<Rightarrow> 's) \<Rightarrow> 't \<Rightarrow> nat \<Rightarrow> 'c list \<Rightarrow> nat \<Rightarrow> nat \<Rightarrow> 't option
   \<Rightarrow> 'c list \<times> nat \<times> 't option" where
  "repartition_testcases_inner get_test get_testsuite test testcase_count xs w r next_test =
     (if r < testcase_count
      then let read_testcase = xs ! r;
               read_test = get_test read_testcase
           in if read_test \<noteq> test
              then repartition_testcases_inner get_test get_testsuite test testcase_count xs w (r + 1)
                     (if next_test = None \<and> get_testsuite read_test = get_testsuite test
                      then Some read_test else next_test)
              else let xs = (if w \<noteq> r then (memmove xs (w + 1) w (r - w))[w := read_testcase] else xs)
                   in repartition_testcases_inner get_test get_testsuite test testcase_count xs (w + 1)
                        (r + 1) next_test
      else (xs, w, next_test))"
  by pat_completeness auto
termination
  by (relation "measure (\<lambda>(_, _, _, testcase_count, _, _, r, _). testcase_count - r)") auto

declare repartition_testcases_inner.simps [simp del]

section \<open>The inner loops\<close>

lemma nth_append_mid: "(xs @ ys @ z # zs) ! (length xs + length ys) = z"
  by (metis append.assoc length_append nth_append_length)

text \<open>Moving the element behind \<open>ys\<close> to the front of \<open>ys\<close>.\<close>

lemma memmove_front:
  "(memmove (xs @ ys @ z # zs) (length xs + 1) (length xs) (length ys))[length xs := z]
    = xs @ z # ys @ zs"
proof -
  have "memmove (xs @ ys @ z # zs) (length xs + 1) (length xs) (length ys)
    = take (Suc (length xs)) (xs @ ys @ z # zs) @ ys @ zs"
    by (simp add: memmove_def)
  also have "take (Suc (length xs)) (xs @ ys @ z # zs) = xs @ [hd (ys @ [z])]"
    by (cases ys) simp_all
  finally show ?thesis by simp
qed

lemma repartition_tests_inner_eq:
  assumes "grp \<noteq> []"
  shows "repartition_tests_inner f s (length (pre @ grp @ oth @ rest)) (pre @ grp @ oth @ rest)
      (length pre + length grp - 1) (length pre + length grp + length oth)
    = (pre @ grp @ filter (\<lambda>x. f x = s) rest @ oth @ filter (\<lambda>x. f x \<noteq> s) rest,
       length pre + length grp + length (filter (\<lambda>x. f x = s) rest) - 1)"
  using assms
proof (induction rest arbitrary: grp oth)
  case Nil
  then show ?case by (subst repartition_tests_inner.simps) simp
next
  case (Cons z rest)
  let ?xs = "pre @ grp @ oth @ z # rest" and ?r = "length pre + length grp + length oth"
  have z: "?xs ! ?r = z" using nth_append_mid [of "pre @ grp" oth z rest] by (simp add: add.assoc)
  show ?case
  proof (cases "f z = s")
    case False
    then show ?thesis
      using Cons.IH [of grp "oth @ [z]"] Cons.prems z
      by (subst repartition_tests_inner.simps) (simp add: Let_def)
  next
    case True
    have w: "length pre + length grp - 1 + 1 = length pre + length grp" using Cons.prems by (cases grp) simp_all
    have mv: "(memmove ?xs (length pre + length grp + 1) (length pre + length grp) (length oth))
        [length pre + length grp := z] = pre @ (grp @ [z]) @ oth @ rest"
      using memmove_front [of "pre @ grp" oth z rest] by simp
    show ?thesis
      using Cons.IH [of "grp @ [z]" oth] Cons.prems z True w mv
      by (subst repartition_tests_inner.simps) (cases "oth = []"; simp add: Let_def)
  qed
qed

lemma repartition_testcases_inner_eq:
  "repartition_testcases_inner g f t (length (pre @ oth @ rest)) (pre @ oth @ rest)
      (length pre) (length pre + length oth) nxt
    = (pre @ filter (\<lambda>c. g c = t) rest @ oth @ filter (\<lambda>c. g c \<noteq> t) rest,
       length pre + length (filter (\<lambda>c. g c = t) rest),
       if nxt = None then map_option g (find (\<lambda>c. g c \<noteq> t \<and> f (g c) = f t) rest) else nxt)"
proof (induction rest arbitrary: pre oth nxt)
  case Nil
  then show ?case by (subst repartition_testcases_inner.simps) simp
next
  case (Cons z rest)
  let ?xs = "pre @ oth @ z # rest" and ?r = "length pre + length oth"
  have z: "?xs ! ?r = z" by (rule nth_append_mid)
  show ?case
  proof (cases "g z = t")
    case False
    then show ?thesis
      using Cons.IH [of pre "oth @ [z]"] z
      by (subst repartition_testcases_inner.simps) (auto simp: Let_def)
  next
    case True
    then show ?thesis
      using Cons.IH [of "pre @ [z]" oth nxt] z memmove_front [of pre oth z rest]
      by (subst repartition_testcases_inner.simps) (cases "oth = []"; simp add: Let_def)
  qed
qed

lemma testcases_inner_at:
  assumes "w \<le> length xs"
  shows "repartition_testcases_inner g f t (length xs) xs w w None =
    (take w xs @ filter (\<lambda>c. g c = t) (drop w xs) @ filter (\<lambda>c. g c \<noteq> t) (drop w xs),
     w + length (filter (\<lambda>c. g c = t) (drop w xs)),
     map_option g (find (\<lambda>c. g c \<noteq> t \<and> f (g c) = f t) (drop w xs)))"
  using repartition_testcases_inner_eq [of g f t "take w xs" "[]" "drop w xs" None] assms
  by (simp add: min_absorb2)

section \<open>The loops over a suite and over the suites\<close>

lemma map_option_find_in:
  "map_option g (find P xs) = Some t \<Longrightarrow> (\<And>x. P x \<Longrightarrow> Q x) \<Longrightarrow> t \<in> g ` set (filter Q xs)"
  by (auto simp: find_Some_iff)

function repartition_testcases_suite ::
  "('c \<Rightarrow> 't) \<Rightarrow> ('t \<Rightarrow> 's) \<Rightarrow> 'c list \<Rightarrow> nat \<Rightarrow> 't option \<Rightarrow> 'c list \<times> nat" where
  "repartition_testcases_suite get_test get_testsuite xs w next_test =
     (case next_test of
        None \<Rightarrow> (xs, w)
      | Some test \<Rightarrow>
          (let (xs, w, next_test) =
                 repartition_testcases_inner get_test get_testsuite test (length xs) xs w w None
           in repartition_testcases_suite get_test get_testsuite xs w next_test))"
  by pat_completeness auto
termination
proof (relation "measure (\<lambda>(g, f, xs, w, nxt). 2 * (length xs - w) +
    (case nxt of None \<Rightarrow> 0 | Some t \<Rightarrow> if t \<in> g ` set (drop w xs) then 1 else 2))", goal_cases)
  case (2 g f xs w nxt t p xs' q w' nxt')
  show ?case
  proof (cases "w \<le> length xs")
    case True
    let ?eq = "filter (\<lambda>c. g c = t) (drop w xs)" and ?ne = "filter (\<lambda>c. g c \<noteq> t) (drop w xs)"
    have r: "xs' = take w xs @ ?eq @ ?ne" "w' = w + length ?eq"
        "nxt' = map_option g (find (\<lambda>c. g c \<noteq> t \<and> f (g c) = f t) (drop w xs))"
      using 2 testcases_inner_at [OF True, of g f t] by auto
    have len: "length ?eq + length ?ne = length xs - w" using sum_length_filter_compl [of "\<lambda>c. g c = t" "drop w xs"] by simp
    have nx: "u \<in> g ` set (drop w' xs')" if "nxt' = Some u" for u
      using that True map_option_find_in [of g _ "drop w xs" u "\<lambda>c. g c \<noteq> t"] by (auto simp: r)
    have "length xs' - w' = length ?ne" using True len by (simp add: r)
    moreover have "length ?ne < length xs - w" if t: "t \<in> g ` set (drop w xs)"
    proof -
      have "length ?eq \<noteq> 0" using t by (auto simp: filter_empty_conv)
      with len show ?thesis by linarith
    qed
    ultimately have "2 * (length xs' - w') + (case nxt' of None \<Rightarrow> 0 | Some u \<Rightarrow> 1)
        < 2 * (length xs - w) + (if t \<in> g ` set (drop w xs) then 1 else 2)"
      using len by (auto split: option.split)
    then show ?thesis using 2(1) nx by (auto split: option.splits)
  next
    case False
    then have "repartition_testcases_inner g f t (length xs) xs w w None = (xs, w, None)"
      by (subst repartition_testcases_inner.simps) simp
    with 2 show ?thesis by auto
  qed
qed simp

declare repartition_testcases_suite.simps [simp del]

text \<open>The cases of the tests of one suite, test by test, each test where its first case is.\<close>

fun group_by_first :: "('a \<Rightarrow> 'k) \<Rightarrow> 'a list \<Rightarrow> 'a list" where
  "group_by_first k [] = []"
| "group_by_first k (x # xs) =
     x # filter (\<lambda>y. k y = k x) xs @ group_by_first k (filter (\<lambda>y. k y \<noteq> k x) xs)"

lemma filter_idem: "(\<And>x. x \<in> set xs \<Longrightarrow> P x) \<Longrightarrow> filter P xs = xs"
  by (induction xs) auto

lemma find_Some_filter: "find P xs = Some x \<Longrightarrow> \<exists>ys. filter P xs = x # ys \<and> P x"
  by (induction xs) (auto split: if_splits)

text \<open>
  Started with a test of suite \<open>s\<close>, the loop places the remaining cases of that test and then the
  groups of the other tests of the suite, and leaves the cases of other suites behind.
\<close>

lemma repartition_testcases_suite_eq:
  assumes "s = f t" and "n = length (filter (\<lambda>c. f (g c) = s \<and> g c \<noteq> t) rest)"
  shows "repartition_testcases_suite g f (pre @ rest) (length pre) (Some t)
    = (pre @ filter (\<lambda>c. g c = t) rest @
         group_by_first g (filter (\<lambda>c. f (g c) = s \<and> g c \<noteq> t) rest) @ filter (\<lambda>c. f (g c) \<noteq> s) rest,
       length pre + length (filter (\<lambda>c. f (g c) = s) rest))"
  using assms
proof (induction n arbitrary: pre rest t rule: less_induct)
  case (less n)
  let ?eq = "filter (\<lambda>c. g c = t) rest" and ?ne = "filter (\<lambda>c. g c \<noteq> t) rest"
  let ?nxt = "map_option g (find (\<lambda>c. g c \<noteq> t \<and> f (g c) = f t) rest)"
  have step: "repartition_testcases_suite g f (pre @ rest) (length pre) (Some t)
      = repartition_testcases_suite g f ((pre @ ?eq) @ ?ne) (length (pre @ ?eq)) ?nxt"
    using testcases_inner_at [of "length pre" "pre @ rest" g f t]
    by (subst repartition_testcases_suite.simps) simp
  show ?case
  proof (cases "find (\<lambda>c. g c \<noteq> t \<and> f (g c) = f t) rest")
    case None
    then have none: "\<And>c. c \<in> set rest \<Longrightarrow> f (g c) = s \<Longrightarrow> g c = t"
      using less.prems(1) by (auto simp: find_None_iff)
    have "filter (\<lambda>c. f (g c) = s \<and> g c \<noteq> t) rest = []" "?ne = filter (\<lambda>c. f (g c) \<noteq> s) rest"
        "?eq = filter (\<lambda>c. f (g c) = s) rest"
      using none less.prems(1) by (auto simp: filter_empty_conv intro!: filter_cong)
    then show ?thesis
      unfolding step None by (subst repartition_testcases_suite.simps) simp
  next
    case (Some c)
    let ?D = "filter (\<lambda>c. f (g c) = s \<and> g c \<noteq> t) rest"
    have c: "f (g c) = s" "g c \<noteq> t" "?D \<noteq> []" "hd ?D = c"
      using find_Some_filter [OF Some] less.prems(1) by (auto simp: conj_commute)
    have D: "filter (\<lambda>x. g x = g c) ?D = filter (\<lambda>x. g x = g c) ?ne"
        "filter (\<lambda>x. g x \<noteq> g c) ?D = filter (\<lambda>x. f (g x) = s \<and> g x \<noteq> g c) ?ne"
      using c(1,2) by (auto intro!: filter_cong)
    have grp: "group_by_first g ?D = filter (\<lambda>x. g x = g c) ?ne @
        group_by_first g (filter (\<lambda>x. f (g x) = s \<and> g x \<noteq> g c) ?ne)"
      using c(3,4) unfolding D [symmetric] by (cases ?D) simp_all
    have "c \<in> set ?D" using c(3,4) hd_in_set by metis
    then have "length (filter (\<lambda>x. g x \<noteq> g c) ?D) < length ?D" by (intro length_filter_less) auto
    then have lt: "length (filter (\<lambda>x. f (g x) = s \<and> g x \<noteq> g c) ?ne) < n"
      using less.prems(2) by (simp only: D(2))
    have "repartition_testcases_suite g f ((pre @ ?eq) @ ?ne) (length (pre @ ?eq)) (Some (g c))
      = ((pre @ ?eq) @ filter (\<lambda>x. g x = g c) ?ne @
           group_by_first g (filter (\<lambda>x. f (g x) = s \<and> g x \<noteq> g c) ?ne) @ filter (\<lambda>x. f (g x) \<noteq> s) ?ne,
         length (pre @ ?eq) + length (filter (\<lambda>x. f (g x) = s) ?ne))"
      using less.IH [OF lt _ refl, of "pre @ ?eq"] c(1) by simp
    moreover have "filter (\<lambda>x. f (g x) \<noteq> s) ?ne = filter (\<lambda>x. f (g x) \<noteq> s) rest"
      using less.prems(1) by (auto intro!: filter_cong)
    moreover have "length ?eq + length (filter (\<lambda>x. f (g x) = s) ?ne) = length (filter (\<lambda>x. f (g x) = s) rest)"
      using sum_length_filter_compl [of "\<lambda>x. g x = t" "filter (\<lambda>x. f (g x) = s) rest"] less.prems(1)
      by (simp add: conj_commute cong: conj_cong filter_cong)
    ultimately show ?thesis unfolding step Some by (simp add: grp)
  qed
qed

lemma repartition_testcases_suite_ge:
  "length (fst (repartition_testcases_suite g f xs w nxt)) = length xs \<and>
   w \<le> snd (repartition_testcases_suite g f xs w nxt)"
proof (induction g f xs w nxt rule: repartition_testcases_suite.induct)
  case (1 g f xs w nxt)
  show ?case
  proof (cases nxt)
    case None
    then show ?thesis by (subst (1 2) repartition_testcases_suite.simps) simp
  next
    case (Some t)
    obtain xs' w' n' where i: "repartition_testcases_inner g f t (length xs) xs w w None = (xs', w', n')"
      by (metis prod_cases3)
    have "length xs' = length xs \<and> w \<le> w'"
    proof (cases "w \<le> length xs")
      case True
      with testcases_inner_at [OF True, of g f t] i show ?thesis
        using sum_length_filter_compl [of "\<lambda>c. g c = t" "drop w xs"] by auto
    next
      case False
      then have "repartition_testcases_inner g f t (length xs) xs w w None = (xs, w, None)"
        by (subst repartition_testcases_inner.simps) simp
      with i show ?thesis by simp
    qed
    with 1 [OF Some i [symmetric] refl refl] Some i show ?thesis
      by (subst (1 2) repartition_testcases_suite.simps) simp
  qed
qed

function repartition_testcases_outer :: "('c \<Rightarrow> 't) \<Rightarrow> ('t \<Rightarrow> 's) \<Rightarrow> 'c list \<Rightarrow> nat \<Rightarrow> 'c list" where
  "repartition_testcases_outer get_test get_testsuite xs w =
     (if w < length xs
      then let next_test = Some (get_test (xs ! w));
               (xs, w) = repartition_testcases_suite get_test get_testsuite xs (w + 1) next_test
           in repartition_testcases_outer get_test get_testsuite xs w
      else xs)"
  by pat_completeness auto
termination
proof (relation "measure (\<lambda>(_, _, xs, w). length xs - w)", goal_cases)
  case (2 g f xs w nxt p xs' w')
  then have "xs' = fst (repartition_testcases_suite g f xs (w + 1) nxt)"
      "w' = snd (repartition_testcases_suite g f xs (w + 1) nxt)"
    by (metis fst_conv, metis snd_conv)
  then show ?case
    using 2(1) repartition_testcases_suite_ge [of g f xs "w + 1" nxt] by (auto simp: case_prod_beta)
qed simp

declare repartition_testcases_outer.simps [simp del]

definition repartition_testcases ::
  "bool \<Rightarrow> ('c \<Rightarrow> 't) \<Rightarrow> ('t \<Rightarrow> 's) \<Rightarrow> 'c list \<Rightarrow> nat \<Rightarrow> 'c list option" where
  "repartition_testcases ok get_test get_testsuite testcases testcase_count =
     (if \<not> ok then None
      else Some (repartition_testcases_outer get_test get_testsuite (take testcase_count testcases) 0))"

section \<open>Reference\<close>

text \<open>Suite by suite in order of first occurrence, and within a suite test by test.\<close>

function group_testcases :: "('c \<Rightarrow> 't) \<Rightarrow> ('t \<Rightarrow> 's) \<Rightarrow> 'c list \<Rightarrow> 'c list" where
  "group_testcases g f [] = []"
| "group_testcases g f (c # cs) =
     group_by_first g (c # filter (\<lambda>d. f (g d) = f (g c)) cs) @
     group_testcases g f (filter (\<lambda>d. f (g d) \<noteq> f (g c)) cs)"
  by pat_completeness auto
termination
  by (relation "measure (\<lambda>(_, _, cs). length cs)") (auto simp: le_imp_less_Suc)

lemma mset_group_by_first: "mset (group_by_first k xs) = mset xs"
proof (induction k xs rule: group_by_first.induct)
  case (2 k x xs)
  then show ?case using multiset_partition [of "mset xs" "\<lambda>y. k y = k x"] by simp
qed simp

lemma set_group_by_first [simp]: "set (group_by_first k xs) = set xs"
  using mset_group_by_first by (metis set_mset_mset)

lemma mset_group_testcases: "mset (group_testcases g f cs) = mset cs"
proof (induction g f cs rule: group_testcases.induct)
  case (2 g f c cs)
  then show ?case
    using multiset_partition [of "mset cs" "\<lambda>d. f (g d) = f (g c)"]
    by (simp add: mset_group_by_first del: group_by_first.simps)
qed simp

lemma set_group_testcases [simp]: "set (group_testcases g f cs) = set cs"
  using mset_group_testcases by (metis set_mset_mset)

lemma repartition_tests_outer_eq:
  "repartition_tests_outer f (length (pre @ xs)) (pre @ xs) (length pre) = pre @ group_by_first f xs"
proof (induction "length xs" arbitrary: pre xs rule: less_induct)
  case less
  show ?case
  proof (cases xs)
    case Nil
    then show ?thesis by (subst repartition_tests_outer.simps) simp
  next
    case (Cons x ys)
    let ?eq = "filter (\<lambda>y. f y = f x) ys" and ?ne = "filter (\<lambda>y. f y \<noteq> f x) ys"
    have "repartition_tests_outer f (length (pre @ xs)) (pre @ xs) (length pre)
        = repartition_tests_outer f (length ((pre @ x # ?eq) @ ?ne)) ((pre @ x # ?eq) @ ?ne) (length (pre @ x # ?eq))"
      using repartition_tests_inner_eq [of "[x]" f "f x" pre "[]" ys] Cons
        sum_length_filter_compl [of "\<lambda>y. f y = f x" ys]
      by (subst repartition_tests_outer.simps) simp
    also have "\<dots> = (pre @ x # ?eq) @ group_by_first f ?ne"
      using Cons by (intro less) (simp add: le_imp_less_Suc)
    finally show ?thesis using Cons by simp
  qed
qed

lemma repartition_testcases_outer_eq:
  "repartition_testcases_outer g f (pre @ xs) (length pre) = pre @ group_testcases g f xs"
proof (induction "length xs" arbitrary: pre xs rule: less_induct)
  case less
  show ?case
  proof (cases xs)
    case Nil
    then show ?thesis by (subst repartition_testcases_outer.simps) simp
  next
    case (Cons c cs)
    let ?s = "f (g c)"
    let ?in = "filter (\<lambda>d. f (g d) = ?s) cs" and ?out = "filter (\<lambda>d. f (g d) \<noteq> ?s) cs"
    have grp: "c # filter (\<lambda>d. g d = g c) cs @ group_by_first g (filter (\<lambda>d. f (g d) = ?s \<and> g d \<noteq> g c) cs)
        = group_by_first g (c # ?in)"
      by (auto intro!: filter_cong arg_cong [of _ _ "group_by_first g"] arg_cong2 [of _ _ _ _ append])
    have len: "length (group_by_first g (c # ?in)) = Suc (length ?in)"
      using mset_group_by_first [of g "c # ?in"] by (metis length_Cons size_mset)
    have "repartition_testcases_outer g f (pre @ xs) (length pre)
        = repartition_testcases_outer g f ((pre @ group_by_first g (c # ?in)) @ ?out)
            (length (pre @ group_by_first g (c # ?in)))"
      using repartition_testcases_suite_eq [of ?s f "g c" _ g cs "pre @ [c]", OF refl refl] Cons grp len
      by (subst repartition_testcases_outer.simps) simp
    also have "\<dots> = (pre @ group_by_first g (c # ?in)) @ group_testcases g f ?out"
      using Cons by (intro less) (simp add: le_imp_less_Suc)
    finally show ?thesis using Cons by simp
  qed
qed

text \<open>Elements with the same key are next to each other.\<close>

fun contiguous :: "('a \<Rightarrow> 'k) \<Rightarrow> 'a list \<Rightarrow> bool" where
  "contiguous k [] = True"
| "contiguous k (x # xs) = (k x \<notin> k ` set (dropWhile (\<lambda>y. k y = k x) xs) \<and> contiguous k xs)"

lemma set_dropWhile_sub: "set (dropWhile P xs) \<subseteq> set xs"
  by (auto dest: set_dropWhileD)

lemma contiguous_append:
  "contiguous k xs \<Longrightarrow> contiguous k ys \<Longrightarrow> k ` set xs \<inter> k ` set ys = {} \<Longrightarrow> contiguous k (xs @ ys)"
proof (induction xs)
  case (Cons x xs)
  then have "k x \<notin> k ` set ys" "contiguous k (xs @ ys)" by auto
  moreover have "set (dropWhile (\<lambda>y. k y = k x) (xs @ ys)) \<subseteq> set (dropWhile (\<lambda>y. k y = k x) xs) \<union> set ys"
    using set_dropWhile_sub [of "\<lambda>y. k y = k x" ys]
    by (cases "\<forall>y \<in> set xs. k y = k x") (auto simp: dropWhile_append)
  ultimately show ?case using Cons.prems(1) by auto
qed simp

lemma contiguous_same: "(\<And>x. x \<in> set xs \<Longrightarrow> k x = a) \<Longrightarrow> contiguous k xs"
proof (induction xs)
  case (Cons x xs)
  then have "dropWhile (\<lambda>y. k y = k x) xs = []" by simp
  then show ?case unfolding contiguous.simps using Cons by (simp only: list.set image_empty) simp
qed simp

lemma contiguous_group_by_first: "contiguous k (group_by_first k xs)"
proof (induction k xs rule: group_by_first.induct)
  case (2 k x xs)
  have "contiguous k (x # filter (\<lambda>y. k y = k x) xs)" by (rule contiguous_same [of _ _ "k x"]) auto
  then have "contiguous k ((x # filter (\<lambda>y. k y = k x) xs) @ group_by_first k (filter (\<lambda>y. k y \<noteq> k x) xs))"
    using 2 by (intro contiguous_append) auto
  then show ?case by simp
qed simp

lemma contiguous_group_testcases:
  "contiguous g (group_testcases g f cs) \<and> contiguous (\<lambda>c. f (g c)) (group_testcases g f cs)"
proof (induction g f cs rule: group_testcases.induct)
  case (2 g f c cs)
  let ?in = "c # filter (\<lambda>d. f (g d) = f (g c)) cs"
  have "contiguous g (group_by_first g ?in)" by (rule contiguous_group_by_first)
  moreover have "contiguous (\<lambda>c. f (g c)) (group_by_first g ?in)"
    by (rule contiguous_same [of _ _ "f (g c)"]) (auto simp del: group_by_first.simps)
  ultimately show ?case
    using 2 by (auto intro!: contiguous_append simp del: group_by_first.simps)
qed simp

text \<open>Elements with the same key keep their order.\<close>

lemma group_by_first_stable: "filter (\<lambda>x. k x = a) (group_by_first k xs) = filter (\<lambda>x. k x = a) xs"
proof (induction k xs rule: group_by_first.induct)
  case (2 k x xs)
  show ?case
  proof (cases "k x = a")
    case True
    then show ?thesis using 2 by (simp add: filter_empty_conv cong: conj_cong)
  next
    case False
    then have "filter (\<lambda>y. k y \<noteq> k x \<and> k y = a) xs = filter (\<lambda>y. k y = a) xs"
        "filter (\<lambda>y. k y = k x \<and> k y = a) xs = []"
      by (auto simp: filter_empty_conv intro!: filter_cong)
    then show ?thesis using False 2 by simp
  qed
qed simp

lemma group_testcases_stable: "filter (\<lambda>c. g c = t) (group_testcases g f cs) = filter (\<lambda>c. g c = t) cs"
proof (induction g f cs rule: group_testcases.induct)
  case (2 g f c cs)
  have "filter (\<lambda>d. g d = t) (filter (\<lambda>d. f (g d) = f (g c)) cs) @ filter (\<lambda>d. g d = t) (filter (\<lambda>d. f (g d) \<noteq> f (g c)) cs)
      = filter (\<lambda>d. g d = t) cs"
  proof (cases "f t = f (g c)")
    case True
    then have "filter (\<lambda>d. f (g d) = f (g c) \<and> g d = t) cs = filter (\<lambda>d. g d = t) cs"
        "filter (\<lambda>d. f (g d) \<noteq> f (g c) \<and> g d = t) cs = []"
      by (auto simp: filter_empty_conv intro!: filter_cong)
    then show ?thesis by simp
  next
    case False
    then have "filter (\<lambda>d. f (g d) \<noteq> f (g c) \<and> g d = t) cs = filter (\<lambda>d. g d = t) cs"
        "filter (\<lambda>d. f (g d) = f (g c) \<and> g d = t) cs = []"
      by (auto simp: filter_empty_conv intro!: filter_cong)
    then show ?thesis by simp
  qed
  then show ?case using 2
    by (auto simp: group_by_first_stable simp del: group_by_first.simps filter_filter)
qed simp

text \<open>A list that is already partitioned is left alone.\<close>

lemma contiguous_appendD: "contiguous k (xs @ ys) \<Longrightarrow> contiguous k xs \<and> contiguous k ys"
proof (induction xs)
  case (Cons x xs)
  have "set (dropWhile (\<lambda>y. k y = k x) xs) \<subseteq> set (dropWhile (\<lambda>y. k y = k x) (xs @ ys))"
  proof (cases "dropWhile (\<lambda>y. k y = k x) xs = []")
    case False
    then have "\<exists>y \<in> set xs. k y \<noteq> k x" by auto
    then show ?thesis by (auto simp: dropWhile_append)
  qed (simp only: list.set empty_subsetI)
  with Cons show ?case by auto
qed simp

lemma contiguous_dropWhile: "contiguous k xs \<Longrightarrow> contiguous k (dropWhile P xs)"
  using contiguous_appendD [of k "takeWhile P xs" "dropWhile P xs"] by simp

lemma contiguous_takeWhile: "contiguous k xs \<Longrightarrow> contiguous k (takeWhile P xs)"
  using contiguous_appendD [of k "takeWhile P xs" "dropWhile P xs"] by simp

lemma filter_prefix:
  assumes "\<And>y. y \<in> set (dropWhile P xs) \<Longrightarrow> \<not> P y"
  shows "filter P xs = takeWhile P xs" and "filter (\<lambda>y. \<not> P y) xs = dropWhile P xs"
proof -
  have "filter P (dropWhile P xs) = []" "filter (\<lambda>y. \<not> P y) (dropWhile P xs) = dropWhile P xs"
    using assms by (auto simp: filter_empty_conv intro!: filter_idem)
  moreover have "filter P (takeWhile P xs) = takeWhile P xs" "filter (\<lambda>y. \<not> P y) (takeWhile P xs) = []"
    by (auto simp: filter_empty_conv dest: set_takeWhileD intro!: filter_idem)
  ultimately show "filter P xs = takeWhile P xs" and "filter (\<lambda>y. \<not> P y) xs = dropWhile P xs"
    by (metis append_Nil append_Nil2 filter_append takeWhile_dropWhile_id)+
qed

lemma group_by_first_contiguous: "contiguous k xs \<Longrightarrow> group_by_first k xs = xs"
proof (induction k xs rule: group_by_first.induct)
  case (2 k x xs)
  let ?P = "\<lambda>y. k y = k x"
  have "k x \<notin> k ` set (dropWhile ?P xs)" using 2(2) by simp
  then have "\<not> ?P y" if "y \<in> set (dropWhile ?P xs)" for y using that by (metis (no_types, lifting) imageI)
  note tw = filter_prefix [of ?P xs, OF this]
  have "contiguous k (dropWhile ?P xs)"
    using 2(2) by (metis contiguous.simps(2) contiguous_dropWhile)
  with 2(1) show ?case by (simp add: tw)
qed simp

lemma group_testcases_contiguous:
  "contiguous g cs \<Longrightarrow> contiguous (\<lambda>c. f (g c)) cs \<Longrightarrow> group_testcases g f cs = cs"
proof (induction g f cs rule: group_testcases.induct)
  case (2 g f c cs)
  let ?P = "\<lambda>d. f (g d) = f (g c)"
  have "f (g c) \<notin> (\<lambda>c. f (g c)) ` set (dropWhile ?P cs)" using 2(3) by simp
  then have "\<not> ?P y" if "y \<in> set (dropWhile ?P cs)" for y using that by (metis (no_types, lifting) imageI)
  note tw = filter_prefix [of ?P cs, OF this]
  have "contiguous g (dropWhile ?P cs)" "contiguous (\<lambda>c. f (g c)) (dropWhile ?P cs)"
    using 2(2,3) by (auto intro!: contiguous_dropWhile)
  then have "group_testcases g f (dropWhile ?P cs) = dropWhile ?P cs" using 2(1) by (simp add: tw)
  moreover have "contiguous g (c # takeWhile ?P cs)" using 2(2) contiguous_takeWhile [of g "c # cs" ?P] by simp
  ultimately show ?case by (simp add: tw group_by_first_contiguous del: group_by_first.simps)
qed simp

section \<open>Properties\<close>

lemma repartition_tests_eq:
  "repartition_tests True f ts (length ts) = Some (group_by_first f ts)"
  using repartition_tests_outer_eq [of f "[]" ts] by (simp add: repartition_tests_def)

lemma repartition_testcases_eq:
  "repartition_testcases True g f cs (length cs) = Some (group_testcases g f cs)"
  using repartition_testcases_outer_eq [of g f "[]" cs] by (simp add: repartition_testcases_def)

text \<open>
  C28: The insertion sorts of \<^verbatim>\<open>repartition_tests__\<close> and \<^verbatim>\<open>repartition_testcases__\<close> terminate and compute the
  groupings their comments describe: a permutation in which the tests of a suite are next to each other and in their
  original order; and one in which the test cases of a suite are next to each other, within it those of a test, and
  those of a test keep their order.
\<close>

theorem repartition_groups:
  "(\<exists>ys. repartition_tests True get_testsuite tests (length tests) = Some ys \<and>
     ys = group_by_first get_testsuite tests \<and> mset ys = mset tests \<and> contiguous get_testsuite ys \<and>
     (\<forall>s. filter (\<lambda>t. get_testsuite t = s) ys = filter (\<lambda>t. get_testsuite t = s) tests)) \<and>
   (\<exists>ys. repartition_testcases True get_test get_testsuite testcases (length testcases) = Some ys \<and>
     ys = group_testcases get_test get_testsuite testcases \<and> mset ys = mset testcases \<and>
     contiguous get_test ys \<and> contiguous (\<lambda>c. get_testsuite (get_test c)) ys \<and>
     (\<forall>t. filter (\<lambda>c. get_test c = t) ys = filter (\<lambda>c. get_test c = t) testcases))"
  by (simp add: repartition_tests_eq mset_group_by_first contiguous_group_by_first group_by_first_stable
      repartition_testcases_eq mset_group_testcases contiguous_group_testcases group_testcases_stable)

text \<open>
  For a well-behaved client, whose test cases are already in test order and suite order, the
  repartitioning changes nothing.
\<close>

lemma repartition_testcases_noop:
  assumes "contiguous get_test testcases" and "contiguous (\<lambda>c. get_testsuite (get_test c)) testcases"
  shows "repartition_testcases True get_test get_testsuite testcases (length testcases) = Some testcases"
  using assms by (simp add: repartition_testcases_eq group_testcases_contiguous)

end
