(* ===== verification/Output.thy ===== *)
theory Output
  imports Poll_Handler
begin

text \<open>
  \<^verbatim>\<open>src/exec/output.c\<close> and \<^verbatim>\<open>src/exec/output_reader.c\<close>: the captured output of a test. A
  \<^verbatim>\<open>ctest_output_t\<close> is its data (its \<^verbatim>\<open>length\<close> field is the length of the list); the reader keeps
  an output whose length is its capacity and counts the bytes read into it.
\<close>

section \<open>Definitions\<close>

record ctest_output =
  out_data :: "byte list"

abbreviation out_length :: "ctest_output \<Rightarrow> nat" where
  "out_length output \<equiv> length (out_data output)"

text \<open>\<open>ok\<close> says whether the allocation succeeds.\<close>

definition ctest_output_create :: "bool \<Rightarrow> nat \<Rightarrow> ctest_output option" where
  "ctest_output_create ok capacity =
     (if ok then Some \<lparr>out_data = replicate capacity NUL\<rparr> else None)"

definition ctest_output_resize ::
  "bool \<Rightarrow> ctest_output option \<Rightarrow> nat \<Rightarrow> ctest_output option \<times> int" where
  "ctest_output_resize ok p_output capacity =
     (let data = (case p_output of None \<Rightarrow> [] | Some output \<Rightarrow> out_data output);
          len = length data
      in if \<not> ok then (p_output, -1)
         else let data = take capacity data;
                  data = (if len < capacity then data @ replicate (capacity - len) NUL else data)
              in (Some \<lparr>out_data = data\<rparr>, 0))"

text \<open>
  The reader with its environment: the outcomes of the next allocations (all succeed once the
  list is used up) and the unread bytes of the pipe.
\<close>

record output_reader =
  or_output :: "ctest_output option"
  or_length :: nat
  or_open :: bool
  or_allocs :: "bool list"
  or_pipe :: "byte list"

definition next_alloc :: "output_reader \<Rightarrow> output_reader \<times> bool" where
  "next_alloc r = (case or_allocs r of [] \<Rightarrow> (r, True) | ok # oks \<Rightarrow> (r\<lparr>or_allocs := oks\<rparr>, ok))"

definition output_reader_init :: "bool list \<Rightarrow> byte list \<Rightarrow> output_reader" where
  "output_reader_init allocs pipe =
     \<lparr>or_output = None, or_length = 0, or_open = True, or_allocs = allocs, or_pipe = pipe\<rparr>"

definition output_reader_destroy :: "output_reader \<Rightarrow> output_reader" where
  "output_reader_destroy r = r\<lparr>or_open := False, or_output := None, or_length := 0\<rparr>"

text \<open>The growth of the buffer at the start of a notification.\<close>

definition output_grow :: "output_reader \<Rightarrow> output_reader" where
  "output_grow r =
     (case or_output r of
        None \<Rightarrow> let (r, ok) = next_alloc r in r\<lparr>or_output := ctest_output_create ok 128\<rparr>
      | Some output \<Rightarrow>
          if or_length r \<ge> out_length output
          then let (r, ok) = next_alloc r
               in r\<lparr>or_output := fst (ctest_output_resize ok (Some output) (or_length r * 2))\<rparr>
          else r)"

text \<open>
  The bytes a system call stores into a buffer from an offset on, as \<^verbatim>\<open>read\<close> does. \<open>None\<close>: one of them lies
  beyond the end of the buffer, which overruns the block it was allocated in.
\<close>

definition write_at :: "'a list \<Rightarrow> nat \<Rightarrow> 'a list \<Rightarrow> 'a list" where
  "write_at xs i ys = take i xs @ ys @ drop (i + length ys) xs"

definition store_into :: "byte list \<Rightarrow> nat \<Rightarrow> byte list \<Rightarrow> byte list option" where
  "store_into buf ofs bs = (if ofs + length bs \<le> length buf then Some (write_at buf ofs bs) else None)"

text \<open>
  \<open>read_bytes k n r\<close>: the bytes \<^verbatim>\<open>read\<close> gives when at most \<open>n\<close> are asked for and \<open>k\<close> are ready. A notification
  is \<open>None\<close> when the bytes that are read do not fit where they are stored.
\<close>

definition read_bytes :: "nat \<Rightarrow> nat \<Rightarrow> output_reader \<Rightarrow> byte list" where
  "read_bytes k n r = take (min k n) (or_pipe r)"

text \<open>Without room in the output the bytes are read into a local array of \<open>room\<close> bytes and forgotten.\<close>

definition drain :: "nat \<Rightarrow> nat \<Rightarrow> output_reader \<Rightarrow> (output_reader \<times> int) option" where
  "drain room k r =
     (let bs = read_bytes k room r
      in case store_into (replicate room NUL) 0 bs of
           None \<Rightarrow> None
         | Some buf \<Rightarrow> Some (r\<lparr>or_pipe := drop (length bs) (or_pipe r)\<rparr>, int (length bs)))"

definition op_on_data_available :: "nat \<Rightarrow> output_reader \<Rightarrow> (output_reader \<times> int) option" where
  "op_on_data_available k r =
     (let len = or_length r;
          r = output_grow r
      in case or_output r of
           None \<Rightarrow> drain 4096 k r
         | Some output \<Rightarrow>
             if len \<ge> out_length output then drain 4096 k r
             else let bs = read_bytes k (out_length output - len) r
                  in case store_into (out_data output) len bs of
                       None \<Rightarrow> None
                     | Some data \<Rightarrow>
                         Some (r\<lparr>or_output := Some \<lparr>out_data = data\<rparr>,
                                 or_length := or_length r + length bs,
                                 or_pipe := drop (length bs) (or_pipe r)\<rparr>, int (length bs)))"

text \<open>\<open>None\<close>: the terminator is stored beyond the end of the data.\<close>

definition output_reader_build :: "output_reader \<Rightarrow> (output_reader \<times> ctest_output option) option" where
  "output_reader_build r =
     (let len = or_length r in
      case or_output r of
        None \<Rightarrow> Some (r, None)
      | Some output \<Rightarrow>
          if len = 0 then Some (r, None)
          else let r = r\<lparr>or_output := None, or_length := 0\<rparr>;
                   (r, ok) = next_alloc r;
                   output = the (fst (ctest_output_resize ok (Some output) (len + 1)))
               in if len < out_length output
                  then Some (r, Some \<lparr>out_data = (out_data output)[len := NUL]\<rparr>)
                  else None)"

section \<open>Capacity\<close>

text \<open>The bytes read lie within the buffer, which is never smaller than its initial 128 bytes.\<close>

definition output_inv :: "output_reader \<Rightarrow> bool" where
  "output_inv r \<longleftrightarrow>
     (case or_output r of None \<Rightarrow> or_length r = 0
      | Some output \<Rightarrow> 128 \<le> out_length output \<and> or_length r \<le> out_length output)"

definition output_so_far :: "output_reader \<Rightarrow> byte list" where
  "output_so_far r =
     (case or_output r of None \<Rightarrow> [] | Some output \<Rightarrow> take (or_length r) (out_data output))"

lemma length_write_at [simp]: "i + length ys \<le> length xs \<Longrightarrow> length (write_at xs i ys) = length xs"
  by (simp add: write_at_def)

lemma take_write_at:
  "i \<le> length xs \<Longrightarrow> take (i + length ys) (write_at xs i ys) = take i xs @ ys"
  by (simp add: write_at_def)

lemma next_alloc_simps [simp]:
  "or_output (fst (next_alloc r)) = or_output r" "or_length (fst (next_alloc r)) = or_length r"
  "or_pipe (fst (next_alloc r)) = or_pipe r"
  by (simp_all add: next_alloc_def split: list.split)

lemma output_resize_grow:
  "out_length output \<le> n \<Longrightarrow> fst (ctest_output_resize True (Some output) n)
    = Some \<lparr>out_data = out_data output @ replicate (n - out_length output) NUL\<rparr>"
  by (auto simp: ctest_output_resize_def Let_def)

lemma output_grow_inv:
  assumes "output_inv r"
  shows "output_inv (output_grow r)" and "output_so_far (output_grow r) = output_so_far r"
    and "or_length (output_grow r) = or_length r" and "or_pipe (output_grow r) = or_pipe r"
  using assms
  by (auto simp: output_inv_def output_so_far_def output_grow_def ctest_output_create_def
      ctest_output_resize_def case_prod_beta Let_def split: option.splits)

lemma output_grow_room:
  assumes "output_inv r" and "or_allocs r = []"
  shows "or_allocs (output_grow r) = [] \<and>
    (\<exists>output. or_output (output_grow r) = Some output \<and> or_length r < out_length output)"
  using assms
  by (auto simp: output_inv_def output_grow_def ctest_output_create_def next_alloc_def
      ctest_output_resize_def Let_def split: option.splits)

lemma read_bytes_length: "length (read_bytes k n r) \<le> n"
  by (simp add: read_bytes_def)

lemma store_into_ok: "ofs + length bs \<le> length buf \<Longrightarrow> store_into buf ofs bs = Some (write_at buf ofs bs)"
  by (simp add: store_into_def)

lemma drain_ok:
  "drain room k r = Some (r\<lparr>or_pipe := drop (length (read_bytes k room r)) (or_pipe r)\<rparr>, int (length (read_bytes k room r)))"
  by (simp add: drain_def store_into_ok read_bytes_length Let_def)

text \<open>What a notification comes to: every store lies inside the buffer it goes to.\<close>

lemma op_on_data_available_eq:
  "op_on_data_available k r =
    (let g = output_grow r
     in case or_output g of
          None \<Rightarrow> drain 4096 k g
        | Some output \<Rightarrow>
            if out_length output \<le> or_length r then drain 4096 k g
            else let bs = read_bytes k (out_length output - or_length r) g
                 in Some (g\<lparr>or_output := Some \<lparr>out_data = write_at (out_data output) (or_length r) bs\<rparr>,
                            or_length := or_length g + length bs, or_pipe := drop (length bs) (or_pipe g)\<rparr>,
                          int (length bs)))"
proof -
  have "or_length r + length (read_bytes k (n - or_length r) g) \<le> n" if "or_length r < n" for n g
    using read_bytes_length [of k "n - or_length r" g] that by linarith
  then show ?thesis
    by (simp add: op_on_data_available_def store_into_ok Let_def not_le split: option.split)
qed

lemma op_on_data_available_inv:
  assumes "output_inv r"
  shows "\<exists>r' n. op_on_data_available k r = Some (r', int n) \<and> output_inv r'"
proof -
  note g = output_grow_inv [OF assms]
  show ?thesis
  proof (cases "or_output (output_grow r)")
    case None
    with g show ?thesis
      by (simp add: op_on_data_available_eq drain_ok output_inv_def Let_def)
  next
    case (Some out)
    have "or_length r + length (read_bytes k (out_length out - or_length r) (output_grow r)) \<le> out_length out"
      if "\<not> out_length out \<le> or_length r"
      using read_bytes_length [of k "out_length out - or_length r" "output_grow r"] that by linarith
    with g Some show ?thesis
      by (auto simp: op_on_data_available_eq drain_ok output_inv_def Let_def)
  qed
qed

text \<open>A notification with memory available moves bytes from the pipe to the output.\<close>

lemma op_on_data_available_ok:
  assumes "output_inv r" and "or_allocs r = []" and "or_pipe r \<noteq> []" and "0 < k"
  shows "\<exists>r' n. op_on_data_available k r = Some (r', int n) \<and> 0 < n \<and> or_pipe r' = drop n (or_pipe r) \<and>
    output_so_far r' @ or_pipe r' = output_so_far r @ or_pipe r \<and> or_allocs r' = []"
proof -
  note g = output_grow_inv [OF assms(1)]
  obtain out where o: "or_allocs (output_grow r) = []" "or_output (output_grow r) = Some out"
      "or_length r < out_length out"
    using output_grow_room [OF assms(1,2)] by blast
  let ?bs = "take (min k (out_length out - or_length r)) (or_pipe r)"
  have "0 < length ?bs" using assms(3,4) o(3) by simp
  moreover have "output_so_far (output_grow r) = take (or_length r) (out_data out)"
    using o(2) g(3) by (simp add: output_so_far_def)
  moreover have "take (or_length r + length ?bs) (write_at (out_data out) (or_length r) ?bs)
      = take (or_length r) (out_data out) @ ?bs"
    using o(3) by (intro take_write_at) simp
  moreover have "?bs @ drop (length ?bs) (or_pipe r) = or_pipe r"
    by (metis append_take_drop_id length_take min.cobounded1 min_def take_all)
  ultimately show ?thesis
    using o g by (simp add: op_on_data_available_eq read_bytes_def output_so_far_def Let_def del: length_take)
qed

definition output_good :: "byte list \<Rightarrow> output_reader \<Rightarrow> bool" where
  "output_good x r \<longleftrightarrow> output_inv r \<and> or_allocs r = [] \<and> output_so_far r @ or_pipe r = x"

interpretation outr: stream_handler op_on_data_available or_pipe output_good
proof (unfold_locales, goal_cases)
  case (1 x s k)
  then show ?case
    using op_on_data_available_ok [of s k] op_on_data_available_inv [of s k]
    by (fastforce simp: output_good_def)
qed

lemma output_build_drained:
  assumes "output_good bs r" and "or_pipe r = []"
  shows "\<exists>r'. output_reader_build r = Some (r', if bs = [] then None else Some \<lparr>out_data = bs @ [NUL]\<rparr>) \<and>
    output_so_far r' = []"
proof (cases "or_output r")
  case None
  with assms show ?thesis
    by (simp add: output_good_def output_so_far_def output_reader_build_def)
next
  case (Some out)
  with assms have bs: "bs = take (or_length r) (out_data out)" "or_length r \<le> out_length out"
      "or_allocs r = []" "128 \<le> out_length out"
    by (auto simp: output_good_def output_so_far_def output_inv_def)
  show ?thesis
  proof (cases "or_length r = 0")
    case True
    with Some bs show ?thesis by (simp add: output_reader_build_def output_so_far_def)
  next
    case False
    let ?d = "out_data (the (fst (ctest_output_resize True (Some out) (Suc (or_length r)))))"
    have "?d = take (Suc (or_length r)) (out_data out) @ replicate (Suc (or_length r) - out_length out) NUL"
      by (simp add: ctest_output_resize_def Let_def)
    then have "length ?d = Suc (or_length r)" "take (or_length r) ?d = bs"
      using bs by (simp_all add: min_def take_Suc_conv_app_nth)
    then have "?d[or_length r := NUL] = bs @ [NUL]"
      by (metis Suc_eq_plus1 append_take_drop_id cancel_comm_monoid_add_class.diff_cancel drop_eq_Nil le_refl
          lessI list_update_id list_update_length take_Suc_conv_app_nth take_all take_update_cancel
          upd_conv_take_nth_drop self_append_conv)
    moreover have "bs \<noteq> []" using False bs by auto
    ultimately show ?thesis
      using Some False bs(3) \<open>length ?d = Suc (or_length r)\<close>
      by (auto simp: output_reader_build_def next_alloc_def output_so_far_def Let_def)
  qed
qed

section \<open>Properties\<close>

text \<open>
  C19: Whatever a test writes and however the pipe cuts it up, the output built from the reader is
  exactly these bytes followed by a NUL (no output object at all when nothing was written), and
  the reader is empty again. Memory is available.
\<close>

theorem output_capture:
  assumes "\<forall>k \<in> set ks. 0 < k" and "length bs \<le> length ks"
  shows "\<exists>r r'. poll_run op_on_data_available or_pipe ks (output_reader_init [] bs) = Some r \<and>
    output_reader_build r = Some (r', if bs = [] then None else Some \<lparr>out_data = bs @ [NUL]\<rparr>) \<and>
    output_so_far r' = []"
proof -
  have "output_good bs (output_reader_init [] bs)"
    by (simp add: output_good_def output_inv_def output_so_far_def output_reader_init_def)
  from outr.run_drains [OF this assms(1)] assms(2) obtain r where
    r: "poll_run op_on_data_available or_pipe ks (output_reader_init [] bs) = Some r"
       "or_pipe r = []" "output_good bs r"
    by (auto simp: output_reader_init_def)
  from output_build_drained [OF r(3,2)] r(1) show ?thesis by blast
qed

theorem output_capture_witness:
  "\<exists>r r'. poll_run op_on_data_available or_pipe (replicate 200 1) (output_reader_init [] (replicate 200 CHR ''x'')) = Some r \<and>
    output_reader_build r = Some (r', Some \<lparr>out_data = replicate 200 CHR ''x'' @ [NUL]\<rparr>) \<and> output_so_far r' = []"
proof -
  have "\<forall>k \<in> set (replicate 200 (1 :: nat)). 0 < k" "length (replicate 200 CHR ''x'') \<le> length (replicate 200 (1 :: nat))"
    by simp_all
  from output_capture [OF this] show ?thesis by simp
qed

text \<open>
  C36: The reader stores only inside its buffer, whatever allocations fail and however much is ready at once: no
  sequence of notifications overruns the buffer or the local array (which would be \<open>None\<close>), and after it the
  bytes counted are within the buffer.
\<close>

theorem output_reader_bounds:
  "\<exists>r. poll_run op_on_data_available or_pipe ks (output_reader_init allocs bs) = Some r \<and> output_inv r"
proof -
  have "\<exists>r'. poll_run op_on_data_available or_pipe ks r = Some r' \<and> output_inv r'" if "output_inv r" for r
    using that
  proof (induction ks arbitrary: r)
    case (Cons k ks)
    from op_on_data_available_inv [OF Cons.prems, of k] obtain r' n where
      "op_on_data_available k r = Some (r', int n)" "output_inv r'" by blast
    with Cons.IH Cons.prems show ?case by simp
  qed simp
  moreover have "output_inv (output_reader_init allocs bs)"
    by (simp add: output_inv_def output_reader_init_def)
  ultimately show ?thesis by blast
qed

text \<open>
  Building the output of a full buffer when the allocator is out of memory stores the
  terminating NUL one byte beyond the buffer, because the failure of the resize is ignored.
\<close>

lemma output_build_overflow:
  assumes "or_output r = Some out" and "or_length r = out_length out" and "0 < or_length r"
    and "or_allocs r = False # oks"
  shows "output_reader_build r = None"
  using assms by (simp add: output_reader_build_def next_alloc_def ctest_output_resize_def)

end
