(* ===== verification/Result.thy ===== *)
theory Result
  imports Failure Output "HOL-Library.Multiset"
begin

text \<open>
  \<^verbatim>\<open>src/exec/result.c\<close>: the result of a test. A result owns its output and its failure; the
  operations return, beside the new result, the objects they release, so that ownership can be
  accounted for.
\<close>

section \<open>Definitions\<close>

datatype ctest_result_type =
    CTEST_RESULT_PASS
  | CTEST_RESULT_FAIL
  | CTEST_RESULT_SKIPPED
  | CTEST_RESULT_ERROR

record ctest_result =
  res_type :: ctest_result_type
  res_output :: "ctest_output option"
  res_failure :: "ctest_failure option"

datatype heap_object = Output_Object ctest_output | Failure_Object ctest_failure | Result_Object

text \<open>A failure is one block.\<close>

definition ctest_failure_destroy :: "ctest_failure \<Rightarrow> heap_object list" where
  "ctest_failure_destroy failure = [Failure_Object failure]"

declare ctest_failure_destroy_def [simp]

definition ctest_result_create_empty :: "bool \<Rightarrow> ctest_result option" where
  "ctest_result_create_empty ok =
     (if ok then Some \<lparr>res_type = CTEST_RESULT_PASS, res_output = None, res_failure = None\<rparr> else None)"

definition ctest_result_set_failure ::
  "ctest_result \<Rightarrow> ctest_result_type \<Rightarrow> ctest_failure option \<Rightarrow> ctest_result \<times> heap_object list \<times> int" where
  "ctest_result_set_failure result type failure =
     (let freed = (case res_failure result of Some f \<Rightarrow> ctest_failure_destroy f | None \<Rightarrow> [])
      in (result\<lparr>res_type := type, res_failure := failure\<rparr>, freed, 0))"

definition ctest_result_set_output ::
  "ctest_result \<Rightarrow> ctest_output option \<Rightarrow> ctest_result \<times> heap_object list \<times> int" where
  "ctest_result_set_output result output =
     (let freed = (case res_output result of Some out \<Rightarrow> [Output_Object out] | None \<Rightarrow> [])
      in (result\<lparr>res_output := output\<rparr>, freed, 0))"

definition ctest_result_destroy :: "ctest_result \<Rightarrow> heap_object list" where
  "ctest_result_destroy result =
     (case res_output result of Some out \<Rightarrow> [Output_Object out] | None \<Rightarrow> []) @
     (case res_failure result of Some f \<Rightarrow> ctest_failure_destroy f | None \<Rightarrow> []) @ [Result_Object]"

section \<open>Ownership\<close>

datatype result_op = Set_Failure ctest_result_type "ctest_failure option" | Set_Output "ctest_output option"

fun result_step :: "result_op \<Rightarrow> ctest_result \<Rightarrow> ctest_result \<times> heap_object list \<times> int" where
  "result_step (Set_Failure type failure) r = ctest_result_set_failure r type failure"
| "result_step (Set_Output out) r = ctest_result_set_output r out"

text \<open>A result updated by the operations in turn and destroyed: everything released on the way.\<close>

fun result_life :: "result_op list \<Rightarrow> ctest_result \<Rightarrow> heap_object list" where
  "result_life [] r = ctest_result_destroy r"
| "result_life (p # ps) r = (case result_step p r of (r', freed, rc) \<Rightarrow> freed @ result_life ps r')"

fun op_objects :: "result_op \<Rightarrow> heap_object list" where
  "op_objects (Set_Failure type failure) = (case failure of Some f \<Rightarrow> [Failure_Object f] | None \<Rightarrow> [])"
| "op_objects (Set_Output out) = (case out of Some x \<Rightarrow> [Output_Object x] | None \<Rightarrow> [])"

text \<open>
  C35: A result owns what it is given: over any sequence of updates and the final destroy, each
  failure and each output handed to it is released exactly once, and so is the result itself.
\<close>

theorem result_ownership:
  "ctest_result_create_empty True = Some r \<Longrightarrow>
   mset (result_life ps r) = mset (concat (map op_objects ps)) + {#Result_Object#}"
proof -
  have "mset (result_life ps r) = mset (concat (map op_objects ps)) + mset (ctest_result_destroy r)" for r
  proof (induction ps arbitrary: r)
    case (Cons p ps)
    then show ?case
      by (cases p) (auto simp: ctest_result_set_failure_def ctest_result_set_output_def
          ctest_result_destroy_def split: option.split)
  qed simp
  moreover assume "ctest_result_create_empty True = Some r"
  ultimately show ?thesis by (auto simp: ctest_result_create_empty_def ctest_result_destroy_def)
qed

theorem result_ownership_witness:
  "mset (result_life [Set_Output (Some \<lparr>out_data = ''a''\<rparr>), Set_Output (Some \<lparr>out_data = ''b''\<rparr>)]
      \<lparr>res_type = CTEST_RESULT_PASS, res_output = None, res_failure = None\<rparr>)
    = {#Output_Object \<lparr>out_data = ''a''\<rparr>, Output_Object \<lparr>out_data = ''b''\<rparr>, Result_Object#}"
  using result_ownership [of "\<lparr>res_type = CTEST_RESULT_PASS, res_output = None, res_failure = None\<rparr>"
      "[Set_Output (Some \<lparr>out_data = ''a''\<rparr>), Set_Output (Some \<lparr>out_data = ''b''\<rparr>)]"]
  by (simp add: ctest_result_create_empty_def)

end
