(* ===== verification/Runner_Utils.thy ===== *)
theory Runner_Utils
  imports Repartition Result
begin

text \<open>
  The run loops of \<^verbatim>\<open>src/exec/runner_utils.c\<close> and the reporter interface of
  \<^verbatim>\<open>include/ctest/exec/reporter.h\<close> they drive. A reporter is a state \<open>'r\<close> with the operations of
  the four reporter objects; since these objects nest, one state stands for the stack of them. A
  \<^verbatim>\<open>report_*\<close> operation returns whether it gave a reporter (\<open>False\<close> for NULL). The locale
  \<open>reporter_contract\<close> is the calling discipline a reporter may rely on.
\<close>

section \<open>Definitions\<close>

record ('r, 's, 't, 'c) reporter_ops =
  report_testsuite :: "'r \<Rightarrow> 's \<Rightarrow> 'r \<times> bool"
  testsuite_destroy :: "'r \<Rightarrow> 'r"
  report_test :: "'r \<Rightarrow> 't \<Rightarrow> 'r \<times> bool"
  test_destroy :: "'r \<Rightarrow> 'r"
  report_testcase :: "'r \<Rightarrow> 'c \<Rightarrow> 'r \<times> bool"
  testcase_start :: "'r \<Rightarrow> 'r"
  testcase_complete :: "'r \<Rightarrow> ctest_result \<Rightarrow> 'r"
  testcase_destroy :: "'r \<Rightarrow> 'r"

text \<open>The accessors of suites, tests and test cases that the loops call.\<close>

record ('s, 't, 'c) suite_ops =
  get_testsuite :: "'t \<Rightarrow> 's"
  get_test :: "'c \<Rightarrow> 't"
  get_tests :: "'s \<Rightarrow> 't list"
  get_testcases :: "'t \<Rightarrow> 'c list"

fun run_testcases_in_test ::
  "('r, 's, 't, 'c) reporter_ops \<Rightarrow> ('r \<Rightarrow> 'c \<Rightarrow> 'r \<times> int) \<Rightarrow> 'r \<Rightarrow> 'c list \<Rightarrow> int \<Rightarrow> 'r \<times> int" where
  "run_testcases_in_test ops run_testcase r [] result = (r, result)"
| "run_testcases_in_test ops run_testcase r (testcase # testcases) result =
     (let (r, ok) = report_testcase ops r testcase in
      if \<not> ok then (r, -1)
      else let (r, rc) = run_testcase r testcase;
               r = testcase_destroy ops r
           in if rc < 0 then (r, -1)
              else run_testcases_in_test ops run_testcase r testcases
                     (result + (if rc > 0 then 1 else 0)))"

fun run_tests_in_testsuite ::
  "('s, 't, 'c) suite_ops \<Rightarrow> ('r, 's, 't, 'c) reporter_ops \<Rightarrow> ('r \<Rightarrow> 'c \<Rightarrow> 'r \<times> int) \<Rightarrow> 'r
   \<Rightarrow> 't list \<Rightarrow> int \<Rightarrow> 'r \<times> int" where
  "run_tests_in_testsuite sops ops run_testcase r [] result = (r, result)"
| "run_tests_in_testsuite sops ops run_testcase r (test # tests) result =
     (let (r, ok) = report_test ops r test in
      if \<not> ok then (r, -1)
      else let (r, rc) = run_testcases_in_test ops run_testcase r (get_testcases sops test) 0;
               r = test_destroy ops r
           in if rc < 0 then (r, rc)
              else run_tests_in_testsuite sops ops run_testcase r tests (result + rc))"

text \<open>
  The main loop of \<^verbatim>\<open>runner_run_testcases\<close> over the remaining test cases. \<open>testsuite\<close> is the suite
  whose reporter is open, if any; the loop hands over whether one is open when it ends.
\<close>

function run_testcases_loop ::
  "('s, 't, 'c) suite_ops \<Rightarrow> ('r, 's, 't, 'c) reporter_ops \<Rightarrow> ('r \<Rightarrow> 'c \<Rightarrow> 'r \<times> int) \<Rightarrow> 'r
   \<Rightarrow> 's option \<Rightarrow> 'c list \<Rightarrow> int \<Rightarrow> 'r \<times> int \<times> bool" where
  "run_testcases_loop sops ops run_testcase r testsuite [] result = (r, result, testsuite \<noteq> None)"
| "run_testcases_loop sops ops run_testcase r testsuite (testcase # testcases) result =
     (let test = get_test sops testcase;
          this_testsuite = get_testsuite sops test;
          (r, ok) = (if Some this_testsuite \<noteq> testsuite
                     then report_testsuite ops (if testsuite \<noteq> None then testsuite_destroy ops r else r)
                            this_testsuite
                     else (r, True))
      in if \<not> ok then (r, -1, False)
         else let same = takeWhile (\<lambda>c. get_test sops c = test) testcases;
                  rest = dropWhile (\<lambda>c. get_test sops c = test) testcases;
                  (r, ok) = report_test ops r test
              in if \<not> ok then (r, -1, True)
                 else let (r, rc) = run_testcases_in_test ops run_testcase r (testcase # same) 0;
                          r = test_destroy ops r
                      in if rc < 0 then (r, -1, True)
                         else run_testcases_loop sops ops run_testcase r (Some this_testsuite) rest
                                (result + rc))"
  by pat_completeness auto
termination
  by (relation "measure (\<lambda>(_, _, _, _, _, testcases, _). length testcases)")
    (auto simp: le_imp_less_Suc length_dropWhile_le)

definition runner_run_testcases ::
  "bool \<Rightarrow> ('s, 't, 'c) suite_ops \<Rightarrow> ('r, 's, 't, 'c) reporter_ops \<Rightarrow> ('r \<Rightarrow> 'c \<Rightarrow> 'r \<times> int) \<Rightarrow> 'r
   \<Rightarrow> 'c list \<Rightarrow> 'r \<times> int" where
  "runner_run_testcases alloc_ok sops ops run_testcase r testcases =
     (if length testcases = 0 then (r, 0)
      else case repartition_testcases alloc_ok (get_test sops) (get_testsuite sops) testcases
                  (length testcases) of
             None \<Rightarrow> (r, -1)
           | Some testcases \<Rightarrow>
               (let (r, result, is_open) = run_testcases_loop sops ops run_testcase r None testcases 0
                in (if is_open then testsuite_destroy ops r else r, result)))"

function run_tests_loop ::
  "('s, 't, 'c) suite_ops \<Rightarrow> ('r, 's, 't, 'c) reporter_ops \<Rightarrow> ('r \<Rightarrow> 'c \<Rightarrow> 'r \<times> int) \<Rightarrow> 'r
   \<Rightarrow> 't list \<Rightarrow> int \<Rightarrow> 'r \<times> int" where
  "run_tests_loop sops ops run_testcase r [] result = (r, result)"
| "run_tests_loop sops ops run_testcase r (test # tests) result =
     (let testsuite = get_testsuite sops test;
          same = takeWhile (\<lambda>t. get_testsuite sops t = testsuite) tests;
          rest = dropWhile (\<lambda>t. get_testsuite sops t = testsuite) tests;
          (r, ok) = report_testsuite ops r testsuite
      in if \<not> ok then (r, -1)
         else let (r, rc) = run_tests_in_testsuite sops ops run_testcase r (test # same) 0;
                  r = testsuite_destroy ops r
              in if rc < 0 then (r, -1)
                 else run_tests_loop sops ops run_testcase r rest (result + rc))"
  by pat_completeness auto
termination
  by (relation "measure (\<lambda>(_, _, _, _, tests, _). length tests)")
    (auto simp: le_imp_less_Suc length_dropWhile_le)

definition runner_run_tests ::
  "bool \<Rightarrow> ('s, 't, 'c) suite_ops \<Rightarrow> ('r, 's, 't, 'c) reporter_ops \<Rightarrow> ('r \<Rightarrow> 'c \<Rightarrow> 'r \<times> int) \<Rightarrow> 'r
   \<Rightarrow> 't list \<Rightarrow> 'r \<times> int" where
  "runner_run_tests alloc_ok sops ops run_testcase r tests =
     (if length tests = 0 then (r, 0)
      else case repartition_tests alloc_ok (get_testsuite sops) tests (length tests) of
             None \<Rightarrow> (r, -1)
           | Some tests \<Rightarrow> run_tests_loop sops ops run_testcase r tests 0)"

fun runner_run_testsuites ::
  "('s, 't, 'c) suite_ops \<Rightarrow> ('r, 's, 't, 'c) reporter_ops \<Rightarrow> ('r \<Rightarrow> 'c \<Rightarrow> 'r \<times> int) \<Rightarrow> 'r
   \<Rightarrow> 's list \<Rightarrow> int \<Rightarrow> 'r \<times> int" where
  "runner_run_testsuites sops ops run_testcase r [] result = (r, result)"
| "runner_run_testsuites sops ops run_testcase r (testsuite # testsuites) result =
     (let (r, ok) = report_testsuite ops r testsuite in
      if \<not> ok then (r, -1)
      else let (r, rc) = run_tests_in_testsuite sops ops run_testcase r (get_tests sops testsuite) 0;
               r = testsuite_destroy ops r
           in if rc < 0 then (r, rc)
              else runner_run_testsuites sops ops run_testcase r testsuites (result + rc))"

section \<open>The calling discipline\<close>

text \<open>
  The states of a reporter between calls: no suite reporter, a suite reporter, a test reporter,
  a test case reporter. The operations move between them, and running a test case returns to the
  state it was called in.
\<close>

locale reporter_contract =
  fixes ops :: "('r, 's, 't, 'c) reporter_ops"
    and run_testcase :: "'r \<Rightarrow> 'c \<Rightarrow> 'r \<times> int"
    and idle :: "'r \<Rightarrow> bool" and in_suite :: "'r \<Rightarrow> bool"
    and in_test :: "'r \<Rightarrow> bool" and in_testcase :: "'r \<Rightarrow> bool"
  assumes report_testsuite: "idle r \<Longrightarrow> report_testsuite ops r s = (r', ok)
      \<Longrightarrow> if ok then in_suite r' else idle r'"
    and testsuite_destroy: "in_suite r \<Longrightarrow> idle (testsuite_destroy ops r)"
    and report_test: "in_suite r \<Longrightarrow> report_test ops r t = (r', ok)
      \<Longrightarrow> if ok then in_test r' else in_suite r'"
    and test_destroy: "in_test r \<Longrightarrow> in_suite (test_destroy ops r)"
    and report_testcase: "in_test r \<Longrightarrow> report_testcase ops r c = (r', ok)
      \<Longrightarrow> if ok then in_testcase r' else in_test r'"
    and testcase_destroy: "in_testcase r \<Longrightarrow> in_test (testcase_destroy ops r)"
    and run_testcase: "in_testcase r \<Longrightarrow> in_testcase (fst (run_testcase r c))"
begin

lemma testcases_in_test:
  "in_test r \<Longrightarrow> in_test (fst (run_testcases_in_test ops run_testcase r cs res))"
proof (induction cs arbitrary: r res)
  case (Cons c cs)
  obtain r1 ok where r1: "report_testcase ops r c = (r1, ok)" by (meson surj_pair)
  obtain r2 rc where r2: "run_testcase r1 c = (r2, rc)" by (meson surj_pair)
  from report_testcase [OF Cons.prems r1] run_testcase [of r1 c] r2 testcase_destroy [of r2] Cons.IH r1
  show ?case by (cases ok) (simp_all add: Let_def)
qed simp

lemma tests_in_suite:
  "in_suite r \<Longrightarrow> in_suite (fst (run_tests_in_testsuite sops ops run_testcase r ts res))"
proof (induction ts arbitrary: r res)
  case (Cons t ts)
  obtain r1 ok where r1: "report_test ops r t = (r1, ok)" by (meson surj_pair)
  obtain r2 rc where r2: "run_testcases_in_test ops run_testcase r1 (get_testcases sops t) 0 = (r2, rc)"
    by (meson surj_pair)
  from report_test [OF Cons.prems r1] testcases_in_test [of r1 "get_testcases sops t" 0] r2
    test_destroy [of r2] Cons.IH r1
  show ?case by (cases ok) (simp_all add: Let_def)
qed simp

lemma testcases_loop_state:
  assumes "if su = None then idle r else in_suite r"
    and "run_testcases_loop sops ops run_testcase r su cs res = (r', rc, op)"
  shows "if op then in_suite r' else idle r'"
  using assms
proof (induction "length cs" arbitrary: r su cs res rule: less_induct)
  case less
  show ?case
  proof (cases cs)
    case Nil
    with less.prems show ?thesis by (auto split: if_splits)
  next
    case (Cons c cs')
    let ?t = "get_test sops c" and ?s = "get_testsuite sops (get_test sops c)"
    obtain r1 ok where r1: "(if Some ?s \<noteq> su
        then report_testsuite ops (if su \<noteq> None then testsuite_destroy ops r else r) ?s else (r, True)) = (r1, ok)"
      by (meson surj_pair)
    have s1: "if ok then in_suite r1 else idle r1"
    proof (cases "Some ?s = su")
      case False
      have "idle (if su \<noteq> None then testsuite_destroy ops r else r)"
        using less.prems(1) testsuite_destroy [of r] by (auto split: if_splits)
      from report_testsuite [OF this] False r1 show ?thesis by auto
    qed (use less.prems(1) r1 in auto)
    obtain r2 ok2 where r2: "report_test ops r1 ?t = (r2, ok2)" by (meson surj_pair)
    let ?same = "takeWhile (\<lambda>c. get_test sops c = ?t) cs'" and ?rest = "dropWhile (\<lambda>c. get_test sops c = ?t) cs'"
    obtain r3 rc3 where r3: "run_testcases_in_test ops run_testcase r2 (c # ?same) 0 = (r3, rc3)"
      by (meson surj_pair)
    have s3: "in_suite (test_destroy ops r3)" if "ok" "ok2"
      using s1 report_test [OF _ r2] testcases_in_test [of r2 "c # ?same" 0] r3 test_destroy [of r3] that by simp
    have s2: "in_suite r2" if "ok" "\<not> ok2" using s1 report_test [OF _ r2] that by simp
    have len: "length ?rest < length cs" using Cons length_dropWhile_le [of _ cs'] by (simp add: le_imp_less_Suc)
    show ?thesis
    proof (cases "ok \<and> ok2 \<and> \<not> rc3 < 0")
      case True
      with less.prems(2) Cons r1 r2 r3
      have "run_testcases_loop sops ops run_testcase (test_destroy ops r3) (Some ?s) ?rest (res + rc3) = (r', rc, op)"
        by (simp add: Let_def)
      from less.hyps [OF len _ this] s3 True show ?thesis by simp
    next
      case False
      with less.prems(2) Cons r1 r2 r3 s1 s2 s3 show ?thesis
        by (cases ok; cases ok2) (auto simp: Let_def)
    qed
  qed
qed

lemma testcases_idle:
  "idle r \<Longrightarrow> idle (fst (runner_run_testcases alloc_ok sops ops run_testcase r cs))"
  using testcases_loop_state [of None r] testsuite_destroy
  by (auto simp: runner_run_testcases_def Let_def split: option.split prod.split if_splits)

lemma tests_loop_idle:
  "idle r \<Longrightarrow> idle (fst (run_tests_loop sops ops run_testcase r ts res))"
proof (induction "length ts" arbitrary: r ts res rule: less_induct)
  case less
  show ?case
  proof (cases ts)
    case (Cons t ts')
    let ?s = "get_testsuite sops t"
    let ?same = "takeWhile (\<lambda>u. get_testsuite sops u = ?s) ts'" and ?rest = "dropWhile (\<lambda>u. get_testsuite sops u = ?s) ts'"
    obtain r1 ok where r1: "report_testsuite ops r ?s = (r1, ok)" by (meson surj_pair)
    obtain r2 rc where r2: "run_tests_in_testsuite sops ops run_testcase r1 (t # ?same) 0 = (r2, rc)"
      by (meson surj_pair)
    have len: "length ?rest < length ts" using Cons length_dropWhile_le [of _ ts'] by (simp add: le_imp_less_Suc)
    have s1: "if ok then in_suite r1 else idle r1" using report_testsuite [OF less.prems r1] .
    have s2: "idle (testsuite_destroy ops r2)" if ok
      using s1 that tests_in_suite [of r1 sops "t # ?same" 0] r2 testsuite_destroy [of r2] by simp
    with s1 less.hyps [OF len] Cons r1 r2 show ?thesis by (cases ok) (simp_all add: Let_def)
  qed (use less.prems in simp)
qed

lemma tests_idle:
  "idle r \<Longrightarrow> idle (fst (runner_run_tests alloc_ok sops ops run_testcase r ts))"
  using tests_loop_idle by (auto simp: runner_run_tests_def split: option.split)

lemma testsuites_idle:
  "idle r \<Longrightarrow> idle (fst (runner_run_testsuites sops ops run_testcase r ss res))"
proof (induction ss arbitrary: r res)
  case (Cons s ss)
  obtain r1 ok where r1: "report_testsuite ops r s = (r1, ok)" by (meson surj_pair)
  obtain r2 rc where r2: "run_tests_in_testsuite sops ops run_testcase r1 (get_tests sops s) 0 = (r2, rc)"
    by (meson surj_pair)
  from report_testsuite [OF Cons.prems r1] tests_in_suite [of r1 sops "get_tests sops s" 0] r2
    testsuite_destroy [of r2] Cons.IH r1
  show ?case by (cases ok) (simp_all add: Let_def)
qed simp

end

section \<open>Recorded runs\<close>

text \<open>
  A reporter that records the calls it gets, in which any \<^verbatim>\<open>report_*\<close> call may fail
  (\<open>rec_replies\<close>, all succeed once it is used up), and a runner whose test cases return \<open>rcf\<close>.
\<close>

datatype ('s, 't, 'c) call =
    Report_Testsuite 's | Testsuite_Destroy
  | Report_Test 't | Test_Destroy
  | Report_Testcase 'c | Run_Testcase 'c | Testcase_Destroy

record ('s, 't, 'c) recorder =
  rec_log :: "('s, 't, 'c) call list"
  rec_replies :: "bool list"

definition rec_call :: "('s, 't, 'c) call \<Rightarrow> ('s, 't, 'c) recorder \<Rightarrow> ('s, 't, 'c) recorder" where
  "rec_call c st = st\<lparr>rec_log := rec_log st @ [c]\<rparr>"

definition rec_report :: "('s, 't, 'c) call \<Rightarrow> ('s, 't, 'c) recorder \<Rightarrow> ('s, 't, 'c) recorder \<times> bool" where
  "rec_report c st =
     (case rec_replies st of
        [] \<Rightarrow> (rec_call c st, True)
      | ok # oks \<Rightarrow> ((if ok then rec_call c else id) (st\<lparr>rec_replies := oks\<rparr>), ok))"

definition recorder_ops :: "(('s, 't, 'c) recorder, 's, 't, 'c) reporter_ops" where
  "recorder_ops =
     \<lparr>report_testsuite = (\<lambda>st s. rec_report (Report_Testsuite s) st), testsuite_destroy = rec_call Testsuite_Destroy,
      report_test = (\<lambda>st t. rec_report (Report_Test t) st), test_destroy = rec_call Test_Destroy,
      report_testcase = (\<lambda>st c. rec_report (Report_Testcase c) st), testcase_start = id,
      testcase_complete = (\<lambda>st r. st), testcase_destroy = rec_call Testcase_Destroy\<rparr>"

definition recorder_run :: "('c \<Rightarrow> int) \<Rightarrow> ('s, 't, 'c) recorder \<Rightarrow> 'c \<Rightarrow> ('s, 't, 'c) recorder \<times> int" where
  "recorder_run rcf st c = (rec_call (Run_Testcase c) st, rcf c)"

text \<open>The nesting level after a sequence of calls, \<open>None\<close> once a call comes at the wrong level.\<close>

fun call_level :: "('s, 't, 'c) call \<Rightarrow> nat option \<Rightarrow> nat option" where
  "call_level (Report_Testsuite s) (Some l) = (if l = 0 then Some 1 else None)"
| "call_level Testsuite_Destroy (Some l) = (if l = 1 then Some 0 else None)"
| "call_level (Report_Test t) (Some l) = (if l = 1 then Some 2 else None)"
| "call_level Test_Destroy (Some l) = (if l = 2 then Some 1 else None)"
| "call_level (Report_Testcase c) (Some l) = (if l = 2 then Some 3 else None)"
| "call_level (Run_Testcase c) (Some l) = (if l = 3 then Some 3 else None)"
| "call_level Testcase_Destroy (Some l) = (if l = 3 then Some 2 else None)"
| "call_level c None = None"

definition log_level :: "('s, 't, 'c) recorder \<Rightarrow> nat option" where
  "log_level st = fold call_level (rec_log st) (Some 0)"

lemma log_level_call [simp]: "log_level (rec_call c st) = call_level c (log_level st)"
  by (simp add: log_level_def rec_call_def)

lemma log_level_report:
  "rec_report c st = (st', ok) \<Longrightarrow> log_level st' = (if ok then call_level c (log_level st) else log_level st)"
  by (auto simp: rec_report_def log_level_def rec_call_def split: list.splits if_splits)

interpretation rec: reporter_contract recorder_ops "recorder_run rcf"
  "\<lambda>st. log_level st = Some 0" "\<lambda>st. log_level st = Some 1" "\<lambda>st. log_level st = Some 2"
  "\<lambda>st. log_level st = Some 3"
  for rcf :: "'c \<Rightarrow> int"
  by unfold_locales (auto simp: recorder_ops_def recorder_run_def dest!: log_level_report)

text \<open>The test cases up to and including the first one that ends in an error.\<close>

definition upto_error :: "('c \<Rightarrow> int) \<Rightarrow> 'c list \<Rightarrow> 'c list" where
  "upto_error rcf cs =
     takeWhile (\<lambda>c. 0 \<le> rcf c) cs @ take 1 (dropWhile (\<lambda>c. 0 \<le> rcf c) cs)"

definition any_error :: "('c \<Rightarrow> int) \<Rightarrow> 'c list \<Rightarrow> bool" where
  "any_error rcf cs = list_ex (\<lambda>c. rcf c < 0) cs"

definition failed_count :: "('c \<Rightarrow> int) \<Rightarrow> 'c list \<Rightarrow> int" where
  "failed_count rcf cs = int (length (filter (\<lambda>c. 0 < rcf c) cs))"

fun runs_of :: "('s, 't, 'c) call list \<Rightarrow> 'c list" where
  "runs_of [] = []"
| "runs_of (Run_Testcase c # log) = c # runs_of log"
| "runs_of (_ # log) = runs_of log"

text \<open>What a run of \<open>cs\<close> from \<open>st\<close> has to come to.\<close>

definition run_outcome ::
  "('c \<Rightarrow> int) \<Rightarrow> 'c list \<Rightarrow> ('s, 't, 'c) recorder \<Rightarrow> int \<Rightarrow> ('s, 't, 'c) recorder \<Rightarrow> int \<Rightarrow> bool" where
  "run_outcome rcf cs st res st' rc \<longleftrightarrow>
     rec_replies st' = [] \<and> runs_of (rec_log st') = runs_of (rec_log st) @ upto_error rcf cs \<and>
     rc = (if any_error rcf cs then -1 else res + failed_count rcf cs)"

lemma runs_of_append [simp]: "runs_of (xs @ ys) = runs_of xs @ runs_of ys"
  by (induction xs rule: runs_of.induct) auto

lemma upto_error_simps [simp]:
  "upto_error rcf [] = []"
  "upto_error rcf (c # cs) = c # (if rcf c < 0 then [] else upto_error rcf cs)"
  by (simp_all add: upto_error_def)

lemma upto_error_append:
  "upto_error rcf (xs @ ys) = (if any_error rcf xs then upto_error rcf xs else xs @ upto_error rcf ys)"
  by (induction xs) (auto simp: any_error_def)

lemma upto_error_all: "\<not> any_error rcf cs \<Longrightarrow> upto_error rcf cs = cs"
  by (induction cs) (auto simp: any_error_def)

lemma any_error_append [simp]: "any_error rcf (xs @ ys) \<longleftrightarrow> any_error rcf xs \<or> any_error rcf ys"
  by (simp add: any_error_def)

lemma failed_count_simps [simp]:
  "failed_count rcf [] = 0"
  "failed_count rcf (c # cs) = (if 0 < rcf c then 1 else 0) + failed_count rcf cs"
  "failed_count rcf (xs @ ys) = failed_count rcf xs + failed_count rcf ys"
  by (simp_all add: failed_count_def)

lemma failed_count_nonneg: "0 \<le> failed_count rcf cs"
  by (simp add: failed_count_def)

lemma rec_report_free: "rec_replies st = [] \<Longrightarrow> rec_report c st = (rec_call c st, True)"
  by (simp add: rec_report_def)

lemma rec_call_simps [simp]:
  "rec_replies (rec_call c st) = rec_replies st" "rec_log (rec_call c st) = rec_log st @ [c]"
  by (simp_all add: rec_call_def)

lemma recorder_ops_simps [simp]:
  "rec_replies st = [] \<Longrightarrow> report_testsuite recorder_ops st s = (rec_call (Report_Testsuite s) st, True)"
  "rec_replies st = [] \<Longrightarrow> report_test recorder_ops st t = (rec_call (Report_Test t) st, True)"
  "rec_replies st = [] \<Longrightarrow> report_testcase recorder_ops st c = (rec_call (Report_Testcase c) st, True)"
  "testsuite_destroy recorder_ops = rec_call Testsuite_Destroy" "test_destroy recorder_ops = rec_call Test_Destroy"
  "testcase_destroy recorder_ops = rec_call Testcase_Destroy"
  by (simp_all add: recorder_ops_def rec_report_free)

lemma run_in_test_outcome:
  assumes "rec_replies st = []"
  shows "case run_testcases_in_test recorder_ops (recorder_run rcf) st cs res of (st', rc) \<Rightarrow>
    run_outcome rcf cs st res st' rc"
  using assms
proof (induction cs arbitrary: st res)
  case Nil
  then show ?case by (simp add: run_outcome_def any_error_def)
next
  case (Cons c cs)
  let ?st = "rec_call Testcase_Destroy (rec_call (Run_Testcase c) (rec_call (Report_Testcase c) st))"
  show ?case
    using Cons.IH [of ?st "res + (if rcf c > 0 then 1 else 0)"] Cons.prems
    by (auto simp: run_outcome_def any_error_def recorder_run_def Let_def split: prod.splits)
qed

text \<open>Runs of parts make up a run of the whole; calls other than runs do not count.\<close>

lemma run_outcome_error:
  "run_outcome rcf xs st 0 st1 rc \<Longrightarrow> rc < 0 \<Longrightarrow> runs_of (rec_log st0) = runs_of (rec_log st)
   \<Longrightarrow> rec_replies st2 = [] \<Longrightarrow> runs_of (rec_log st2) = runs_of (rec_log st1)
   \<Longrightarrow> run_outcome rcf (xs @ ys) st0 res st2 (-1)"
  using failed_count_nonneg [of rcf xs] by (auto simp: run_outcome_def upto_error_append split: if_splits)

lemma run_outcome_append:
  "run_outcome rcf xs st 0 st1 rc1 \<Longrightarrow> \<not> rc1 < 0 \<Longrightarrow> runs_of (rec_log st0) = runs_of (rec_log st)
   \<Longrightarrow> runs_of (rec_log st2) = runs_of (rec_log st1) \<Longrightarrow> run_outcome rcf ys st2 (res + rc1) st3 rc
   \<Longrightarrow> run_outcome rcf (xs @ ys) st0 res st3 rc"
  by (auto simp: run_outcome_def upto_error_append upto_error_all split: if_splits)

lemma run_outcome_rc: "run_outcome rcf xs st 0 st1 rc \<Longrightarrow> rc < 0 \<Longrightarrow> rc = -1"
  using failed_count_nonneg [of rcf xs] by (auto simp: run_outcome_def split: if_splits)

lemma run_in_suite_outcome:
  assumes "rec_replies st = []"
  shows "case run_tests_in_testsuite sops recorder_ops (recorder_run rcf) st ts res of (st', rc) \<Rightarrow>
    run_outcome rcf (concat (map (get_testcases sops) ts)) st res st' rc"
  using assms
proof (induction ts arbitrary: st res)
  case Nil
  then show ?case by (simp add: run_outcome_def any_error_def)
next
  case (Cons t ts)
  let ?cs = "get_testcases sops t" and ?st = "rec_call (Report_Test t) st"
  obtain st1 rc where run: "run_testcases_in_test recorder_ops (recorder_run rcf) ?st ?cs 0 = (st1, rc)"
    by (meson surj_pair)
  have o: "run_outcome rcf ?cs ?st 0 st1 rc" using run_in_test_outcome [of ?st rcf ?cs 0] Cons.prems run by simp
  then have st1: "rec_replies st1 = []" by (simp add: run_outcome_def)
  show ?case
  proof (cases "rc < 0")
    case True
    with o run Cons.prems st1 show ?thesis
      using run_outcome_rc [OF o] by (simp add: Let_def) (rule run_outcome_error [OF o]; simp)
  next
    case False
    then show ?thesis
      using Cons.prems run st1 Cons.IH [of "rec_call Test_Destroy st1" "res + rc"]
      by (auto simp: Let_def split: prod.splits
          intro!: run_outcome_append [OF o False, where ?st2.0 = "rec_call Test_Destroy st1"])
  qed
qed

lemma takeWhile_dropWhile_concat:
  "concat (map f (takeWhile P xs)) @ concat (map f (dropWhile P xs)) = concat (map f xs)"
  by (metis concat_append map_append takeWhile_dropWhile_id)

lemma run_tests_loop_outcome:
  assumes "rec_replies st = []"
  shows "case run_tests_loop sops recorder_ops (recorder_run rcf) st ts res of (st', rc) \<Rightarrow>
    run_outcome rcf (concat (map (get_testcases sops) ts)) st res st' rc"
  using assms
proof (induction "length ts" arbitrary: st ts res rule: less_induct)
  case less
  show ?case
  proof (cases ts)
    case Nil
    with less.prems show ?thesis by (simp add: run_outcome_def any_error_def)
  next
    case (Cons t ts')
    let ?s = "get_testsuite sops t"
    let ?same = "takeWhile (\<lambda>u. get_testsuite sops u = ?s) ts'" and ?rest = "dropWhile (\<lambda>u. get_testsuite sops u = ?s) ts'"
    let ?cs = "concat (map (get_testcases sops) (t # ?same))" and ?ds = "concat (map (get_testcases sops) ?rest)"
    let ?st = "rec_call (Report_Testsuite ?s) st"
    have cs: "concat (map (get_testcases sops) ts) = ?cs @ ?ds"
      using Cons takeWhile_dropWhile_concat [of "get_testcases sops" _ ts'] by simp
    obtain st1 rc where run: "run_tests_in_testsuite sops recorder_ops (recorder_run rcf) ?st (t # ?same) 0 = (st1, rc)"
      by (meson surj_pair)
    have o: "run_outcome rcf ?cs ?st 0 st1 rc"
      using run_in_suite_outcome [of ?st rcf sops "t # ?same" 0] less.prems run by simp
    then have st1: "rec_replies st1 = []" by (simp add: run_outcome_def)
    have len: "length ?rest < length ts" using Cons length_dropWhile_le [of _ ts'] by (simp add: le_imp_less_Suc)
    show ?thesis
    proof (cases "rc < 0")
      case True
      have "run_outcome rcf (?cs @ ?ds) st res (rec_call Testsuite_Destroy st1) (-1)"
        using st1 by (intro run_outcome_error [OF o True]) simp_all
      with True Cons run less.prems show ?thesis unfolding cs by (simp add: Let_def)
    next
      case False
      obtain st2 rc2 where rest: "run_tests_loop sops recorder_ops (recorder_run rcf) (rec_call Testsuite_Destroy st1) ?rest (res + rc) = (st2, rc2)"
        by (meson surj_pair)
      have "run_outcome rcf ?ds (rec_call Testsuite_Destroy st1) (res + rc) st2 rc2"
        using less.hyps [OF len, of "rec_call Testsuite_Destroy st1" "res + rc"] st1 rest by simp
      then have "run_outcome rcf (?cs @ ?ds) st res st2 rc2"
        by (intro run_outcome_append [OF o False]) simp_all
      with False Cons run rest less.prems show ?thesis unfolding cs by (simp add: Let_def)
    qed
  qed
qed

lemma run_testsuites_outcome:
  assumes "rec_replies st = []"
  shows "case runner_run_testsuites sops recorder_ops (recorder_run rcf) st ss res of (st', rc) \<Rightarrow>
    run_outcome rcf (concat (map (get_testcases sops) (concat (map (get_tests sops) ss)))) st res st' rc"
  using assms
proof (induction ss arbitrary: st res)
  case Nil
  then show ?case by (simp add: run_outcome_def any_error_def)
next
  case (Cons s ss)
  let ?cs = "concat (map (get_testcases sops) (get_tests sops s))" and ?st = "rec_call (Report_Testsuite s) st"
  obtain st1 rc where run: "run_tests_in_testsuite sops recorder_ops (recorder_run rcf) ?st (get_tests sops s) 0 = (st1, rc)"
    by (meson surj_pair)
  have o: "run_outcome rcf ?cs ?st 0 st1 rc"
    using run_in_suite_outcome [of ?st rcf sops "get_tests sops s" 0] Cons.prems run by simp
  then have st1: "rec_replies st1 = []" by (simp add: run_outcome_def)
  show ?case
  proof (cases "rc < 0")
    case True
    with o run Cons.prems st1 show ?thesis
      using run_outcome_rc [OF o] by (simp add: Let_def) (rule run_outcome_error [OF o]; simp)
  next
    case False
    then show ?thesis
      using Cons.prems run st1 Cons.IH [of "rec_call Testsuite_Destroy st1" "res + rc"]
      by (auto simp: Let_def split: prod.splits
          intro!: run_outcome_append [OF o False, where ?st2.0 = "rec_call Testsuite_Destroy st1"])
  qed
qed

lemma run_testcases_loop_outcome:
  assumes "rec_replies st = []"
  shows "case run_testcases_loop sops recorder_ops (recorder_run rcf) st su cs res of (st', rc, op) \<Rightarrow>
    run_outcome rcf cs st res st' rc"
  using assms
proof (induction "length cs" arbitrary: st su cs res rule: less_induct)
  case less
  show ?case
  proof (cases cs)
    case Nil
    with less.prems show ?thesis by (simp add: run_outcome_def any_error_def)
  next
    case (Cons c cs')
    let ?t = "get_test sops c" and ?s = "get_testsuite sops (get_test sops c)"
    let ?same = "takeWhile (\<lambda>d. get_test sops d = ?t) cs'" and ?rest = "dropWhile (\<lambda>d. get_test sops d = ?t) cs'"
    let ?st = "if su \<noteq> None then rec_call Testsuite_Destroy st else st"
    define st0 where "st0 = (if Some ?s \<noteq> su then rec_call (Report_Testsuite ?s) ?st else st)"
    have st0: "rec_replies st0 = []" "runs_of (rec_log st) = runs_of (rec_log (rec_call (Report_Test ?t) st0))"
      using less.prems by (simp_all add: st0_def)
    have rep: "(if Some ?s \<noteq> su then report_testsuite recorder_ops
        (if su \<noteq> None then testsuite_destroy recorder_ops st else st) ?s else (st, True)) = (st0, True)"
      using less.prems by (simp add: st0_def)
    obtain st1 rc where run: "run_testcases_in_test recorder_ops (recorder_run rcf)
        (rec_call (Report_Test ?t) st0) (c # ?same) 0 = (st1, rc)" by (meson surj_pair)
    have o: "run_outcome rcf (c # ?same) (rec_call (Report_Test ?t) st0) 0 st1 rc"
      using run_in_test_outcome [of "rec_call (Report_Test ?t) st0" rcf "c # ?same" 0] st0 run by simp
    then have st1: "rec_replies st1 = []" by (simp add: run_outcome_def)
    have len: "length ?rest < length cs" using Cons length_dropWhile_le [of _ cs'] by (simp add: le_imp_less_Suc)
    have cs: "cs = (c # ?same) @ ?rest" using Cons by simp
    show ?thesis
    proof (cases "rc < 0")
      case True
      have "run_outcome rcf ((c # ?same) @ ?rest) st res (rec_call Test_Destroy st1) (-1)"
        using st1 st0 by (intro run_outcome_error [OF o True]) simp_all
      with True Cons run rep st0(1) show ?thesis unfolding cs [symmetric] by (simp add: Let_def)
    next
      case False
      obtain st2 rc2 op where rest: "run_testcases_loop sops recorder_ops (recorder_run rcf)
          (rec_call Test_Destroy st1) (Some ?s) ?rest (res + rc) = (st2, rc2, op)" by (metis prod_cases3)
      have "run_outcome rcf ?rest (rec_call Test_Destroy st1) (res + rc) st2 rc2"
        using less.hyps [OF len, of "rec_call Test_Destroy st1" "res + rc" "Some ?s"] st1 rest by simp
      then have "run_outcome rcf ((c # ?same) @ ?rest) st res st2 rc2"
        using st0 by (intro run_outcome_append [OF o False]) simp_all
      with False Cons run rest rep st0(1) show ?thesis unfolding cs [symmetric] by (simp add: Let_def)
    qed
  qed
qed

lemma run_testcases_recorded:
  "case runner_run_testcases True sops recorder_ops (recorder_run rcf)
      \<lparr>rec_log = [], rec_replies = []\<rparr> testcases of (st, rc) \<Rightarrow>
    runs_of (rec_log st) = upto_error rcf (group_testcases (get_test sops) (get_testsuite sops) testcases) \<and>
    rc = (if any_error rcf testcases then -1 else failed_count rcf testcases)"
proof (cases "testcases = []")
  case True
  then show ?thesis by (simp add: runner_run_testcases_def any_error_def)
next
  case False
  let ?cs = "group_testcases (get_test sops) (get_testsuite sops) testcases"
  have perm: "mset ?cs = mset testcases" by (rule mset_group_testcases)
  have same: "any_error rcf ?cs = any_error rcf testcases" "failed_count rcf ?cs = failed_count rcf testcases"
    using perm [THEN arg_cong [where f = set_mset]] perm [THEN arg_cong [where f = "filter_mset (\<lambda>c. 0 < rcf c)"]]
    by (auto simp: any_error_def failed_count_def list_ex_iff) (metis mset_filter size_mset)
  show ?thesis
    using run_testcases_loop_outcome [of "\<lparr>rec_log = [], rec_replies = []\<rparr>" rcf ?cs 0 sops None] False same
    by (auto simp: runner_run_testcases_def repartition_testcases_eq run_outcome_def Let_def split: prod.splits)
qed

lemma run_tests_recorded:
  "(case runner_run_tests True sops recorder_ops (recorder_run rcf) \<lparr>rec_log = [], rec_replies = []\<rparr> tests
    of (st, rc) \<Rightarrow>
      let cs = concat (map (get_testcases sops) (group_by_first (get_testsuite sops) tests))
      in runs_of (rec_log st) = upto_error rcf cs \<and>
         rc = (if any_error rcf cs then -1 else failed_count rcf cs)) \<and>
   (case runner_run_testsuites sops recorder_ops (recorder_run rcf) \<lparr>rec_log = [], rec_replies = []\<rparr>
      testsuites 0 of (st, rc) \<Rightarrow>
      let cs = concat (map (get_testcases sops) (concat (map (get_tests sops) testsuites)))
      in runs_of (rec_log st) = upto_error rcf cs \<and>
         rc = (if any_error rcf cs then -1 else failed_count rcf cs))"
  using run_testsuites_outcome [of "\<lparr>rec_log = [], rec_replies = []\<rparr>" rcf sops testsuites 0]
    run_tests_loop_outcome [of "\<lparr>rec_log = [], rec_replies = []\<rparr>" rcf sops
      "group_by_first (get_testsuite sops) tests" 0]
  by (auto simp: runner_run_tests_def repartition_tests_eq run_outcome_def Let_def any_error_def split: prod.splits)

section \<open>Properties\<close>

text \<open>
  C20: Every run keeps the calling discipline of the reporter interface, whichever report call
  fails and whatever the test cases return: each suite, test and test case reporter that is
  obtained is used at its own level and destroyed exactly once, innermost first.
\<close>

theorem run_calls_nested:
  "log_level (fst (runner_run_testcases alloc_ok sops recorder_ops (recorder_run rcf)
      \<lparr>rec_log = [], rec_replies = replies\<rparr> testcases)) = Some 0 \<and>
   log_level (fst (runner_run_tests alloc_ok sops recorder_ops (recorder_run rcf)
      \<lparr>rec_log = [], rec_replies = replies\<rparr> tests)) = Some 0 \<and>
   log_level (fst (runner_run_testsuites sops recorder_ops (recorder_run rcf)
      \<lparr>rec_log = [], rec_replies = replies\<rparr> testsuites 0)) = Some 0"
proof -
  have "log_level \<lparr>rec_log = [], rec_replies = replies\<rparr> = Some 0" by (simp add: log_level_def)
  then show ?thesis by (intro conjI rec.testcases_idle rec.tests_idle rec.testsuites_idle)
qed

text \<open>
  C21: \<^verbatim>\<open>runner_run_testcases\<close>, \<^verbatim>\<open>runner_run_tests\<close> and \<^verbatim>\<open>runner_run_testsuites\<close> run every test case they are given,
  directly or in tests and suites, once and in the grouped order, and return how many failed; a test case that
  ends in an error stops the run there and makes it return -1.
\<close>

theorem run_results:
  "(case runner_run_testcases True sops recorder_ops (recorder_run rcf) \<lparr>rec_log = [], rec_replies = []\<rparr> testcases
    of (st, rc) \<Rightarrow>
      runs_of (rec_log st) = upto_error rcf (group_testcases (get_test sops) (get_testsuite sops) testcases) \<and>
      rc = (if any_error rcf testcases then -1 else failed_count rcf testcases)) \<and>
   (case runner_run_tests True sops recorder_ops (recorder_run rcf) \<lparr>rec_log = [], rec_replies = []\<rparr> tests
    of (st, rc) \<Rightarrow>
      let cs = concat (map (get_testcases sops) (group_by_first (get_testsuite sops) tests))
      in runs_of (rec_log st) = upto_error rcf cs \<and>
         rc = (if any_error rcf cs then -1 else failed_count rcf cs)) \<and>
   (case runner_run_testsuites sops recorder_ops (recorder_run rcf) \<lparr>rec_log = [], rec_replies = []\<rparr>
      testsuites 0 of (st, rc) \<Rightarrow>
      let cs = concat (map (get_testcases sops) (concat (map (get_tests sops) testsuites)))
      in runs_of (rec_log st) = upto_error rcf cs \<and>
         rc = (if any_error rcf cs then -1 else failed_count rcf cs))"
  by (intro conjI run_testcases_recorded run_tests_recorded [THEN conjunct1] run_tests_recorded [THEN conjunct2])

end
