(* ===== verification/Test_Execution.thy ===== *)
theory Test_Execution
  imports Failure
begin

text \<open>
  The execution of one test case: \<^verbatim>\<open>testcase_op_execute__\<close> and the dynamic operations of
  \<^verbatim>\<open>src/exec/loader.c\<close>, with the stubs of \<^verbatim>\<open>src/tests/stub.c\<close> through which test code reaches
  them. The code of a test module is not part of the program; a function of it is what it does to
  the framework, a list of actions. \<^verbatim>\<open>ctest_fail\<close> and \<^verbatim>\<open>ctest_skip\<close> do not return, so running
  actions gives either a normal return or the way the test case ended. A signal is an action only
  if it ends the test case, because a handler is called that does not return or because the process
  is killed; one that is ignored is not seen by the framework.
\<close>

section \<open>Definitions\<close>

datatype action =
    Act_Write stream "byte list"
  | Act_Report string cint string
  | Act_Fail string cint string
  | Act_Skip string cint string
  | Act_Signal cint

datatype abort_type =
    CTEST_DYNAMIC_OPS_ABORT_NONE
  | CTEST_DYNAMIC_OPS_ABORT_FAIL
  | CTEST_DYNAMIC_OPS_ABORT_SKIP

text \<open>How a test case ends: the last call of a hook, or the signal that ended it.\<close>

datatype ending =
    On_Skip "ctest_failure option"
  | On_Failure "ctest_failure option"
  | On_Signal cint

datatype exec_call =
    Stage_Changed ctest_stage_t
  | Call_Setup
  | Call_Test
  | Call_Teardown
  | Free_Fixture

text \<open>
  \<^verbatim>\<open>loader_dynamic_ops_t__\<close> while a test case runs, with what the test case has done so far: the calls
  made, the output written, and whether the module's dynamic operations pointer refers to us
  (\<open>dyn_hooked\<close>). \<open>dyn_alloc_ok\<close> says whether memory for a failure is available.
\<close>

record dynamic_ops =
  dyn_hooked :: bool
  dyn_failure :: "ctest_failure option"
  dyn_stage :: ctest_stage_t
  dyn_teardown :: "action list option"
  dyn_abort_type :: abort_type
  dyn_free_fixture :: bool
  dyn_alloc_ok :: bool
  dyn_calls :: "exec_call list"
  dyn_output :: writes

definition add_call :: "exec_call \<Rightarrow> dynamic_ops \<Rightarrow> dynamic_ops" where
  "add_call c d = d\<lparr>dyn_calls := dyn_calls d @ [c]\<rparr>"

definition dynamic_ops_op_report_failure :: "dynamic_ops \<Rightarrow> string \<Rightarrow> cint \<Rightarrow> string \<Rightarrow> dynamic_ops" where
  "dynamic_ops_op_report_failure d file line text =
     (if dyn_failure d = None
      then d\<lparr>dyn_failure :=
        (if dyn_alloc_ok d
         then Some \<lparr>fl_stage = dyn_stage d, fl_description = Some text,
                    fl_location = Some \<lparr>loc_filename = Some file, loc_line = line\<rparr>, fl_stacktrace = None\<rparr>
         else None)\<rparr>
      else d)"

text \<open>The end of \<^verbatim>\<open>dynamic_ops_abort__\<close>, once the teardown function has returned.\<close>

definition dynamic_ops_abort_tail :: "dynamic_ops \<Rightarrow> dynamic_ops \<times> ending" where
  "dynamic_ops_abort_tail d =
     (let d = (if dyn_free_fixture d then add_call Free_Fixture (d\<lparr>dyn_free_fixture := False\<rparr>) else d);
          d = d\<lparr>dyn_hooked := False\<rparr>;
          failure = dyn_failure d;
          d = d\<lparr>dyn_failure := None\<rparr>
      in case dyn_abort_type d of
           CTEST_DYNAMIC_OPS_ABORT_SKIP \<Rightarrow> (d, On_Skip failure)
         | _ \<Rightarrow> (d, On_Failure failure))"

text \<open>
  Running actions (\<open>Inr\<close>: the list of a function's actions) and aborting (\<open>Inl\<close>: the abort type)
  call each other: an abort runs the teardown function, which may abort again.
\<close>

function exec_step :: "abort_type + action list \<Rightarrow> dynamic_ops \<Rightarrow> dynamic_ops \<times> ending option" where
  "exec_step (Inl abort_type) d =
     (let d = (if dyn_abort_type d = CTEST_DYNAMIC_OPS_ABORT_NONE then d\<lparr>dyn_abort_type := abort_type\<rparr> else d);
          (d, ending) = (case dyn_teardown d of
             Some teardown \<Rightarrow> exec_step (Inr teardown) (add_call Call_Teardown (d\<lparr>dyn_teardown := None\<rparr>))
           | None \<Rightarrow> (d, None))
      in case ending of
           Some e \<Rightarrow> (d, Some e)
         | None \<Rightarrow> let (d, e) = dynamic_ops_abort_tail d in (d, Some e))"
| "exec_step (Inr []) d = (d, None)"
| "exec_step (Inr (Act_Write s bs # acts)) d =
     exec_step (Inr acts) (d\<lparr>dyn_output := dyn_output d @ map (Pair s) bs\<rparr>)"
| "exec_step (Inr (Act_Report file line text # acts)) d =
     exec_step (Inr acts) (dynamic_ops_op_report_failure d file line text)"
| "exec_step (Inr (Act_Fail file line text # acts)) d =
     exec_step (Inl CTEST_DYNAMIC_OPS_ABORT_FAIL) (dynamic_ops_op_report_failure d file line text)"
| "exec_step (Inr (Act_Skip file line text # acts)) d =
     exec_step (Inl CTEST_DYNAMIC_OPS_ABORT_SKIP) (dynamic_ops_op_report_failure d file line text)"
| "exec_step (Inr (Act_Signal signum # acts)) d = (d, Some (On_Signal signum))"
  by pat_completeness auto
termination
  by (relation "measures [\<lambda>(x, d). if dyn_teardown d = None then 0 else 1,
        \<lambda>(x, d). case x of Inl _ \<Rightarrow> 0 | Inr acts \<Rightarrow> Suc (length acts)]")
    (auto simp: add_call_def dynamic_ops_op_report_failure_def split: if_splits)

abbreviation run_actions :: "action list \<Rightarrow> dynamic_ops \<Rightarrow> dynamic_ops \<times> ending option" where
  "run_actions acts \<equiv> exec_step (Inr acts)"

definition dynamic_ops_abort :: "abort_type \<Rightarrow> dynamic_ops \<Rightarrow> dynamic_ops \<times> ending option" where
  "dynamic_ops_abort abort_type d = exec_step (Inl abort_type) d"

text \<open>The fixture of a test and the test function applied to its data.\<close>

record fixture_provider =
  fx_setup :: "action list option"
  fx_teardown :: "action list option"
  fx_size :: size_t

definition default_fixture_provider :: fixture_provider where
  "default_fixture_provider = \<lparr>fx_setup = None, fx_teardown = None, fx_size = 0\<rparr>"

text \<open>One function of the module is called, if there is one and the test case has not ended.\<close>

definition call_function ::
  "exec_call \<Rightarrow> action list option \<Rightarrow> dynamic_ops \<times> ending option \<Rightarrow> dynamic_ops \<times> ending option" where
  "call_function c f s =
     (case s of
        (d, Some e) \<Rightarrow> (d, Some e)
      | (d, None) \<Rightarrow> (case f of Some acts \<Rightarrow> run_actions acts (add_call c d) | None \<Rightarrow> (d, None)))"

definition enter_stage :: "ctest_stage_t \<Rightarrow> dynamic_ops \<times> ending option \<Rightarrow> dynamic_ops \<times> ending option" where
  "enter_stage stage s =
     (case s of
        (d, Some e) \<Rightarrow> (d, Some e)
      | (d, None) \<Rightarrow> (add_call (Stage_Changed stage) (d\<lparr>dyn_stage := stage\<rparr>), None))"

text \<open>
  The end of \<^verbatim>\<open>testcase_op_execute__\<close>, once the teardown stage is entered by a test case that has
  not been aborted.
\<close>

definition finish_testcase :: "dynamic_ops \<Rightarrow> dynamic_ops \<times> ending option" where
  "finish_testcase d =
     (let s = call_function Call_Teardown (dyn_teardown d) (d\<lparr>dyn_teardown := None\<rparr>, None);
          s = (case s of
                 (d, Some e) \<Rightarrow> (d, Some e)
               | (d, None) \<Rightarrow> if dyn_failure d \<noteq> None
                              then dynamic_ops_abort CTEST_DYNAMIC_OPS_ABORT_FAIL d else (d, None))
      in case s of
           (d, Some e) \<Rightarrow> (d, Some e)
         | (d, None) \<Rightarrow>
             (let d = d\<lparr>dyn_hooked := False\<rparr>
              in (if dyn_free_fixture d then add_call Free_Fixture d else d, None)))"

text \<open>
  \<open>hookable\<close>: the module has a dynamic operations pointer. The stubs reach the framework only through it, so a module
  without one has no way to fail or skip a test (the loader says as much); its functions are then lists of
  \<open>Act_Write\<close> and \<open>Act_Signal\<close>. \<open>fixture_ok\<close>: the allocation of a large
  fixture succeeds; \<open>oom\<close>: the text of the failure reported when it does not.
\<close>

definition testcase_op_execute ::
  "bool \<Rightarrow> bool \<Rightarrow> bool \<Rightarrow> string \<Rightarrow> fixture_provider option \<Rightarrow> action list \<Rightarrow> dynamic_ops \<times> ending option" where
  "testcase_op_execute hookable alloc_ok fixture_ok oom provider caller =
     (let fixture_provider = (case provider of Some p \<Rightarrow> p | None \<Rightarrow> default_fixture_provider);
          d = \<lparr>dyn_hooked = hookable, dyn_failure = None, dyn_stage = CTEST_STAGE_SETUP,
               dyn_teardown = fx_teardown fixture_provider,
               dyn_abort_type = CTEST_DYNAMIC_OPS_ABORT_NONE, dyn_free_fixture = False,
               dyn_alloc_ok = alloc_ok, dyn_calls = [], dyn_output = []\<rparr>;
          s = enter_stage CTEST_STAGE_SETUP (d, None)
      in if fx_size fixture_provider > 128 \<and> \<not> fixture_ok
         then (fst s, Some (On_Failure (if alloc_ok
                then Some \<lparr>fl_stage = CTEST_STAGE_SETUP, fl_description = Some oom,
                           fl_location = None, fl_stacktrace = None\<rparr>
                else None)))
         else let s = ((fst s)\<lparr>dyn_free_fixture := fx_size fixture_provider > 128\<rparr>, None);
                  s = call_function Call_Setup (fx_setup fixture_provider) s;
                  s = enter_stage CTEST_STAGE_EXECUTION s;
                  s = call_function Call_Test (Some caller) s;
                  s = enter_stage CTEST_STAGE_TEARDOWN s
              in case s of
                   (d, Some e) \<Rightarrow> (d, Some e)
                 | (d, None) \<Rightarrow> finish_testcase d)"

section \<open>What actions come to\<close>

fun action_abort :: "action \<Rightarrow> abort_type option" where
  "action_abort (Act_Fail file line text) = Some CTEST_DYNAMIC_OPS_ABORT_FAIL"
| "action_abort (Act_Skip file line text) = Some CTEST_DYNAMIC_OPS_ABORT_SKIP"
| "action_abort _ = None"

fun action_failure :: "ctest_stage_t \<Rightarrow> action \<Rightarrow> ctest_failure option" where
  "action_failure stage (Act_Write s bs) = None"
| "action_failure stage (Act_Signal signum) = None"
| "action_failure stage (Act_Report file line text) =
     Some \<lparr>fl_stage = stage, fl_description = Some text,
           fl_location = Some \<lparr>loc_filename = Some file, loc_line = line\<rparr>, fl_stacktrace = None\<rparr>"
| "action_failure stage (Act_Fail file line text) =
     Some \<lparr>fl_stage = stage, fl_description = Some text,
           fl_location = Some \<lparr>loc_filename = Some file, loc_line = line\<rparr>, fl_stacktrace = None\<rparr>"
| "action_failure stage (Act_Skip file line text) =
     Some \<lparr>fl_stage = stage, fl_description = Some text,
           fl_location = Some \<lparr>loc_filename = Some file, loc_line = line\<rparr>, fl_stacktrace = None\<rparr>"

text \<open>The first result among a list.\<close>

fun first_some :: "('a \<Rightarrow> 'b option) \<Rightarrow> 'a list \<Rightarrow> 'b option" where
  "first_some f [] = None"
| "first_some f (x # xs) = (case f x of Some y \<Rightarrow> Some y | None \<Rightarrow> first_some f xs)"

definition no_signal :: "action list \<Rightarrow> bool" where
  "no_signal acts = list_all (\<lambda>a. case a of Act_Signal signum \<Rightarrow> False | _ \<Rightarrow> True) acts"

definition end_of :: "abort_type \<Rightarrow> ctest_failure option \<Rightarrow> ending" where
  "end_of type failure = (if type = CTEST_DYNAMIC_OPS_ABORT_SKIP then On_Skip failure else On_Failure failure)"

definition failure_after :: "dynamic_ops \<Rightarrow> action list \<Rightarrow> ctest_failure option" where
  "failure_after d acts =
     (if dyn_failure d \<noteq> None then dyn_failure d
      else if dyn_alloc_ok d then first_some (action_failure (dyn_stage d)) acts else None)"

text \<open>The failure can no longer change: there is one, or none can be made.\<close>

definition settled :: "dynamic_ops \<Rightarrow> bool" where
  "settled d \<longleftrightarrow> dyn_failure d \<noteq> None \<or> \<not> dyn_alloc_ok d"

definition effective_abort :: "dynamic_ops \<Rightarrow> abort_type \<Rightarrow> abort_type" where
  "effective_abort d type =
     (if dyn_abort_type d = CTEST_DYNAMIC_OPS_ABORT_NONE then type else dyn_abort_type d)"

definition abort_calls :: "dynamic_ops \<Rightarrow> exec_call list" where
  "abort_calls d =
     (if dyn_teardown d \<noteq> None then [Call_Teardown] else []) @
     (if dyn_free_fixture d then [Free_Fixture] else [])"

text \<open>The outcome of an abort of type \<open>type\<close> in \<open>d\<close> that reports \<open>failure\<close>.\<close>

definition aborted ::
  "dynamic_ops \<Rightarrow> abort_type \<Rightarrow> ctest_failure option \<Rightarrow> dynamic_ops \<times> ending option \<Rightarrow> bool" where
  "aborted d type failure s \<longleftrightarrow>
     snd s = Some (end_of (effective_abort d type) failure) \<and> \<not> dyn_hooked (fst s) \<and>
     dyn_calls (fst s) = dyn_calls d @ abort_calls d"

lemma report_failure_simps [simp]:
  "dyn_teardown (dynamic_ops_op_report_failure d f l t) = dyn_teardown d"
  "dyn_abort_type (dynamic_ops_op_report_failure d f l t) = dyn_abort_type d"
  "dyn_free_fixture (dynamic_ops_op_report_failure d f l t) = dyn_free_fixture d"
  "dyn_calls (dynamic_ops_op_report_failure d f l t) = dyn_calls d"
  "dyn_stage (dynamic_ops_op_report_failure d f l t) = dyn_stage d"
  "dyn_alloc_ok (dynamic_ops_op_report_failure d f l t) = dyn_alloc_ok d"
  "settled (dynamic_ops_op_report_failure d f l t)"
  by (simp_all add: dynamic_ops_op_report_failure_def settled_def)

lemma report_failure_after:
  "dyn_failure (dynamic_ops_op_report_failure d f l t) = failure_after d (Act_Fail f l t # acts)"
  "dyn_failure (dynamic_ops_op_report_failure d f l t) = failure_after d (Act_Skip f l t # acts)"
  "failure_after (dynamic_ops_op_report_failure d f l t) acts = failure_after d (Act_Report f l t # acts)"
  by (auto simp: dynamic_ops_op_report_failure_def failure_after_def)

lemma settled_failure_after: "settled d \<Longrightarrow> failure_after d acts = dyn_failure d"
  by (auto simp: settled_def failure_after_def)

lemma no_signal_simps [simp]:
  "no_signal []" "no_signal (Act_Write s bs # acts) = no_signal acts"
  "no_signal (Act_Report f l t # acts) = no_signal acts" "no_signal (Act_Fail f l t # acts) = no_signal acts"
  "no_signal (Act_Skip f l t # acts) = no_signal acts" "\<not> no_signal (Act_Signal n # acts)"
  by (simp_all add: no_signal_def)

text \<open>
  Actions that do not abort return, having kept the first failure; an abort ends the test case
  with that failure and the type of the first abort, and runs the teardown function once.
\<close>

lemma exec_step_outcome:
  assumes "opt_all no_signal (dyn_teardown d)"
    and "case x of Inl type \<Rightarrow> settled d \<and> type \<noteq> CTEST_DYNAMIC_OPS_ABORT_NONE | Inr acts \<Rightarrow> no_signal acts"
  shows "case x of
      Inl type \<Rightarrow> aborted d type (dyn_failure d) (exec_step x d)
    | Inr acts \<Rightarrow>
        (case first_some action_abort acts of
           None \<Rightarrow> \<exists>out. exec_step x d = (d\<lparr>dyn_output := out, dyn_failure := failure_after d acts\<rparr>, None)
         | Some type \<Rightarrow> aborted d type (failure_after d acts) (exec_step x d))"
  using assms
proof (induction x d rule: exec_step.induct)
  case (1 type d)
  define d0 where "d0 = (if dyn_abort_type d = CTEST_DYNAMIC_OPS_ABORT_NONE then d\<lparr>dyn_abort_type := type\<rparr> else d)"
  have d0: "dyn_teardown d0 = dyn_teardown d" "settled d0" "dyn_failure d0 = dyn_failure d" "dyn_calls d0 = dyn_calls d"
      "dyn_free_fixture d0 = dyn_free_fixture d" "dyn_abort_type d0 = effective_abort d type"
      "effective_abort d type \<noteq> CTEST_DYNAMIC_OPS_ABORT_NONE"
    using 1(3) by (auto simp: d0_def effective_abort_def settled_def)
  have tail: "aborted d type (dyn_failure d) (case dynamic_ops_abort_tail e of (d, e) \<Rightarrow> (d, Some e))"
    if "dyn_failure e = dyn_failure d" "dyn_abort_type e = effective_abort d type"
       "dyn_free_fixture e = dyn_free_fixture d"
       "dyn_calls e = dyn_calls d @ (if dyn_teardown d \<noteq> None then [Call_Teardown] else [])" for e
    using that
    by (cases "dyn_abort_type e")
      (auto simp: aborted_def dynamic_ops_abort_tail_def end_of_def abort_calls_def add_call_def Let_def)
  show ?case
  proof (cases "dyn_teardown d")
    case None
    then show ?thesis
      using d0 tail [of d0] by (simp add: d0_def [symmetric] Let_def)
  next
    case (Some td)
    let ?d1 = "add_call Call_Teardown (d0\<lparr>dyn_teardown := None\<rparr>)"
    have d1: "settled ?d1" "dyn_failure ?d1 = dyn_failure d" "dyn_teardown ?d1 = None"
        "dyn_abort_type ?d1 = effective_abort d type" "dyn_free_fixture ?d1 = dyn_free_fixture d"
        "dyn_calls ?d1 = dyn_calls d @ [Call_Teardown]"
      using d0 by (auto simp: add_call_def settled_def)
    have IH: "case first_some action_abort td of
        None \<Rightarrow> \<exists>out. run_actions td ?d1 = (?d1\<lparr>dyn_output := out, dyn_failure := dyn_failure d\<rparr>, None)
      | Some ty \<Rightarrow> aborted ?d1 ty (dyn_failure d) (run_actions td ?d1)"
      using 1(1) [OF d0_def, of td] Some d0(1) 1(2) d1(1-3) settled_failure_after [OF d1(1)]
      by (simp split: option.splits)
    show ?thesis
    proof (cases "first_some action_abort td")
      case None
      with IH obtain out where "run_actions td ?d1 = (?d1\<lparr>dyn_output := out, dyn_failure := dyn_failure d\<rparr>, None)"
        by auto
      then show ?thesis
        using Some d0 d1 tail [of "?d1\<lparr>dyn_output := out, dyn_failure := dyn_failure d\<rparr>"]
        by (simp add: d0_def [symmetric] Let_def)
    next
      case (Some ty)
      with IH have "aborted ?d1 ty (dyn_failure d) (run_actions td ?d1)" by simp
      then have "aborted d type (dyn_failure d) (run_actions td ?d1)" "\<exists>e. snd (run_actions td ?d1) = Some e"
        using d0(7) d1 \<open>dyn_teardown d = Some td\<close>
        by (auto simp: aborted_def effective_abort_def [of ?d1] abort_calls_def)
      then show ?thesis
        using d0(1) \<open>dyn_teardown d = Some td\<close>
        by (cases "run_actions td ?d1") (auto simp: d0_def [symmetric] Let_def)
    qed
  qed
next
  case (2 d)
  then show ?case by (auto simp: failure_after_def intro!: exI [of _ "dyn_output d"])
next
  case (3 s bs acts d)
  have "failure_after (d\<lparr>dyn_output := out\<rparr>) acts = failure_after d (Act_Write s bs # acts)"
      "aborted (d\<lparr>dyn_output := out\<rparr>) = aborted d" for out
    by (auto simp: failure_after_def aborted_def effective_abort_def abort_calls_def fun_eq_iff)
  with 3 show ?case by (auto split: option.splits)
next
  case (4 fi li tx acts d)
  let ?d = "dynamic_ops_op_report_failure d fi li tx"
  have "aborted ?d = aborted d"
    by (auto simp: aborted_def effective_abort_def abort_calls_def fun_eq_iff)
  moreover have "?d\<lparr>dyn_output := out, dyn_failure := f\<rparr> = d\<lparr>dyn_output := out, dyn_failure := f\<rparr>" for out f
    by (simp add: dynamic_ops_op_report_failure_def)
  ultimately show ?case using 4 by (simp add: report_failure_after(3) split: option.splits)
next
  case (5 fi li tx acts d)
  then show ?case
    using report_failure_after(1) [of d fi li tx acts]
    by (simp add: aborted_def effective_abort_def abort_calls_def del: exec_step.simps(1))
next
  case (6 fi li tx acts d)
  then show ?case
    using report_failure_after(2) [of d fi li tx acts]
    by (simp add: aborted_def effective_abort_def abort_calls_def del: exec_step.simps(1))
next
  case (7 signum acts d)
  then show ?case by simp
qed

declare exec_step.simps [simp del]

lemma run_actions_return:
  assumes "opt_all no_signal (dyn_teardown d)" and "no_signal acts" and "first_some action_abort acts = None"
  obtains out where "run_actions acts d = (d\<lparr>dyn_output := out, dyn_failure := failure_after d acts\<rparr>, None)"
  using exec_step_outcome [of d "Inr acts"] assms by auto

lemma run_actions_abort:
  assumes "opt_all no_signal (dyn_teardown d)" and "no_signal acts" and "first_some action_abort acts = Some type"
  shows "aborted d type (failure_after d acts) (run_actions acts d)"
  using exec_step_outcome [of d "Inr acts"] assms by auto

lemma abort_outcome:
  assumes "opt_all no_signal (dyn_teardown d)" and "settled d" and "type \<noteq> CTEST_DYNAMIC_OPS_ABORT_NONE"
  shows "aborted d type (dyn_failure d) (dynamic_ops_abort type d)"
  using exec_step_outcome [of d "Inl type"] assms by (simp add: dynamic_ops_abort_def)

lemma first_some_append: "first_some f (xs @ ys) = (case first_some f xs of Some y \<Rightarrow> Some y | None \<Rightarrow> first_some f ys)"
  by (induction xs) (auto split: option.split)

lemma first_some_map: "first_some f (map g xs) = first_some (\<lambda>x. f (g x)) xs"
  by (induction xs) (auto split: option.split)

section \<open>The verdict on a test case\<close>

definition acts_of :: "action list option \<Rightarrow> action list" where
  "acts_of f = (case f of None \<Rightarrow> [] | Some acts \<Rightarrow> acts)"

definition staged :: "fixture_provider \<Rightarrow> action list \<Rightarrow> (ctest_stage_t \<times> action) list" where
  "staged p caller =
     map (Pair CTEST_STAGE_SETUP) (acts_of (fx_setup p)) @ map (Pair CTEST_STAGE_EXECUTION) caller @
     map (Pair CTEST_STAGE_TEARDOWN) (acts_of (fx_teardown p))"

definition verdict :: "bool \<Rightarrow> fixture_provider \<Rightarrow> action list \<Rightarrow> ending option" where
  "verdict alloc_ok p caller =
     (let failure = (if alloc_ok then first_some (\<lambda>(stage, a). action_failure stage a) (staged p caller) else None)
      in case first_some (\<lambda>(stage, a). action_abort a) (staged p caller) of
           Some type \<Rightarrow> Some (end_of type failure)
         | None \<Rightarrow> if failure = None then None else Some (On_Failure failure))"

definition expected_calls :: "fixture_provider \<Rightarrow> action list \<Rightarrow> exec_call list" where
  "expected_calls p caller =
     [Stage_Changed CTEST_STAGE_SETUP] @ (if fx_setup p = None then [] else [Call_Setup]) @
     (if first_some action_abort (acts_of (fx_setup p)) \<noteq> None then []
      else [Stage_Changed CTEST_STAGE_EXECUTION, Call_Test] @
        (if first_some action_abort caller \<noteq> None then [] else [Stage_Changed CTEST_STAGE_TEARDOWN])) @
     (if fx_teardown p = None then [] else [Call_Teardown]) @
     (if fx_size p > 128 then [Free_Fixture] else [])"

lemma verdict_unfold:
  "verdict alloc_ok p caller =
     (let f = (\<lambda>stage acts. if alloc_ok then first_some (action_failure stage) acts else None);
          failure = (case f CTEST_STAGE_SETUP (acts_of (fx_setup p)) of Some x \<Rightarrow> Some x | None \<Rightarrow>
            (case f CTEST_STAGE_EXECUTION caller of Some x \<Rightarrow> Some x | None \<Rightarrow>
               f CTEST_STAGE_TEARDOWN (acts_of (fx_teardown p))))
      in case first_some action_abort (acts_of (fx_setup p)) of Some type \<Rightarrow> Some (end_of type failure) | None \<Rightarrow>
        (case first_some action_abort caller of Some type \<Rightarrow> Some (end_of type failure) | None \<Rightarrow>
          (case first_some action_abort (acts_of (fx_teardown p)) of
             Some type \<Rightarrow> Some (end_of type failure)
           | None \<Rightarrow> if failure = None then None else Some (On_Failure failure))))"
  by (auto simp: verdict_def staged_def first_some_append first_some_map Let_def split: option.split)

text \<open>An action that aborts also reports.\<close>

lemma abort_reports: "first_some action_abort acts = Some type \<Longrightarrow> first_some (action_failure stage) acts \<noteq> None"
proof (induction acts)
  case (Cons a acts)
  then show ?case by (cases a) (auto split: option.splits)
qed simp

lemma aborted_end:
  "aborted d type failure s \<Longrightarrow> dyn_abort_type d = CTEST_DYNAMIC_OPS_ABORT_NONE
   \<Longrightarrow> \<exists>d'. s = (d', Some (end_of type failure)) \<and> \<not> dyn_hooked d' \<and> dyn_calls d' = dyn_calls d @ abort_calls d"
  by (cases s) (auto simp: aborted_def effective_abort_def)

definition opt_call :: "exec_call \<Rightarrow> action list option \<Rightarrow> exec_call list" where
  "opt_call c f = (if f = None then [] else [c])"

lemma call_function_return:
  assumes "opt_all no_signal (dyn_teardown d)" and "no_signal (acts_of f)"
    and "first_some action_abort (acts_of f) = None"
  shows "\<exists>out. call_function c f (d, None)
    = (d\<lparr>dyn_calls := dyn_calls d @ opt_call c f, dyn_output := out, dyn_failure := failure_after d (acts_of f)\<rparr>, None)"
proof (cases f)
  case None
  then show ?thesis
    by (intro exI [of _ "dyn_output d"]) (simp add: call_function_def acts_of_def opt_call_def failure_after_def)
next
  case (Some acts)
  with assms run_actions_return [of "add_call c d" acts] obtain out where
    "run_actions acts (add_call c d) = (add_call c d\<lparr>dyn_output := out, dyn_failure := failure_after (add_call c d) acts\<rparr>, None)"
    by (auto simp: acts_of_def add_call_def)
  moreover have "failure_after (add_call c d) acts = failure_after d acts"
    by (simp add: failure_after_def add_call_def)
  ultimately show ?thesis using Some
    by (intro exI [of _ out]) (simp add: call_function_def acts_of_def opt_call_def add_call_def)
qed

lemma call_function_abort:
  assumes "opt_all no_signal (dyn_teardown d)" and "no_signal (acts_of f)"
    and "first_some action_abort (acts_of f) = Some type" and "dyn_abort_type d = CTEST_DYNAMIC_OPS_ABORT_NONE"
  shows "\<exists>d'. call_function c f (d, None) = (d', Some (end_of type (failure_after d (acts_of f)))) \<and>
    \<not> dyn_hooked d' \<and> dyn_calls d' = dyn_calls d @ opt_call c f @ abort_calls d"
proof (cases f)
  case None
  with assms(3) show ?thesis by (simp add: acts_of_def)
next
  case (Some acts)
  have "failure_after (add_call c d) acts = failure_after d acts" "abort_calls (add_call c d) = abort_calls d"
    by (simp_all add: failure_after_def add_call_def abort_calls_def)
  moreover have "aborted (add_call c d) type (failure_after (add_call c d) acts) (run_actions acts (add_call c d))"
    using assms Some by (intro run_actions_abort) (simp_all add: acts_of_def add_call_def)
  ultimately show ?thesis
    using aborted_end [of "add_call c d" type "failure_after d acts" "run_actions acts (add_call c d)"] Some assms(4)
    by (auto simp: call_function_def acts_of_def opt_call_def add_call_def)
qed

lemma phase_skip [simp]:
  "call_function c f (d, Some e) = (d, Some e)" "enter_stage stage (d, Some e) = (d, Some e)"
  by (simp_all add: call_function_def enter_stage_def)

lemma finish_testcase_outcome:
  assumes "opt_all no_signal (dyn_teardown d)" and "dyn_abort_type d = CTEST_DYNAMIC_OPS_ABORT_NONE"
  shows "\<exists>d'. finish_testcase d = (d',
      let failure = failure_after d (acts_of (dyn_teardown d))
      in case first_some action_abort (acts_of (dyn_teardown d)) of
           Some type \<Rightarrow> Some (end_of type failure)
         | None \<Rightarrow> if failure = None then None else Some (On_Failure failure)) \<and>
    \<not> dyn_hooked d' \<and> dyn_calls d' = dyn_calls d @ abort_calls d"
proof -
  let ?td = "dyn_teardown d" and ?d = "d\<lparr>dyn_teardown := None\<rparr>"
  have f: "failure_after ?d = failure_after d" by (simp add: failure_after_def fun_eq_iff)
  have ns: "no_signal (acts_of ?td)" using assms(1) by (cases ?td) (simp_all add: acts_of_def)
  have calls: "opt_call Call_Teardown ?td @ (if dyn_free_fixture d then [Free_Fixture] else []) = abort_calls d"
    by (simp add: opt_call_def abort_calls_def)
  show ?thesis
  proof (cases "first_some action_abort (acts_of ?td)")
    case (Some type)
    with call_function_abort [of ?d ?td type Call_Teardown] ns assms(2) f calls show ?thesis
      by (auto simp: finish_testcase_def abort_calls_def)
  next
    case None
    with call_function_return [of ?d ?td Call_Teardown] ns f obtain out where
      ret: "call_function Call_Teardown ?td (?d, None) = (?d\<lparr>dyn_calls := dyn_calls d @ opt_call Call_Teardown ?td,
         dyn_output := out, dyn_failure := failure_after d (acts_of ?td)\<rparr>, None)"
      by auto
    let ?e = "?d\<lparr>dyn_calls := dyn_calls d @ opt_call Call_Teardown ?td, dyn_output := out,
      dyn_failure := failure_after d (acts_of ?td)\<rparr>"
    show ?thesis
    proof (cases "failure_after d (acts_of ?td) = None")
      case True
      then show ?thesis using None ret calls
        by (auto simp: finish_testcase_def add_call_def Let_def)
    next
      case False
      then have "aborted ?e CTEST_DYNAMIC_OPS_ABORT_FAIL (failure_after d (acts_of ?td))
          (dynamic_ops_abort CTEST_DYNAMIC_OPS_ABORT_FAIL ?e)"
        using abort_outcome [of ?e CTEST_DYNAMIC_OPS_ABORT_FAIL] by (simp add: settled_def)
      from aborted_end [OF this] obtain d' where
        "dynamic_ops_abort CTEST_DYNAMIC_OPS_ABORT_FAIL ?e
           = (d', Some (end_of CTEST_DYNAMIC_OPS_ABORT_FAIL (failure_after d (acts_of ?td))))"
        "\<not> dyn_hooked d'" "dyn_calls d' = dyn_calls ?e @ abort_calls ?e"
        using assms(2) by auto
      then show ?thesis using None False ret calls
        by (auto simp: finish_testcase_def end_of_def abort_calls_def)
    qed
  qed
qed

definition start_state :: "bool \<Rightarrow> bool \<Rightarrow> fixture_provider \<Rightarrow> dynamic_ops" where
  "start_state hookable alloc_ok p =
     \<lparr>dyn_hooked = hookable, dyn_failure = None, dyn_stage = CTEST_STAGE_SETUP, dyn_teardown = fx_teardown p,
      dyn_abort_type = CTEST_DYNAMIC_OPS_ABORT_NONE, dyn_free_fixture = fx_size p > 128,
      dyn_alloc_ok = alloc_ok, dyn_calls = [Stage_Changed CTEST_STAGE_SETUP], dyn_output = []\<rparr>"

lemma execute_phases:
  assumes "fx_size p \<le> 128 \<or> fixture_ok"
  shows "testcase_op_execute hookable alloc_ok fixture_ok oom (Some p) caller =
    (case enter_stage CTEST_STAGE_TEARDOWN (call_function Call_Test (Some caller)
        (enter_stage CTEST_STAGE_EXECUTION (call_function Call_Setup (fx_setup p)
          (start_state hookable alloc_ok p, None)))) of
       (d, Some e) \<Rightarrow> (d, Some e)
     | (d, None) \<Rightarrow> finish_testcase d)"
proof -
  have "(128 < fx_size p \<and> \<not> fixture_ok) = False" using assms by auto
  note ok = this
  show ?thesis
    by (simp add: ok testcase_op_execute_def enter_stage_def [of CTEST_STAGE_SETUP] add_call_def Let_def
        start_state_def)
qed

lemma execute_outcome:
  assumes "fx_size p \<le> 128 \<or> fixture_ok" and "no_signal (acts_of (fx_setup p))" and "no_signal caller"
    and "opt_all no_signal (fx_teardown p)"
  shows "\<exists>d. testcase_op_execute hookable alloc_ok fixture_ok oom (Some p) caller = (d, verdict alloc_ok p caller) \<and>
    \<not> dyn_hooked d \<and> dyn_calls d = expected_calls p caller"
proof -
  let ?d = "start_state hookable alloc_ok p" and ?S = "acts_of (fx_setup p)" and ?T = "acts_of (fx_teardown p)"
  let ?f = "\<lambda>stage acts. if alloc_ok then first_some (action_failure stage) acts else None"
  have d: "dyn_teardown ?d = fx_teardown p" "dyn_abort_type ?d = CTEST_DYNAMIC_OPS_ABORT_NONE"
      "dyn_calls ?d = [Stage_Changed CTEST_STAGE_SETUP]" "failure_after ?d acts = ?f CTEST_STAGE_SETUP acts"
      "abort_calls ?d = opt_call Call_Teardown (fx_teardown p) @ (if fx_size p > 128 then [Free_Fixture] else [])" for acts
    by (simp_all add: start_state_def failure_after_def abort_calls_def opt_call_def)
  show ?thesis
  proof (cases "first_some action_abort ?S")
    case (Some type)
    then obtain d' where s: "call_function Call_Setup (fx_setup p) (?d, None) = (d', Some (end_of type (failure_after ?d ?S)))"
        "\<not> dyn_hooked d'" "dyn_calls d' = dyn_calls ?d @ opt_call Call_Setup (fx_setup p) @ abort_calls ?d"
      using call_function_abort [of ?d "fx_setup p" type Call_Setup] assms d by auto
    have "verdict alloc_ok p caller = Some (end_of type (failure_after ?d ?S))"
      using Some abort_reports [OF Some, of CTEST_STAGE_SETUP] unfolding verdict_unfold d(4)
      by (auto simp: Let_def)
    then show ?thesis using s Some d
      by (simp add: execute_phases [OF assms(1)] expected_calls_def opt_call_def)
  next
    case None
    then obtain out where s1: "call_function Call_Setup (fx_setup p) (?d, None) = (?d\<lparr>dyn_calls := dyn_calls ?d @
        opt_call Call_Setup (fx_setup p), dyn_output := out, dyn_failure := failure_after ?d ?S\<rparr>, None)"
      using call_function_return [of ?d "fx_setup p" Call_Setup] assms d by auto
    define d2 where "d2 = ?d\<lparr>dyn_calls := [Stage_Changed CTEST_STAGE_SETUP] @ opt_call Call_Setup (fx_setup p) @
        [Stage_Changed CTEST_STAGE_EXECUTION], dyn_output := out, dyn_failure := failure_after ?d ?S,
        dyn_stage := CTEST_STAGE_EXECUTION\<rparr>"
    have e2: "enter_stage CTEST_STAGE_EXECUTION (call_function Call_Setup (fx_setup p) (?d, None)) = (d2, None)"
      using d(3) by (simp add: s1 enter_stage_def add_call_def d2_def)
    have d2: "dyn_teardown d2 = fx_teardown p" "dyn_abort_type d2 = CTEST_DYNAMIC_OPS_ABORT_NONE"
        "abort_calls d2 = abort_calls ?d"
        "failure_after d2 acts = (case ?f CTEST_STAGE_SETUP ?S of Some x \<Rightarrow> Some x | None \<Rightarrow> ?f CTEST_STAGE_EXECUTION acts)" for acts
      using d by (auto simp: d2_def abort_calls_def failure_after_def start_state_def split: option.split)
    show ?thesis
    proof (cases "first_some action_abort caller")
      case (Some type)
      then obtain d' where s2: "call_function Call_Test (Some caller) (d2, None)
          = (d', Some (end_of type (failure_after d2 caller)))"
          "\<not> dyn_hooked d'" "dyn_calls d' = dyn_calls d2 @ [Call_Test] @ abort_calls d2"
        using call_function_abort [of d2 "Some caller" type Call_Test] assms d2
        by (auto simp: acts_of_def opt_call_def)
      have "verdict alloc_ok p caller = Some (end_of type (failure_after d2 caller))"
        using None Some abort_reports [OF Some, of CTEST_STAGE_EXECUTION] unfolding verdict_unfold d2(4)
        by (auto simp: Let_def split: option.split)
      then show ?thesis using None Some s2 d2(3) d(5)
        by (simp add: execute_phases [OF assms(1)] e2 expected_calls_def opt_call_def)
          (simp add: d2_def opt_call_def)
    next
      case none2: None
      then obtain out2 where s2: "call_function Call_Test (Some caller) (d2, None) = (d2\<lparr>dyn_calls := dyn_calls d2 @
          [Call_Test], dyn_output := out2, dyn_failure := failure_after d2 caller\<rparr>, None)"
        using call_function_return [of d2 "Some caller" Call_Test] assms d2 by (auto simp: acts_of_def opt_call_def)
      define d3 where "d3 = d2\<lparr>dyn_calls := dyn_calls d2 @ [Call_Test, Stage_Changed CTEST_STAGE_TEARDOWN],
          dyn_output := out2, dyn_failure := failure_after d2 caller, dyn_stage := CTEST_STAGE_TEARDOWN\<rparr>"
      have e3: "enter_stage CTEST_STAGE_TEARDOWN (call_function Call_Test (Some caller) (d2, None)) = (d3, None)"
        by (simp add: s2 enter_stage_def add_call_def d3_def)
      have al: "dyn_alloc_ok d2 = alloc_ok" by (simp add: d2_def start_state_def)
      have d3: "dyn_teardown d3 = fx_teardown p" "dyn_abort_type d3 = CTEST_DYNAMIC_OPS_ABORT_NONE"
          "abort_calls d3 = abort_calls ?d"
          "failure_after d3 acts = (case failure_after d2 caller of Some x \<Rightarrow> Some x | None \<Rightarrow> ?f CTEST_STAGE_TEARDOWN acts)" for acts
        using d2(1-3) al by (auto simp: d3_def abort_calls_def failure_after_def [of "d2\<lparr>dyn_calls := c, dyn_output := o1, dyn_failure := f, dyn_stage := s\<rparr>" for c o1 f s] split: option.split)
      obtain d' where fin: "finish_testcase d3 = (d',
            let failure = failure_after d3 ?T
            in case first_some action_abort ?T of
                 Some type \<Rightarrow> Some (end_of type failure)
               | None \<Rightarrow> if failure = None then None else Some (On_Failure failure))"
          "\<not> dyn_hooked d'" "dyn_calls d' = dyn_calls d3 @ abort_calls d3"
        using finish_testcase_outcome [of d3] assms(4) d3(1,2) by auto
      have "verdict alloc_ok p caller = (let failure = failure_after d3 ?T
            in case first_some action_abort ?T of
                 Some type \<Rightarrow> Some (end_of type failure)
               | None \<Rightarrow> if failure = None then None else Some (On_Failure failure))"
        using None none2 unfolding verdict_unfold d3(4) d2(4) by (auto simp: Let_def split: option.split)
      then show ?thesis using None none2 fin d3(3) d(5)
        by (simp add: execute_phases [OF assms(1)] e2 e3 expected_calls_def opt_call_def)
          (simp add: d3_def d2_def opt_call_def)
    qed
  qed
qed

lemma execute_default:
  "testcase_op_execute hookable alloc_ok fixture_ok oom provider caller
    = testcase_op_execute hookable alloc_ok fixture_ok oom
        (Some (case provider of Some p \<Rightarrow> p | None \<Rightarrow> default_fixture_provider)) caller"
  by (simp add: testcase_op_execute_def split: option.split)

section \<open>Properties\<close>

text \<open>
  C11: A test case ends as its own code says and no later code can change that: the failure that is
  reported is the first one of setup, test and teardown, with the stage it happened in; the first
  abort decides between skipped and failed, so a failing teardown does not promote a skip and a
  skip in the teardown does not demote a failure; a failure reported without an abort still fails
  the test case; and the test case returns normally only if nothing was reported.
\<close>

theorem execute_verdict:
  assumes "p = (case provider of Some p \<Rightarrow> p | None \<Rightarrow> default_fixture_provider)"
    and "fx_size p \<le> 128 \<or> fixture_ok" and "no_signal (acts_of (fx_setup p))" and "no_signal caller"
    and "opt_all no_signal (fx_teardown p)"
  shows "snd (testcase_op_execute hookable alloc_ok fixture_ok oom provider caller) = verdict alloc_ok p caller"
  using execute_outcome [OF assms(2-5), of hookable alloc_ok oom]
    execute_default [of hookable alloc_ok fixture_ok oom provider caller] assms(1)
  by fastforce

theorem execute_verdict_witness:
  "snd (testcase_op_execute True True True ''oom''
      (Some \<lparr>fx_setup = None, fx_teardown = Some [Act_Fail ''t.c'' 9 ''late''], fx_size = 8\<rparr>)
      [Act_Skip ''t.c'' 5 ''no net''])
    = Some (On_Skip (Some \<lparr>fl_stage = CTEST_STAGE_EXECUTION, fl_description = Some ''no net'',
        fl_location = Some \<lparr>loc_filename = Some ''t.c'', loc_line = 5\<rparr>, fl_stacktrace = None\<rparr>))"
proof -
  let ?p = "\<lparr>fx_setup = None, fx_teardown = Some [Act_Fail ''t.c'' 9 ''late''], fx_size = 8 :: size_t\<rparr>"
  have "snd (testcase_op_execute True True True ''oom'' (Some ?p) [Act_Skip ''t.c'' 5 ''no net''])
      = verdict True ?p [Act_Skip ''t.c'' 5 ''no net'']"
    by (rule execute_verdict) (simp_all add: acts_of_def)
  then show ?thesis by (simp add: verdict_def staged_def acts_of_def end_of_def)
qed

text \<open>
  C12: Whatever the test code does short of dying from a signal, the stages are announced in order
  and only as far as the test case gets, the teardown function is called exactly once (also after
  a failed setup, and also when it aborts itself), an allocated fixture is released exactly once
  and last, and the module's hook into the framework is undone.
\<close>

theorem execute_calls:
  assumes "p = (case provider of Some p \<Rightarrow> p | None \<Rightarrow> default_fixture_provider)"
    and "fx_size p \<le> 128 \<or> fixture_ok" and "no_signal (acts_of (fx_setup p))" and "no_signal caller"
    and "opt_all no_signal (fx_teardown p)"
  shows "case testcase_op_execute hookable alloc_ok fixture_ok oom provider caller of (d, e) \<Rightarrow>
    dyn_calls d = expected_calls p caller \<and> \<not> dyn_hooked d \<and>
    count_list (dyn_calls d) Call_Teardown = (if fx_teardown p = None then 0 else 1) \<and>
    count_list (dyn_calls d) Free_Fixture = (if fx_size p > 128 then 1 else 0)"
proof -
  have "count_list (expected_calls p caller) Call_Teardown = (if fx_teardown p = None then 0 else 1)"
      "count_list (expected_calls p caller) Free_Fixture = (if fx_size p > 128 then 1 else 0)"
    by (simp_all add: expected_calls_def)
  with execute_outcome [OF assms(2-5), of hookable alloc_ok oom]
    execute_default [of hookable alloc_ok fixture_ok oom provider caller] assms(1)
  show ?thesis by fastforce
qed

theorem execute_calls_witness:
  "case testcase_op_execute True True True ''oom''
      (Some \<lparr>fx_setup = Some [Act_Fail ''t.c'' 3 ''no''], fx_teardown = Some [Act_Skip ''t.c'' 9 ''x''], fx_size = 200\<rparr>) []
    of (d, e) \<Rightarrow> dyn_calls d = [Stage_Changed CTEST_STAGE_SETUP, Call_Setup, Call_Teardown, Free_Fixture] \<and> \<not> dyn_hooked d"
proof -
  let ?p = "\<lparr>fx_setup = Some [Act_Fail ''t.c'' 3 ''no''], fx_teardown = Some [Act_Skip ''t.c'' 9 ''x''], fx_size = 200 :: size_t\<rparr>"
  have "expected_calls ?p [] = [Stage_Changed CTEST_STAGE_SETUP, Call_Setup, Call_Teardown, Free_Fixture]"
    by (simp add: expected_calls_def acts_of_def)
  moreover have "case testcase_op_execute True True True ''oom'' (Some ?p) [] of (d, e) \<Rightarrow>
    dyn_calls d = expected_calls ?p [] \<and> \<not> dyn_hooked d \<and>
    count_list (dyn_calls d) Call_Teardown = (if fx_teardown ?p = None then 0 else 1) \<and>
    count_list (dyn_calls d) Free_Fixture = (if fx_size ?p > 128 then 1 else 0)"
    by (rule execute_calls) (simp_all add: acts_of_def)
  ultimately show ?thesis by auto
qed

text \<open>
  C38: When a large fixture cannot be allocated, the failure is reported while the module still
  refers to the dynamic operations on the stack of the function that ends there.
\<close>

theorem fixture_alloc_dangling_hook:
  assumes "fx_size p > 128"
  shows "case testcase_op_execute True alloc_ok False oom (Some p) caller of (d, e) \<Rightarrow>
    dyn_hooked d \<and> (\<exists>f. e = Some (On_Failure f))"
  using assms by (simp add: testcase_op_execute_def enter_stage_def add_call_def Let_def)

theorem fixture_alloc_dangling_hook_witness:
  "case testcase_op_execute True True False ''oom'' (Some \<lparr>fx_setup = None, fx_teardown = None, fx_size = 129\<rparr>) []
    of (d, e) \<Rightarrow> dyn_hooked d \<and> (\<exists>f. e = Some (On_Failure f))"
  by (rule fixture_alloc_dangling_hook) simp

end
