(* ===== verification/Sig.thy ===== *)
theory Sig
  imports Prelude
begin

text \<open>
  \<^verbatim>\<open>src/exec/sig.c\<close>: catching all signals that can be caught while a test runs, and putting the
  previous dispositions back. What \<^verbatim>\<open>sigaction\<close> returns is a parameter: for each signal, \<open>None\<close> or
  the error number it fails with.
\<close>

section \<open>Definitions\<close>

datatype disposition = Disp_Default | Disp_Ignore | Disp_User nat | Disp_Sighandler

text \<open>The numbers of the signals of \<^verbatim>\<open>signals__\<close> on Linux, in the order of the array.\<close>

definition signals :: "cint list" where
  "signals = [1, 2, 3, 4, 5, 6, 8, 11, 13, 14, 15, 10, 12, 17, 18, 20, 21, 22]"

definition EINVAL :: int where
  "EINVAL = 22"

definition EBUSY :: int where
  "EBUSY = 16"

text \<open>
  The dispositions of the process and the static variables: for each entry of \<^verbatim>\<open>signals__\<close> the saved
  disposition (\<open>None\<close> when \<^verbatim>\<open>f_saved\<close> is not set), and the handler with its cookie.
\<close>

record 'h sig_state =
  sg_disp :: "cint \<Rightarrow> disposition"
  sg_saved :: "disposition option list"
  sg_handler :: "'h option"

definition sig_initial :: "(cint \<Rightarrow> disposition) \<Rightarrow> 'h sig_state" where
  "sig_initial disp = \<lparr>sg_disp = disp, sg_saved = replicate (length signals) None, sg_handler = None\<rparr>"

text \<open>The loop of \<^verbatim>\<open>sigcapture__\<close> from entry \<open>i\<close> on; the error number it stops with, if any.\<close>

fun capture_loop ::
  "(cint \<Rightarrow> int option) \<Rightarrow> nat \<Rightarrow> cint list \<Rightarrow> 'h sig_state \<Rightarrow> 'h sig_state \<times> int option" where
  "capture_loop fails i [] st = (st, None)"
| "capture_loop fails i (signum # signums) st =
     (case fails signum of
        None \<Rightarrow>
          (let st = (if sg_saved st ! i = None
                     then st\<lparr>sg_saved := (sg_saved st)[i := Some (sg_disp st signum)]\<rparr> else st);
               st = st\<lparr>sg_disp := (sg_disp st)(signum := Disp_Sighandler)\<rparr>
           in capture_loop fails (i + 1) signums st)
      | Some errno \<Rightarrow>
          if errno \<noteq> EINVAL then (st, Some errno)
          else capture_loop fails (i + 1) signums st)"

text \<open>The restoring loops: the new state and the error number of the last \<^verbatim>\<open>sigaction\<close> that failed.\<close>

fun restore_loop ::
  "(cint \<Rightarrow> int option) \<Rightarrow> nat \<Rightarrow> cint list \<Rightarrow> 'h sig_state \<Rightarrow> int option \<Rightarrow> 'h sig_state \<times> int option" where
  "restore_loop fails i [] st err = (st, err)"
| "restore_loop fails i (signum # signums) st err =
     (case sg_saved st ! i of
        None \<Rightarrow> restore_loop fails (i + 1) signums st err
      | Some disp \<Rightarrow>
          (case fails signum of
             None \<Rightarrow> restore_loop fails (i + 1) signums
                 (st\<lparr>sg_disp := (sg_disp st)(signum := disp), sg_saved := (sg_saved st)[i := None]\<rparr>) err
           | Some errno \<Rightarrow> restore_loop fails (i + 1) signums st (Some errno)))"

text \<open>
  The part of \<^verbatim>\<open>sigcapture__\<close> that runs with all signals blocked: it ends with the state in which the
  signals are unblocked again.
\<close>

definition capture_blocked ::
  "(cint \<Rightarrow> int option) \<Rightarrow> 'h option \<Rightarrow> 'h sig_state \<Rightarrow> 'h sig_state \<times> int option" where
  "capture_blocked fails handler st =
     (case capture_loop fails 0 signals st of
        (st, None) \<Rightarrow> (st\<lparr>sg_handler := handler\<rparr>, None)
      | (st, Some errno) \<Rightarrow> (st, Some errno))"

text \<open>
  \<open>masked\<close>: blocking the signals first succeeds. The results are the return code and errno (\<open>None\<close> when
  it is the one \<^verbatim>\<open>sigprocmask\<close> left).
\<close>

definition sigcapture ::
  "(cint \<Rightarrow> int option) \<Rightarrow> bool \<Rightarrow> 'h option \<Rightarrow> 'h sig_state \<Rightarrow> 'h sig_state \<times> int \<times> int option" where
  "sigcapture fails masked handler st =
     (if handler = None then (st, -1, Some EINVAL)
      else if sg_handler st \<noteq> None then (st, -1, Some EBUSY)
      else if \<not> masked then (st, -1, None)
      else case capture_blocked fails handler st of
             (st, None) \<Rightarrow> (st, 0, Some 0)
           | (st, Some errno) \<Rightarrow> (fst (restore_loop fails 0 signals st None), -1, Some errno))"

definition sigrestore ::
  "(cint \<Rightarrow> int option) \<Rightarrow> bool \<Rightarrow> 'h sig_state \<Rightarrow> 'h sig_state \<times> int \<times> int option" where
  "sigrestore fails masked st =
     (if \<not> masked then (st, -1, None)
      else case restore_loop fails 0 signals st None of
             (st, None) \<Rightarrow> (st\<lparr>sg_handler := None\<rparr>, 0, Some 0)
           | (st, Some errno) \<Rightarrow> (st, -1, Some errno))"

text \<open>
  What a signal does: the action of its disposition, which for \<^verbatim>\<open>sighandler__\<close> is a call of \<^verbatim>\<open>handler__\<close>,
  a null pointer when none is registered.
\<close>

datatype 'h delivery = Handled 'h | Null_Call | Not_Captured disposition

definition sighandler :: "'h sig_state \<Rightarrow> cint \<Rightarrow> 'h delivery" where
  "sighandler st signum =
     (if sg_disp st signum = Disp_Sighandler
      then (case sg_handler st of Some handler \<Rightarrow> Handled handler | None \<Rightarrow> Null_Call)
      else Not_Captured (sg_disp st signum))"

text \<open>
  Whether a signal that is not captured kills the process: it has its default disposition, and the default action of
  the signal is not to ignore it, to stop or to continue the process.
\<close>

definition fatal_signal :: "disposition \<Rightarrow> cint \<Rightarrow> bool" where
  "fatal_signal disp signum \<longleftrightarrow> disp = Disp_Default \<and> signum \<notin> {17, 18, 19, 20, 21, 22, 23, 28}"

section \<open>Capturing and restoring\<close>

lemma distinct_signals: "distinct signals"
  by (simp add: signals_def)

text \<open>What the capture loop has done to the first entries.\<close>

definition captured_upto ::
  "(cint \<Rightarrow> int option) \<Rightarrow> (cint \<Rightarrow> disposition) \<Rightarrow> nat \<Rightarrow> 'h sig_state \<Rightarrow> bool" where
  "captured_upto fails disp n st \<longleftrightarrow>
     length (sg_saved st) = length signals \<and>
     (\<forall>i < length signals. sg_saved st ! i =
        (if i < n \<and> fails (signals ! i) = None then Some (disp (signals ! i)) else None)) \<and>
     (\<forall>s. sg_disp st s =
        (if s \<in> set (take n signals) \<and> fails s = None then Disp_Sighandler else disp s))"

lemma captured_step:
  assumes "captured_upto fails disp n st" and "n < length signals"
  shows "fails (signals ! n) = None \<Longrightarrow>
      captured_upto fails disp (Suc n) (st\<lparr>sg_saved := (sg_saved st)[n := Some (sg_disp st (signals ! n))],
        sg_disp := (sg_disp st)(signals ! n := Disp_Sighandler)\<rparr>)"
    and "fails (signals ! n) \<noteq> None \<Longrightarrow> captured_upto fails disp (Suc n) st"
proof -
  have new: "signals ! n \<notin> set (take n signals)"
    using distinct_signals assms(2) by (simp add: distinct_conv_nth in_set_conv_nth)
  have set: "set (take (Suc n) signals) = insert (signals ! n) (set (take n signals))"
    using assms(2) by (simp add: take_Suc_conv_app_nth)
  show "captured_upto fails disp (Suc n) (st\<lparr>sg_saved := (sg_saved st)[n := Some (sg_disp st (signals ! n))],
        sg_disp := (sg_disp st)(signals ! n := Disp_Sighandler)\<rparr>)" if "fails (signals ! n) = None"
    using assms that new by (auto simp: captured_upto_def set nth_list_update less_Suc_eq)
  show "captured_upto fails disp (Suc n) st" if "fails (signals ! n) \<noteq> None"
    using assms that new by (auto simp: captured_upto_def set less_Suc_eq)
qed

lemma capture_loop_captured:
  assumes "captured_upto fails disp n st" and "n \<le> length signals"
    and "capture_loop fails n (drop n signals) st = (st', err)"
  shows "sg_handler st' = sg_handler st \<and>
    (\<exists>k \<le> length signals. captured_upto fails disp k st' \<and> (err = None \<longrightarrow> k = length signals))"
  using assms
proof (induction "drop n signals" arbitrary: n st)
  case Nil
  then show ?case by auto
next
  case (Cons signum signums)
  then have n: "n < length signals" by (metis drop_eq_Nil list.distinct(1) not_le)
  then have drop: "drop n signals = signals ! n # drop (Suc n) signals" by (simp add: Cons_nth_drop_Suc)
  have sn: "sg_saved st ! n = None" using Cons.prems(1) n by (simp add: captured_upto_def)
  note IH = Cons.hyps(1) [of "Suc n"]
  show ?case
  proof (cases "fails (signals ! n)")
    case None
    with Cons.prems(3) sn drop have
      "capture_loop fails (Suc n) (drop (Suc n) signals) (st\<lparr>sg_saved := (sg_saved st)[n := Some (sg_disp st (signals ! n))],
        sg_disp := (sg_disp st)(signals ! n := Disp_Sighandler)\<rparr>) = (st', err)"
      by simp
    from IH [OF _ captured_step(1) [OF Cons.prems(1) n None] _ this] n drop Cons.hyps(2) show ?thesis by simp
  next
    case (Some errno)
    show ?thesis
    proof (cases "errno = EINVAL")
      case True
      with Some Cons.prems(3) drop have "capture_loop fails (Suc n) (drop (Suc n) signals) st = (st', err)" by simp
      from IH [OF _ captured_step(2) [OF Cons.prems(1) n] _ this] Some n drop Cons.hyps(2) show ?thesis by simp
    next
      case False
      with Some Cons.prems(3) drop have "st' = st" "err = Some errno" by simp_all
      with Cons.prems(1,2) show ?thesis by blast
    qed
  qed
qed

text \<open>Restoring from such a state undoes it, entry by entry.\<close>

definition restored_upto ::
  "(cint \<Rightarrow> int option) \<Rightarrow> (cint \<Rightarrow> disposition) \<Rightarrow> nat \<Rightarrow> nat \<Rightarrow> 'h sig_state \<Rightarrow> bool" where
  "restored_upto fails disp n k st \<longleftrightarrow>
     length (sg_saved st) = length signals \<and>
     (\<forall>i < length signals. sg_saved st ! i =
        (if n \<le> i \<and> i < k \<and> fails (signals ! i) = None then Some (disp (signals ! i)) else None)) \<and>
     (\<forall>s. sg_disp st s =
        (if s \<in> set (drop n (take k signals)) \<and> fails s = None then Disp_Sighandler else disp s))"

lemma restored_step:
  assumes "restored_upto fails disp n k st" and "n < length signals" and "k \<le> length signals"
  shows "n < k \<Longrightarrow> fails (signals ! n) = None \<Longrightarrow>
      restored_upto fails disp (Suc n) k (st\<lparr>sg_disp := (sg_disp st)(signals ! n := disp (signals ! n)),
        sg_saved := (sg_saved st)[n := None]\<rparr>)"
    and "\<not> (n < k \<and> fails (signals ! n) = None) \<Longrightarrow> restored_upto fails disp (Suc n) k st"
proof -
  have set: "set (drop n (take k signals)) = insert (signals ! n) (set (drop (Suc n) (take k signals)))" if "n < k"
  proof -
    have "drop n (take k signals) = take k signals ! n # drop (Suc n) (take k signals)"
      using that assms(2,3) by (intro Cons_nth_drop_Suc [symmetric]) simp
    then show ?thesis using that by simp
  qed
  show "restored_upto fails disp (Suc n) k (st\<lparr>sg_disp := (sg_disp st)(signals ! n := disp (signals ! n)),
        sg_saved := (sg_saved st)[n := None]\<rparr>)" if n: "n < k" and f: "fails (signals ! n) = None"
  proof -
    have "distinct (drop n (take k signals))" using distinct_signals by simp
    moreover have "drop n (take k signals) = signals ! n # drop (Suc n) (take k signals)"
      using n assms(2,3) Cons_nth_drop_Suc [of n "take k signals"] by simp
    ultimately have new: "signals ! n \<notin> set (drop (Suc n) (take k signals))" by simp
    show ?thesis
      using assms(1,2) f new by (auto simp: restored_upto_def set [OF n] nth_list_update Suc_le_eq)
  qed
  show "restored_upto fails disp (Suc n) k st" if "\<not> (n < k \<and> fails (signals ! n) = None)"
  proof (cases "n < k")
    case True
    with assms(1) that show ?thesis
      by (auto simp: restored_upto_def set [OF True] Suc_le_eq)
  next
    case False
    with assms(1) show ?thesis by (auto simp: restored_upto_def)
  qed
qed

lemma restore_loop_restored:
  assumes "restored_upto fails disp n k st" and "n \<le> length signals" and "k \<le> length signals"
    and "restore_loop fails n (drop n signals) st err = (st', err')"
  shows "sg_handler st' = sg_handler st \<and> err' = err \<and> restored_upto fails disp (length signals) k st'"
  using assms
proof (induction "drop n signals" arbitrary: n st)
  case Nil
  then show ?case by auto
next
  case (Cons signum signums)
  then have n: "n < length signals" by (metis drop_eq_Nil list.distinct(1) not_le)
  then have drop: "drop n signals = signals ! n # drop (Suc n) signals" by (simp add: Cons_nth_drop_Suc)
  note IH = Cons.hyps(1) [of "Suc n"]
  show ?case
  proof (cases "n < k \<and> fails (signals ! n) = None")
    case True
    then have "sg_saved st ! n = Some (disp (signals ! n))" using Cons.prems(1) n by (simp add: restored_upto_def)
    with True Cons.prems(4) drop have
      "restore_loop fails (Suc n) (drop (Suc n) signals) (st\<lparr>sg_disp := (sg_disp st)(signals ! n := disp (signals ! n)),
        sg_saved := (sg_saved st)[n := None]\<rparr>) err = (st', err')" by simp
    from IH [OF _ restored_step(1) [OF Cons.prems(1) n Cons.prems(3)] _ Cons.prems(3) this] True n drop Cons.hyps(2)
    show ?thesis by simp
  next
    case False
    then have "sg_saved st ! n = None" using Cons.prems(1) n by (auto simp: restored_upto_def)
    with Cons.prems(4) drop have "restore_loop fails (Suc n) (drop (Suc n) signals) st err = (st', err')" by simp
    from IH [OF _ restored_step(2) [OF Cons.prems(1) n Cons.prems(3) False] _ Cons.prems(3) this] n drop Cons.hyps(2)
    show ?thesis by simp
  qed
qed

lemma captured_restored: "captured_upto fails disp k st \<longleftrightarrow> restored_upto fails disp 0 k st"
  by (simp add: captured_upto_def restored_upto_def)

lemma restored_initial:
  "restored_upto fails disp (length signals) k st \<Longrightarrow> k \<le> length signals \<Longrightarrow> st = \<lparr>sg_disp = disp,
     sg_saved = replicate (length signals) None, sg_handler = sg_handler st\<rparr>"
  by (cases st) (auto simp: restored_upto_def fun_eq_iff intro!: nth_equalityI)

lemma initial_captured: "captured_upto fails disp 0 (sig_initial disp)"
  by (simp add: captured_upto_def sig_initial_def)


text \<open>The error that stops the capture loop is the first one that is not \<^verbatim>\<open>EINVAL\<close>.\<close>

definition first_error :: "(cint \<Rightarrow> int option) \<Rightarrow> cint list \<Rightarrow> int option" where
  "first_error fails signums =
     (case filter (\<lambda>s. fails s \<noteq> None \<and> fails s \<noteq> Some EINVAL) signums of [] \<Rightarrow> None | s # _ \<Rightarrow> fails s)"

lemma capture_loop_error: "snd (capture_loop fails i signums st) = first_error fails signums"
  by (induction signums arbitrary: i st) (auto simp: first_error_def Let_def split: option.splits)

lemma capture_from_initial:
  assumes "capture_loop fails 0 signals (sig_initial disp) = (st, err)"
  obtains k where "k \<le> length signals" and "captured_upto fails disp k st" and "sg_handler st = None"
    and "err = None \<longrightarrow> k = length signals"
  using capture_loop_captured [OF initial_captured, of fails disp st err] assms by (auto simp: sig_initial_def)

lemma restore_captured:
  assumes "captured_upto fails disp k st" and "k \<le> length signals"
  shows "restore_loop fails 0 signals st err = ((sig_initial disp)\<lparr>sg_handler := sg_handler st\<rparr>, err)"
proof -
  obtain st' err' where run: "restore_loop fails 0 signals st err = (st', err')" by (cases "restore_loop fails 0 signals st err")
  with restore_loop_restored [of fails disp 0 k st err st' err'] assms
  have "sg_handler st' = sg_handler st" "err' = err" "restored_upto fails disp (length signals) k st'"
    by (simp_all add: captured_restored)
  with run restored_initial [OF this(3) assms(2)] show ?thesis by (simp add: sig_initial_def)
qed

lemma capture_loop_keeps:
  "sg_saved st ! 0 \<noteq> None \<Longrightarrow> 0 < n \<Longrightarrow> sg_saved (fst (capture_loop fails n signums st)) ! 0 \<noteq> None"
  by (induction signums arbitrary: n st) (simp_all add: Let_def split: option.split)

lemma capture_restore_outcome:
  assumes "sigcapture fails True (Some handler) (sig_initial disp) = (st, rc, err)"
    and "\<forall>s. disp s \<noteq> Disp_Sighandler"
  shows "case first_error fails signals of
      Some errno \<Rightarrow> st = sig_initial disp \<and> rc = -1 \<and> err = Some errno
    | None \<Rightarrow> rc = 0 \<and>
        (\<forall>s. sighandler st s = (if s \<in> set signals \<and> fails s = None then Handled handler else Not_Captured (disp s))) \<and>
        (\<forall>handler'. sigcapture fails True (Some handler') st = (st, -1, Some EBUSY)) \<and>
        sigrestore fails True st = (sig_initial disp, 0, Some 0)"
proof -
  obtain st1 :: "'a sig_state" and err1 where run: "capture_loop fails 0 signals (sig_initial disp) = (st1, err1)"
    by (cases "capture_loop fails 0 signals (sig_initial disp :: 'a sig_state)")
  then obtain k where k: "k \<le> length signals" "captured_upto fails disp k st1" "sg_handler st1 = None"
      "err1 = None \<longrightarrow> k = length signals"
    by (rule capture_from_initial)
  have err1: "err1 = first_error fails signals"
    using capture_loop_error [of fails 0 signals "sig_initial disp :: 'a sig_state"] run by simp
  have initial: "sig_initial disp\<lparr>sg_handler := None\<rparr> = (sig_initial disp :: 'a sig_state)"
    by (simp add: sig_initial_def)
  show ?thesis
  proof (cases err1)
    case None
    with assms(1) run have st: "st = st1\<lparr>sg_handler := Some handler\<rparr>" and rc: "rc = 0"
      by (auto simp: sigcapture_def capture_blocked_def sig_initial_def)
    have "captured_upto fails disp (length signals) st"
      using k(2,4) None by (simp add: st captured_upto_def)
    with restore_captured [OF this] assms(2) None err1 rc show ?thesis
      by (auto simp: st sigrestore_def sigcapture_def sighandler_def captured_upto_def sig_initial_def)
  next
    case (Some errno)
    then have e: "first_error fails signals = Some errno" using err1 by simp
    from assms(1) run restore_captured [OF k(2,1)] k(3) initial Some
    have "st = sig_initial disp \<and> rc = -1 \<and> err = Some errno"
      by (auto simp: sigcapture_def capture_blocked_def sig_initial_def)
    with e show ?thesis by simp
  qed
qed

lemma sigcapture_handles:
  assumes "\<forall>s. disp s \<noteq> Disp_Sighandler"
  shows "sighandler (fst (sigcapture fails True (Some handler) (sig_initial disp))) s
    = (if first_error fails signals = None \<and> s \<in> set signals \<and> fails s = None
       then Handled handler else Not_Captured (disp s))"
proof -
  obtain st rc err where run: "sigcapture fails True (Some handler) (sig_initial disp) = (st, rc, err)"
    by (metis prod_cases3)
  from capture_restore_outcome [OF run assms] run assms show ?thesis
    by (cases "first_error fails signals") (simp_all add: sighandler_def sig_initial_def)
qed

section \<open>Properties\<close>

text \<open>
  C29: from a process with no captured signals, \<^verbatim>\<open>sigcapture__\<close> fails exactly when \<^verbatim>\<open>sigaction\<close> fails for
  some signal with an error other than \<^verbatim>\<open>EINVAL\<close>, with the first such error, and then every disposition
  and the static state are what they were. Otherwise it succeeds and every signal of the array that can be
  captured runs the given handler, every other signal is as before; a second capture is refused with
  \<^verbatim>\<open>EBUSY\<close> and changes nothing; and \<^verbatim>\<open>sigrestore__\<close> gives back exactly the initial state.
\<close>

theorem sig_capture_restore:
  assumes "sigcapture fails True (Some handler) (sig_initial disp) = (st, rc, err)"
    and "\<forall>s. disp s \<noteq> Disp_Sighandler"
  shows "case first_error fails signals of
      Some errno \<Rightarrow> st = sig_initial disp \<and> rc = -1 \<and> err = Some errno
    | None \<Rightarrow> rc = 0 \<and>
        (\<forall>s. sighandler st s = (if s \<in> set signals \<and> fails s = None then Handled handler else Not_Captured (disp s))) \<and>
        (\<forall>handler'. sigcapture fails True (Some handler') st = (st, -1, Some EBUSY)) \<and>
        sigrestore fails True st = (sig_initial disp, 0, Some 0)"
  using assms by (rule capture_restore_outcome)

theorem sig_capture_restore_witness:
  "\<exists>st. sigcapture (\<lambda>s. if s = 21 then Some EINVAL else None) True (Some (7::nat)) (sig_initial (\<lambda>s. Disp_Default))
      = (st, 0, Some 0) \<and> sighandler st 11 = Handled 7 \<and> sighandler st 21 = Not_Captured Disp_Default"
proof -
  let ?fails = "\<lambda>s::cint. if s = 21 then Some EINVAL else None"
  obtain st rc err where run: "sigcapture ?fails True (Some (7::nat)) (sig_initial (\<lambda>s. Disp_Default)) = (st, rc, err)"
    by (metis prod_cases3)
  have "first_error ?fails signals = None" by (simp add: first_error_def signals_def)
  moreover have "err = Some 0" if "rc = 0"
    using run that by (auto simp: sigcapture_def split: if_splits prod.splits option.splits)
  ultimately show ?thesis
    using sig_capture_restore [OF run] run by (auto simp: signals_def)
qed

text \<open>
  C40: when \<^verbatim>\<open>sigcapture__\<close> fails after it captured \<^verbatim>\<open>SIGHUP\<close> (number 1), it unblocks the signals while
  that one is still captured and no handler is registered: a signal delivered before the loop has restored it
  calls a null pointer. (After a successful capture this cannot happen: the handler is registered while the
  signals are blocked.)
\<close>

theorem sig_capture_failure_window:
  assumes "sigcapture fails True (Some handler) (sig_initial disp) = (st, rc, err)"
    and "\<forall>s. disp s \<noteq> Disp_Sighandler" and "fails 1 = None"
  shows "case capture_blocked fails (Some handler) (sig_initial disp) of
      (unblocked, Some errno) \<Rightarrow> rc = -1 \<and> sighandler unblocked 1 = Null_Call
    | (unblocked, None) \<Rightarrow> rc = 0 \<and> (\<forall>s. sighandler unblocked s \<noteq> Null_Call)"
proof -
  obtain st1 :: "'a sig_state" and err1 where run: "capture_loop fails 0 signals (sig_initial disp) = (st1, err1)"
    by (cases "capture_loop fails 0 signals (sig_initial disp :: 'a sig_state)")
  then obtain k where k: "k \<le> length signals" "captured_upto fails disp k st1" "sg_handler st1 = None"
      "err1 = None \<longrightarrow> k = length signals"
    by (rule capture_from_initial)
  have first: "sg_disp st1 1 = Disp_Sighandler" if "err1 \<noteq> None"
  proof -
    define rest where "rest = tl signals"
    have sig: "signals = 1 # rest" by (simp add: signals_def rest_def)
    have "k \<noteq> 0"
    proof
      assume "k = 0"
      with k(2) have "sg_saved st1 ! 0 = None" by (simp add: captured_upto_def sig)
      moreover from run have "sg_saved st1 ! 0 \<noteq> None"
        using capture_loop_keeps [of "(sig_initial disp)\<lparr>sg_saved := (replicate (length signals) None)[0 := Some (disp 1)],
            sg_disp := disp(1 := Disp_Sighandler)\<rparr> :: 'a sig_state" 1 fails rest] assms(3)
        by (simp add: sig sig_initial_def)
      ultimately show False by simp
    qed
    then show ?thesis using k(2) assms(3) by (cases k) (auto simp: captured_upto_def sig)
  qed
  with assms(1) run k(3) show ?thesis
    by (cases err1) (auto simp: sigcapture_def capture_blocked_def sighandler_def sig_initial_def)
qed

theorem sig_capture_failure_window_witness:
  "\<exists>unblocked. capture_blocked (\<lambda>s. if s = 2 then Some 1 else None) (Some (7::nat)) (sig_initial (\<lambda>s. Disp_Default))
      = (unblocked, Some 1) \<and> sighandler unblocked 1 = Null_Call"
proof -
  let ?fails = "\<lambda>s::cint. if s = 2 then Some 1 else None"
  let ?init = "sig_initial (\<lambda>s. Disp_Default) :: nat sig_state"
  have "snd (capture_blocked ?fails (Some 7) ?init) = Some 1"
    by (simp add: capture_blocked_def signals_def sig_initial_def EINVAL_def)
  then obtain unblocked where b: "capture_blocked ?fails (Some 7) ?init = (unblocked, Some 1)"
    by (cases "capture_blocked ?fails (Some 7) ?init") auto
  obtain st rc err where run: "sigcapture ?fails True (Some 7) ?init = (st, rc, err)" by (metis prod_cases3)
  from sig_capture_failure_window [OF run] b show ?thesis by auto
qed

end
