(* ===== verification/Descriptors.thy ===== *)
theory Descriptors
  imports Sig
begin

text \<open>
  What the runners use of the system to redirect a test case: the table of file descriptors of a process with the
  system calls on it, and the buffers of the standard output and the standard error of the C library. A file is
  what it is to the runners: one that was there before, \<^verbatim>\<open>/dev/null\<close>, the temporary file, or an end of one of the
  two pipes. Which descriptor a call returns (a negative one on error), and when the library empties a buffer on
  its own, is a parameter.
\<close>

section \<open>Definitions\<close>

datatype pipe = Hooks_Pipe | Output_Pipe

datatype open_file = Inherited nat | Dev_Null | Temp_File | Read_End pipe | Write_End pipe

type_synonym fd_table = "int \<Rightarrow> open_file option"

definition sys_open :: "open_file \<Rightarrow> int \<Rightarrow> fd_table \<Rightarrow> fd_table" where
  "sys_open f new fds = (if new < 0 then fds else fds(new := Some f))"

definition sys_dup :: "int \<Rightarrow> int \<Rightarrow> fd_table \<Rightarrow> fd_table" where
  "sys_dup old new fds = (if new < 0 then fds else fds(new := fds old))"

text \<open>Duplicating a descriptor that is not open is an error and changes nothing.\<close>

definition sys_dup2 :: "'fd \<Rightarrow> 'fd \<Rightarrow> ('fd \<Rightarrow> open_file option) \<Rightarrow> 'fd \<Rightarrow> open_file option" where
  "sys_dup2 old new fds = (case fds old of None \<Rightarrow> fds | Some f \<Rightarrow> fds(new := Some f))"

definition sys_close :: "'fd \<Rightarrow> ('fd \<Rightarrow> open_file option) \<Rightarrow> 'fd \<Rightarrow> open_file option" where
  "sys_close fd fds = fds(fd := None)"

definition sys_pipe :: "pipe \<Rightarrow> int \<times> int \<Rightarrow> fd_table \<Rightarrow> fd_table" where
  "sys_pipe p ends fds = fds(fst ends := Some (Read_End p), snd ends := Some (Write_End p))"

record process =
  pr_fds :: fd_table
  pr_sigs :: "unit sig_state"

text \<open>The process has no descriptor of the files the runners open.\<close>

definition inherited_only :: "fd_table \<Rightarrow> bool" where
  "inherited_only fds \<longleftrightarrow> (\<forall>fd f. fds fd = Some f \<longrightarrow> (\<exists>n. f = Inherited n))"

subsection \<open>The standard streams\<close>

fun stream_fd :: "stream \<Rightarrow> int" where
  "stream_fd Stdout = 1"
| "stream_fd Stderr = 2"

text \<open>What the library still holds for each stream, and the bytes that have left the process, with the file they went to.\<close>

record stdio =
  io_buffer :: "stream \<Rightarrow> byte list"
  io_sent :: "(open_file \<times> stream \<times> byte) list"

text \<open>The bytes go where the descriptor of the stream refers to at this moment; they are lost if it is not open.\<close>

definition fflush :: "stream \<Rightarrow> fd_table \<Rightarrow> stdio \<Rightarrow> stdio" where
  "fflush s fds io =
     \<lparr>io_buffer = (io_buffer io)(s := []),
      io_sent = io_sent io @ (case fds (stream_fd s) of
        None \<Rightarrow> [] | Some f \<Rightarrow> map (\<lambda>b. (f, s, b)) (io_buffer io s))\<rparr>"

text \<open>Writing byte after byte; \<open>flushes i\<close> says whether the library empties the buffer of the stream after byte \<open>i\<close>.\<close>

fun fwrite :: "(nat \<Rightarrow> bool) \<Rightarrow> fd_table \<Rightarrow> nat \<Rightarrow> writes \<Rightarrow> stdio \<Rightarrow> stdio" where
  "fwrite flushes fds i [] io = io"
| "fwrite flushes fds i ((s, b) # ws) io =
     (let io = io\<lparr>io_buffer := (io_buffer io)(s := io_buffer io s @ [b])\<rparr>
      in fwrite flushes fds (Suc i) ws (if flushes i then fflush s fds io else io))"

definition fclose :: "stream \<Rightarrow> fd_table \<times> stdio \<Rightarrow> fd_table \<times> stdio" where
  "fclose s = (\<lambda>(fds, io). (sys_close (stream_fd s) fds, fflush s fds io))"

text \<open>The bytes that have gone to a file, in the order in which they did.\<close>

definition sent_to :: "open_file \<Rightarrow> stdio \<Rightarrow> byte list" where
  "sent_to f io = map (snd \<circ> snd) (filter (\<lambda>x. fst x = f) (io_sent io))"

section \<open>Both streams in one file\<close>

text \<open>
  The bytes that leave the buffers while these are written, and what is in the buffers then. When both streams end
  in the same file, this is all that matters: \<open>delivered\<close> is what the file has got if the process is killed, and
  \<open>captured\<close> what it has got once the two streams have been flushed.
\<close>

fun leave :: "(nat \<Rightarrow> bool) \<Rightarrow> nat \<Rightarrow> writes \<Rightarrow> (stream \<Rightarrow> byte list) \<Rightarrow> writes \<times> (stream \<Rightarrow> byte list)" where
  "leave flushes i [] buf = ([], buf)"
| "leave flushes i ((s, b) # ws) buf =
     (if flushes i
      then case leave flushes (Suc i) ws (buf(s := [])) of (left, rest) \<Rightarrow> (map (Pair s) (buf s @ [b]) @ left, rest)
      else leave flushes (Suc i) ws (buf(s := buf s @ [b])))"

definition delivered :: "(nat \<Rightarrow> bool) \<Rightarrow> writes \<Rightarrow> writes" where
  "delivered flushes ws = fst (leave flushes 0 ws (\<lambda>_. []))"

definition captured :: "(nat \<Rightarrow> bool) \<Rightarrow> writes \<Rightarrow> writes" where
  "captured flushes ws =
     (case leave flushes 0 ws (\<lambda>_. []) of (left, rest) \<Rightarrow>
        left @ map (Pair Stdout) (rest Stdout) @ map (Pair Stderr) (rest Stderr))"

lemma leave_keeps:
  "case leave flushes i ws buf of (left, rest) \<Rightarrow>
     filter (\<lambda>w. fst w = s) left @ map (Pair s) (rest s) = map (Pair s) (buf s) @ filter (\<lambda>w. fst w = s) ws"
proof (induction ws arbitrary: i buf)
  case (Cons w ws)
  obtain s' b where w: "w = (s', b)" by (cases w)
  show ?case
  proof (cases "flushes i")
    case True
    then show ?thesis
      using Cons.IH [where i = "Suc i" and buf = "buf(s' := [])"]
      by (cases "s' = s") (simp_all add: w filter_map comp_def case_prod_beta del: fun_upd_apply, simp_all)
  next
    case False
    then show ?thesis
      using Cons.IH [where i = "Suc i" and buf = "buf(s' := buf s' @ [b])"] by (cases "s' = s") (simp_all add: w case_prod_beta del: fun_upd_apply, simp_all)
  qed
qed simp

text \<open>Nothing is lost or added, and the bytes of each stream are in the order in which they were written.\<close>

lemma captured_in_order: "filter (\<lambda>w. fst w = s) (captured flushes ws) = filter (\<lambda>w. fst w = s) ws"
  using leave_keeps [where flushes = flushes and i = 0 and ws = ws and buf = "\<lambda>_. []" and s = s]
  by (cases s) (auto simp: captured_def filter_map comp_def split: prod.splits)

lemma length_streams: "length ws = length (filter (\<lambda>w. fst w = Stdout) ws) + length (filter (\<lambda>w. fst w = Stderr) (ws :: writes))"
proof (induction ws)
  case (Cons w ws)
  then show ?case by (cases "fst w") simp_all
qed simp

lemma length_captured [simp]: "length (captured flushes ws) = length ws"
  using length_streams [of "captured flushes ws"] length_streams [of ws] by (simp only: captured_in_order)

lemma captured_Nil [simp]: "captured flushes [] = []" "delivered flushes [] = []"
  by (simp_all add: captured_def delivered_def)

lemma fwrite_leave:
  assumes "fds 1 = Some f" and "fds 2 = Some f"
  shows "fwrite flushes fds i ws io =
    \<lparr>io_buffer = snd (leave flushes i ws (io_buffer io)),
     io_sent = io_sent io @ map (Pair f) (fst (leave flushes i ws (io_buffer io)))\<rparr>"
proof (induction ws arbitrary: i io)
  case (Cons w ws)
  obtain s b where w: "w = (s, b)" by (cases w)
  have "fds (stream_fd s) = Some f" using assms by (cases s) simp_all
  with Cons w show ?case by (simp add: fflush_def comp_def split: prod.split)
qed simp

text \<open>A flush of both streams, of which the standard output comes first.\<close>

lemma fflush_both:
  assumes "fds 1 = Some f" and "fds 2 = Some f"
  shows "fflush Stderr fds' (fflush Stdout fds io) =
    \<lparr>io_buffer = \<lambda>_. [], io_sent = io_sent io @ map (Pair f) (map (Pair Stdout) (io_buffer io Stdout)) @
       (case fds' 2 of None \<Rightarrow> [] | Some f' \<Rightarrow> map (Pair f') (map (Pair Stderr) (io_buffer io Stderr)))\<rparr>"
  using assms by (auto simp: fflush_def comp_def fun_eq_iff elim: stream.exhaust split: option.split) (metis stream.exhaust)+

lemma sent_append: "sent_to f \<lparr>io_buffer = buf, io_sent = xs @ map (Pair f) ws\<rparr> = sent_to f \<lparr>io_buffer = buf, io_sent = xs\<rparr> @ map snd ws"
  by (simp add: sent_to_def filter_map comp_def)

text \<open>The effect of writing and flushing with both descriptors on one file, into which nothing has gone yet.\<close>

lemma sent_written:
  assumes "fds 1 = Some f" "fds 2 = Some f" and "io_buffer io = (\<lambda>_. [])" "sent_to f io = []"
  shows "sent_to f (fwrite flushes fds 0 ws io) = map snd (delivered flushes ws)"
    and "fds' 2 = Some f \<Longrightarrow> sent_to f (fflush Stderr fds' (fflush Stdout fds (fwrite flushes fds 0 ws io))) = map snd (captured flushes ws)"
  using assms(3,4)
  by (simp_all add: fwrite_leave [OF assms(1,2)] fflush_both [OF assms(1,2)] sent_to_def delivered_def captured_def
      filter_map comp_def split: prod.split)

section \<open>Tables\<close>

lemmas fd_ops = sys_open_def sys_dup_def sys_dup2_def sys_close_def sys_pipe_def

lemma fd_at:
  "sys_close fd fds i = (if i = fd then None else fds i)"
  "sys_dup2 old new fds i = (if i = new \<and> fds old \<noteq> None then fds old else fds i)"
  by (auto simp: sys_close_def sys_dup2_def split: option.split)

lemma sys_dup2_closed: "fds new = None \<Longrightarrow> sys_dup2 old new fds = fds(new := fds old)"
  by (auto simp: sys_dup2_def split: option.split)

lemma sys_close_fresh: "fds fd = None \<Longrightarrow> sys_close fd fds = fds"
  by (auto simp: sys_close_def)

lemma inherited_only_dup: "inherited_only fds \<Longrightarrow> inherited_only (sys_dup old new fds)"
  by (auto simp: inherited_only_def sys_dup_def)

end
