(* ===== verification/Text_Format.thy ===== *)
theory Text_Format
  imports Prelude
begin

text \<open>
  The numeric conversions of the \<^verbatim>\<open>printf\<close> family that the program uses: \<^verbatim>\<open>%d\<close> and \<^verbatim>\<open>%ji\<close> (\<open>show_int\<close>),
  \<^verbatim>\<open>%u\<close> (\<open>show_nat\<close>) \<^verbatim>\<open>%#x\<close> (\<open>show_hex\<close>) and, as glibc
  writes it, \<^verbatim>\<open>%p\<close> (\<open>show_ptr\<close>).
\<close>

definition digit :: "nat \<Rightarrow> char" where
  "digit d = ''0123456789abcdef'' ! d"

function show_base :: "nat \<Rightarrow> nat \<Rightarrow> string" where
  "show_base b n = (if n < b \<or> b < 2 then [digit (n mod 16)] else show_base b (n div b) @ [digit (n mod b)])"
  by pat_completeness auto
termination
  by (relation "measure snd") (auto intro: div_less_dividend)

declare show_base.simps [simp del]

definition show_nat :: "nat \<Rightarrow> string" where
  "show_nat n = show_base 10 n"

definition show_int :: "int \<Rightarrow> string" where
  "show_int i = (if i < 0 then ''-'' @ show_nat (nat (- i)) else show_nat (nat i))"

definition show_hex :: "nat \<Rightarrow> string" where
  "show_hex n = (if n = 0 then ''0'' else ''0x'' @ show_base 16 n)"

definition show_ptr :: "addr \<Rightarrow> string" where
  "show_ptr p = (if p = NULL then ''(nil)'' else show_hex (unat p))"

lemma digit_in: "d < 16 \<Longrightarrow> digit d \<in> set ''0123456789abcdef''"
  unfolding digit_def by (intro nth_mem) simp

lemma digit_not_NUL: "d < 16 \<Longrightarrow> digit d \<noteq> NUL"
  using digit_in [of d] by auto

lemma cstring_show_base: "b \<le> 16 \<Longrightarrow> cstring (show_base b n)"
proof (induction b n rule: show_base.induct)
  case (1 b n)
  show ?case
  proof (cases "n < b \<or> b < 2")
    case True
    then show ?thesis using digit_not_NUL [of "n mod 16"] by (simp add: show_base.simps [of b n] cstring_def)
  next
    case False
    then have "n mod b < 16" using 1(2) by (metis less_le_trans mod_less_divisor not_gr0 not_less not_numeral_le_zero)
    then have "digit (n mod b) \<noteq> NUL" by (rule digit_not_NUL)
    moreover have "cstring (show_base b (n div b))" by (rule 1(1) [OF False 1(2)])
    ultimately show ?thesis using False by (simp add: show_base.simps [of b n] cstring_def)
  qed
qed

lemma cstring_show_int: "cstring (show_int i)"
  using cstring_show_base [of 10] by (simp add: show_int_def show_nat_def cstring_def)

text \<open>The decimal digits of a number denote it.\<close>

definition digit_value :: "char \<Rightarrow> nat" where
  "digit_value c = of_char c - 48"

definition read_nat :: "string \<Rightarrow> nat" where
  "read_nat s = foldl (\<lambda>n c. n * 10 + digit_value c) 0 s"

lemma digit_value_digit: "d < 10 \<Longrightarrow> digit_value (digit d) = d"
proof -
  assume "d < 10"
  then have "d = 0 \<or> d = 1 \<or> d = 2 \<or> d = 3 \<or> d = 4 \<or> d = 5 \<or> d = 6 \<or> d = 7 \<or> d = 8 \<or> d = 9" by presburger
  then show ?thesis by (elim disjE) (simp_all add: digit_def digit_value_def)
qed

lemma read_show_nat: "read_nat (show_nat n) = n"
  unfolding show_nat_def
proof (induction n rule: less_induct)
  case (less n)
  then show ?case
    by (cases "n < 10") (simp_all add: show_base.simps [of 10 n] read_nat_def digit_value_digit)
qed

end
