(* ===== verification/Forking_Runner.thy ===== *)
theory Forking_Runner
  imports Exec_Events Runner_Utils Test_Execution Descriptors Text_Format
begin

text \<open>
  \<^verbatim>\<open>src/exec/forking_runner.c\<close>: a test case runs in a child process, whose events and output come
  back through two pipes. The child is modelled from the redirection of its descriptors and the execution of
  its test case (\<^verbatim>\<open>Test_Execution\<close>) to the bytes it leaves in the pipes and its exit status; the parent
  makes the pipes, polls them with the two readers, interprets the exit status, reports the result and closes
  what it has opened.
  What the kernel decides (how many bytes are ready when \<^verbatim>\<open>poll\<close> returns, which system calls fail) is a
  parameter.
\<close>

section \<open>Definitions\<close>

fun result_code :: "ctest_result_type \<Rightarrow> int" where
  "result_code CTEST_RESULT_PASS = 0"
| "result_code CTEST_RESULT_FAIL = 1"
| "result_code CTEST_RESULT_SKIPPED = 2"
| "result_code CTEST_RESULT_ERROR = 3"

definition coerce_result_type :: "int \<Rightarrow> ctest_result_type" where
  "coerce_result_type type =
     (if type = result_code CTEST_RESULT_PASS then CTEST_RESULT_PASS
      else if type = result_code CTEST_RESULT_FAIL then CTEST_RESULT_FAIL
      else if type = result_code CTEST_RESULT_SKIPPED then CTEST_RESULT_SKIPPED
      else CTEST_RESULT_ERROR)"

subsection \<open>The child\<close>

text \<open>The execution hooks of the child; their writer is the child's end of the event pipe, with descriptor \<open>eh_fd\<close>.\<close>

record exec_hooks =
  eh_fd :: int
  eh_stage :: ctest_stage_t
  eh_writer :: exec_event_writer

datatype child_status = Exited int | Signaled cint | Other_Status nat

text \<open>The child itself: its descriptors and its standard streams.\<close>

record child =
  cd_fds :: fd_table
  cd_io :: stdio

definition exec_hooks_init :: "int \<Rightarrow> mem \<Rightarrow> int list \<Rightarrow> exec_hooks" where
  "exec_hooks_init fd m limits =
     \<lparr>eh_fd = fd, eh_stage = CTEST_STAGE_SETUP, eh_writer = exec_event_writer_init m limits\<rparr>"

definition exec_hooks_destroy :: "exec_hooks \<Rightarrow> child \<Rightarrow> exec_hooks \<times> child" where
  "exec_hooks_destroy hooks cd =
     (\<lparr>eh_fd = 0, eh_stage = 0, eh_writer = exec_event_writer_destroy (eh_writer hooks)\<rparr>,
      cd\<lparr>cd_fds := sys_close (eh_fd hooks) (cd_fds cd)\<rparr>)"

text \<open>\<^verbatim>\<open>exit_child__\<close>: the streams are closed, which flushes them, and the result type is the exit code.\<close>

definition exit_child :: "ctest_result_type \<Rightarrow> child \<Rightarrow> child \<times> child_status" where
  "exit_child result cd =
     (case fclose Stderr (fclose Stdout (cd_fds cd, cd_io cd)) of (fds, io) \<Rightarrow>
        (\<lparr>cd_fds = sys_close 0 fds, cd_io = io\<rparr>, Exited (result_code result)))"

definition exec_hooks_op_on_stage_change :: "exec_hooks \<Rightarrow> ctest_stage_t \<Rightarrow> exec_hooks" where
  "exec_hooks_op_on_stage_change hooks stage =
     hooks\<lparr>eh_stage := stage, eh_writer := exec_event_writer_op_on_stage_change (eh_writer hooks) stage\<rparr>"

text \<open>\<open>sp\<close>: where the writer's local array lies.\<close>

definition exec_hooks_on_short_circuit ::
  "addr \<Rightarrow> exec_hooks \<Rightarrow> ctest_result_type \<Rightarrow> ctest_failure option \<Rightarrow> child \<Rightarrow> exec_hooks \<times> child \<times> child_status" where
  "exec_hooks_on_short_circuit sp hooks result_type failure cd =
     (let hooks = (case failure of
                     Some f \<Rightarrow> hooks\<lparr>eh_writer := exec_event_writer_op_on_failure (eh_writer hooks) sp f\<rparr>
                   | None \<Rightarrow> hooks);
          (hooks, cd) = exec_hooks_destroy hooks cd
      in (hooks, exit_child result_type cd))"

definition exec_hooks_op_on_skip ::
  "addr \<Rightarrow> exec_hooks \<Rightarrow> ctest_failure option \<Rightarrow> child \<Rightarrow> exec_hooks \<times> child \<times> child_status" where
  "exec_hooks_op_on_skip sp hooks failure cd = exec_hooks_on_short_circuit sp hooks CTEST_RESULT_SKIPPED failure cd"

definition exec_hooks_op_on_failure ::
  "addr \<Rightarrow> exec_hooks \<Rightarrow> ctest_failure option \<Rightarrow> child \<Rightarrow> exec_hooks \<times> child \<times> child_status" where
  "exec_hooks_op_on_failure sp hooks failure cd = exec_hooks_on_short_circuit sp hooks CTEST_RESULT_FAIL failure cd"

definition signal_failure :: "ctest_stage_t \<Rightarrow> cint \<Rightarrow> ctest_failure" where
  "signal_failure stage signum =
     \<lparr>fl_stage = stage,
      fl_description = Some (take 127 (''Caught unexpected signal: '' @ show_int (sint signum) @ [CHR 0x0A])),
      fl_location = None, fl_stacktrace = None\<rparr>"

definition exec_hooks_on_signal :: "addr \<Rightarrow> exec_hooks \<Rightarrow> cint \<Rightarrow> child \<Rightarrow> exec_hooks \<times> child \<times> child_status" where
  "exec_hooks_on_signal sp hooks signum cd =
     (let failure = signal_failure (eh_stage hooks) signum;
          hooks = hooks\<lparr>eh_writer := exec_event_writer_op_on_failure (eh_writer hooks) sp failure\<rparr>;
          (hooks, cd) = exec_hooks_destroy hooks cd
      in (hooks, exit_child CTEST_RESULT_FAIL cd))"

text \<open>The hook calls a test case makes while it runs, in the order it makes them.\<close>

fun replay_call :: "exec_call \<Rightarrow> exec_hooks \<Rightarrow> exec_hooks" where
  "replay_call (Stage_Changed stage) hooks = exec_hooks_op_on_stage_change hooks stage"
| "replay_call _ hooks = hooks"

text \<open>
  What the child finds: its memory and stack, which calls of \<^verbatim>\<open>sigaction\<close> fail, the descriptor of \<^verbatim>\<open>/dev/null\<close>, what
  the parent had in the buffers of its streams when it forked, and when the library empties a buffer.
\<close>

record child_env =
  ch_sp :: addr
  ch_mem :: mem
  ch_sigaction :: "cint \<Rightarrow> int option"
  ch_null :: int
  ch_pending :: "stream \<Rightarrow> byte list"
  ch_flushes :: "nat \<Rightarrow> bool"

text \<open>The branch of the child up to its hooks: the descriptors are redirected, after the streams have been flushed.\<close>

definition child_redirect :: "child_env \<Rightarrow> int \<times> int \<Rightarrow> int \<times> int \<Rightarrow> fd_table \<Rightarrow> child" where
  "child_redirect env hooks_pipe output_pipe fds =
     (let output_fd = snd output_pipe;
          stdin_new = ch_null env;
          fds = sys_open Dev_Null stdin_new fds;
          fds = sys_close (fst hooks_pipe) fds;
          fds = sys_close (fst output_pipe) fds;
          io = fflush Stdout fds \<lparr>io_buffer = ch_pending env, io_sent = []\<rparr>;
          io = fflush Stderr fds io;
          fds = sys_close 0 fds;
          fds = sys_close 1 fds;
          fds = sys_close 2 fds;
          fds = sys_dup2 stdin_new 0 fds;
          fds = sys_dup2 output_fd 1 fds;
          fds = sys_dup2 output_fd 2 fds;
          fds = sys_close stdin_new fds;
          fds = sys_close output_fd fds
      in \<lparr>cd_fds = fds, cd_io = io\<rparr>)"

text \<open>The end of a child whose test case returns.\<close>

definition child_passed :: "exec_hooks \<Rightarrow> child \<Rightarrow> exec_hooks \<times> child \<times> child_status" where
  "child_passed hooks cd =
     (let (hooks, cd) = exec_hooks_destroy hooks cd in (hooks, exit_child CTEST_RESULT_PASS cd))"

text \<open>
  The child from the fork to its end: the bytes it leaves in the event pipe and in the output pipe, and its status.
  It starts as a copy of the process, with both pipes open. The signal that ends a test case goes to the handler if
  it is captured; otherwise it kills the child if its disposition says so, and the child loses what is still in its
  buffers. Events and output go where the descriptors refer to (should both end in one pipe, the order between them is
  not that of the calls).
\<close>

definition child_run ::
  "child_env \<Rightarrow> dynamic_ops \<times> ending option \<Rightarrow> process \<Rightarrow> int \<times> int \<Rightarrow> int \<times> int
   \<Rightarrow> byte list \<times> byte list \<times> child_status" where
  "child_run env exec proc hooks_pipe output_pipe =
     (let cd = child_redirect env hooks_pipe output_pipe (pr_fds proc);
          hooks_fd = snd hooks_pipe;
          hooks = exec_hooks_init hooks_fd (ch_mem env) [];
          events_to = cd_fds cd hooks_fd;
          (sigs, rc, errno) = sigcapture (ch_sigaction env) True (Some ()) (pr_sigs proc);
          (d, ending) = exec;
          hooks = fold replay_call (dyn_calls d) hooks;
          cd = cd\<lparr>cd_io := fwrite (ch_flushes env) (cd_fds cd) 0 (dyn_output d) (cd_io cd)\<rparr>;
          (hooks, cd, status) =
            (case ending of
               None \<Rightarrow> child_passed hooks cd
             | Some (On_Skip failure) \<Rightarrow> exec_hooks_op_on_skip (ch_sp env) hooks failure cd
             | Some (On_Failure failure) \<Rightarrow> exec_hooks_op_on_failure (ch_sp env) hooks failure cd
             | Some (On_Signal signum) \<Rightarrow>
                 (case sighandler sigs signum of
                    Handled _ \<Rightarrow> exec_hooks_on_signal (ch_sp env) hooks signum cd
                  | Null_Call \<Rightarrow> (hooks, cd, Signaled 11)
                  | Not_Captured disp \<Rightarrow>
                      if fatal_signal disp signum then (hooks, cd, Signaled signum) else child_passed hooks cd));
          pipe = (\<lambda>p. (if events_to = Some (Write_End p) then wr_out (eh_writer hooks) else []) @
                      sent_to (Write_End p) (cd_io cd))
      in (pipe Hooks_Pipe, pipe Output_Pipe, status))"

subsection \<open>The consumer of the child's events\<close>

record child_event_consumer =
  cc_stage :: ctest_stage_t
  cc_last_failure :: "ctest_failure option"

definition child_event_consumer_op_on_stage_change ::
  "child_event_consumer \<Rightarrow> ctest_stage_t \<Rightarrow> child_event_consumer" where
  "child_event_consumer_op_on_stage_change consumer stage = consumer\<lparr>cc_stage := stage\<rparr>"

definition child_event_consumer_op_on_failure ::
  "child_event_consumer \<Rightarrow> ctest_failure option \<Rightarrow> child_event_consumer" where
  "child_event_consumer_op_on_failure consumer failure = consumer\<lparr>cc_last_failure := failure\<rparr>"

definition child_event_consumer_ops :: "child_event_consumer exec_event_consumer_ops" where
  "child_event_consumer_ops =
     \<lparr>op_on_stage_change = child_event_consumer_op_on_stage_change,
      op_on_failure = child_event_consumer_op_on_failure\<rparr>"

definition child_event_consumer_init :: child_event_consumer where
  "child_event_consumer_init = \<lparr>cc_stage = CTEST_STAGE_SETUP, cc_last_failure = None\<rparr>"

definition child_event_consumer_destroy :: "child_event_consumer \<Rightarrow> child_event_consumer" where
  "child_event_consumer_destroy consumer = \<lparr>cc_stage = 0, cc_last_failure = None\<rparr>"

subsection \<open>The parent\<close>

text \<open>
  What can happen to the parent: it crashes, it waits for ever (or longer than the calls of \<^verbatim>\<open>poll\<close> that
  are given), or it gets on with a value.
\<close>

datatype 'a run = Crash | Waiting | Done 'a

datatype wait_result = Wait_Error | Wait_Pid int child_status

text \<open>
  One return of \<^verbatim>\<open>poll\<close>: an error, or the bytes that are ready in the two pipes, with 0 for a pipe
  without an event. \<^verbatim>\<open>poll\<close> ignores negative descriptors, and on a drained pipe whose writer is gone it
  reports \<^verbatim>\<open>POLLHUP\<close> alone.
\<close>

datatype poll_round = Poll_Error | Poll_Events nat nat

datatype revents = No_Event | Pollin nat | Pollhup

definition poll_revents :: "int \<Rightarrow> byte list \<Rightarrow> nat \<Rightarrow> revents" where
  "poll_revents fd pipe k =
     (if fd < 0 \<or> k = 0 then No_Event else if pipe \<noteq> [] then Pollin k else Pollhup)"

record parent_env =
  pa_alloc_ok :: bool
  pa_strerror :: string
  pa_strsignal :: "cint \<Rightarrow> string"
  pa_self :: addr
  pa_mem :: mem
  pa_mapped :: "addr \<Rightarrow> bool"
  pa_mallocs :: "addr list"
  pa_rounds :: "poll_round list"
  pa_waitpid :: "bool \<Rightarrow> child_status \<Rightarrow> wait_result"
  pa_child :: int

text \<open>\<^verbatim>\<open>ctest_failure_create\<close> without a location or stack trace, for a formatted text.\<close>

definition new_failure :: "parent_env \<Rightarrow> ctest_stage_t \<Rightarrow> string \<Rightarrow> ctest_failure option" where
  "new_failure env stage text =
     (if pa_alloc_ok env
      then Some \<lparr>fl_stage = stage, fl_description = Some text, fl_location = None, fl_stacktrace = None\<rparr>
      else None)"

text \<open>The local variables of \<^verbatim>\<open>wait_for_child__\<close> and the result it fills in.\<close>

record waiter =
  wc_reader :: "child_event_consumer exec_event_reader"
  wc_output :: output_reader
  wc_hooks_fd :: int
  wc_output_fd :: int
  wc_result :: ctest_result
  wc_retval :: int

definition wc_stage :: "waiter \<Rightarrow> ctest_stage_t" where
  "wc_stage w = cc_stage (er_consumer (wc_reader w))"

text \<open>\<^verbatim>\<open>retval = ctest_result_set_failure(result, CTEST_RESULT_ERROR, failure)\<close>\<close>

definition set_error :: "parent_env \<Rightarrow> string \<Rightarrow> waiter \<Rightarrow> waiter" where
  "set_error env text w =
     (case ctest_result_set_failure (wc_result w) CTEST_RESULT_ERROR (new_failure env (wc_stage w) text) of
        (result, freed, rc) \<Rightarrow> w\<lparr>wc_result := result, wc_retval := rc\<rparr>)"

text \<open>What the loop makes of the return code of a handler, and whether the pipe is to be closed.\<close>

definition consumption :: "parent_env \<Rightarrow> string \<Rightarrow> int \<Rightarrow> waiter \<Rightarrow> waiter \<times> bool" where
  "consumption env name rc w =
     (if rc < 0
      then (set_error env (''consumption of '' @ name @ '' from child failed: '' @ pa_strerror env) w, True)
      else (w, rc = 0))"

definition poll_hooks :: "parent_env \<Rightarrow> revents \<Rightarrow> waiter \<Rightarrow> waiter option" where
  "poll_hooks env revents w =
     map_option (\<lambda>(w, f_close). if f_close then w\<lparr>wc_hooks_fd := - wc_hooks_fd w\<rparr> else w)
       (case revents of
          No_Event \<Rightarrow> Some (w, False)
        | Pollhup \<Rightarrow> Some (w, True)
        | Pollin k \<Rightarrow>
            map_option (\<lambda>(reader, rc). consumption env ''execution hooks'' rc (w\<lparr>wc_reader := reader\<rparr>))
              (reader_op_on_data_available child_event_consumer_ops k (wc_reader w)))"

definition poll_output :: "parent_env \<Rightarrow> revents \<Rightarrow> waiter \<Rightarrow> waiter option" where
  "poll_output env revents w =
     map_option (\<lambda>(w, f_close). if f_close then w\<lparr>wc_output_fd := - wc_output_fd w\<rparr> else w)
       (case revents of
          No_Event \<Rightarrow> Some (w, False)
        | Pollhup \<Rightarrow> Some (w, True)
        | Pollin k \<Rightarrow>
            map_option (\<lambda>(reader, rc). consumption env ''output'' rc (w\<lparr>wc_output := reader\<rparr>))
              (op_on_data_available k (wc_output w)))"

text \<open>The loop; the result says whether the child has to be killed.\<close>

fun wait_loop :: "parent_env \<Rightarrow> poll_round list \<Rightarrow> waiter \<Rightarrow> (bool \<times> waiter) run" where
  "wait_loop env rounds w =
     (if wc_hooks_fd w < 0 \<and> wc_output_fd w < 0 then Done (False, w)
      else case rounds of
             [] \<Rightarrow> Waiting
           | Poll_Error # _ \<Rightarrow> Done (True, set_error env (''poll of child data failed: '' @ pa_strerror env) w)
           | Poll_Events k1 k2 # rounds \<Rightarrow>
               (let revents1 = poll_revents (wc_hooks_fd w) (er_pipe (wc_reader w)) k1;
                    revents2 = poll_revents (wc_output_fd w) (or_pipe (wc_output w)) k2
                in case poll_hooks env revents1 w of
                     None \<Rightarrow> Crash
                   | Some w \<Rightarrow>
                       (case poll_output env revents2 w of
                          None \<Rightarrow> Crash
                        | Some w \<Rightarrow> wait_loop env rounds w)))"

declare wait_loop.simps [simp del]

definition set_status :: "parent_env \<Rightarrow> wait_result \<Rightarrow> waiter \<Rightarrow> waiter" where
  "set_status env waited w =
     (case waited of
        Wait_Error \<Rightarrow> set_error env (''error waiting for child: '' @ pa_strerror env) w
      | Wait_Pid pid status \<Rightarrow>
          if pid \<noteq> pa_child env
          then set_error env (''unexpected pid waited: '' @ show_int pid @ '' (expecting '' @
                 show_int (pa_child env) @ '')'') w
          else case status of
                 Exited code \<Rightarrow>
                   (let result_type = coerce_result_type (code mod 256)
                    in if result_type = CTEST_RESULT_PASS
                       then w\<lparr>wc_result := fst (ctest_result_set_failure (wc_result w) result_type None),
                              wc_retval := 0\<rparr>
                       else let consumer = er_consumer (wc_reader w)
                            in w\<lparr>wc_retval := (if result_type \<noteq> CTEST_RESULT_SKIPPED then 1 else 0),
                                 wc_result := fst (ctest_result_set_failure (wc_result w) result_type
                                   (cc_last_failure consumer)),
                                 wc_reader := (wc_reader w)\<lparr>er_consumer := consumer\<lparr>cc_last_failure := None\<rparr>\<rparr>\<rparr>)
               | Signaled signum \<Rightarrow>
                   set_error env (''terminated by signal: '' @ pa_strsignal env signum @ '' ('' @
                     show_int (sint signum) @ '')'') w
               | Other_Status n \<Rightarrow> set_error env (''child exited with error: '' @ show_hex n) w)"

definition wait_for_child ::
  "parent_env \<Rightarrow> ctest_result \<Rightarrow> int \<Rightarrow> int \<Rightarrow> byte list \<times> byte list \<times> child_status \<Rightarrow> waiter run" where
  "wait_for_child env result hooks_fd output_fd child =
     (case child of (hooks_pipe, output_pipe, status) \<Rightarrow>
      let w = \<lparr>wc_reader = exec_event_reader_init (pa_self env) (pa_mem env) (pa_mapped env) (pa_mallocs env)
                 hooks_pipe child_event_consumer_init,
               wc_output = output_reader_init [] output_pipe,
               wc_hooks_fd = hooks_fd, wc_output_fd = output_fd, wc_result = result, wc_retval = -1\<rparr>
      in case wait_loop env (pa_rounds env) w of
           Crash \<Rightarrow> Crash
         | Waiting \<Rightarrow> Waiting
         | Done (killed, w) \<Rightarrow>
             (let w = set_status env (pa_waitpid env killed status) w
              in case output_reader_build (wc_output w) of
                   None \<Rightarrow> Crash
                 | Some (reader, built) \<Rightarrow>
                     (let w = w\<lparr>wc_result := (wc_result w)\<lparr>res_output := built\<rparr>, wc_output := reader\<rparr>;
                          w = w\<lparr>wc_reader := exec_event_reader_destroy (wc_reader w)\<rparr>;
                          w = w\<lparr>wc_reader := (wc_reader w)\<lparr>er_consumer :=
                                  child_event_consumer_destroy (er_consumer (wc_reader w))\<rparr>\<rparr>
                      in Done (w\<lparr>wc_output := output_reader_destroy (wc_output w)\<rparr>))))"

text \<open>Which of the calls before the fork succeed, and the descriptors of the pipes, the read ends first.\<close>

record fork_env =
  fk_result_ok :: bool
  fk_hooks_pipe :: "(int \<times> int) option"
  fk_output_pipe :: "(int \<times> int) option"
  fk_forked :: bool

definition close_pipe :: "int \<times> int \<Rightarrow> fd_table \<Rightarrow> fd_table" where
  "close_pipe ends fds = sys_close (snd ends) (sys_close (fst ends) fds)"

text \<open>The readers own the descriptors they read from and close them when they are destroyed.\<close>

definition close_readers :: "waiter \<Rightarrow> int \<Rightarrow> int \<Rightarrow> fd_table \<Rightarrow> fd_table" where
  "close_readers w hooks_fd output_fd fds =
     (let fds = (if er_open (wc_reader w) then fds else sys_close hooks_fd fds)
      in if or_open (wc_output w) then fds else sys_close output_fd fds)"

text \<open>
  \<open>child\<close> is what the child does, given the process it is a copy of and the two pipes. The parent's table of
  descriptors ends with what the function leaves open.
\<close>

definition forking_run_testcase ::
  "fork_env \<Rightarrow> parent_env \<Rightarrow> ('r, 's, 't, 'c) reporter_ops
   \<Rightarrow> (process \<Rightarrow> int \<times> int \<Rightarrow> int \<times> int \<Rightarrow> byte list \<times> byte list \<times> child_status) \<Rightarrow> process \<Rightarrow> 'r
   \<Rightarrow> (process \<times> 'r \<times> int) run" where
  "forking_run_testcase fenv env ops child proc r =
     (case ctest_result_create_empty (fk_result_ok fenv) of
        None \<Rightarrow> Done (proc, r, -1)
      | Some result \<Rightarrow>
          (let r = testcase_start ops r;
               fds0 = pr_fds proc;
               failed = (\<lambda>text fds. case ctest_result_set_failure result CTEST_RESULT_ERROR
                   (new_failure env CTEST_STAGE_SETUP (text @ pa_strerror env)) of
                     (result, freed, retval) \<Rightarrow>
                       Done (proc\<lparr>pr_fds := fds\<rparr>, testcase_complete ops r result, retval))
           in case fk_hooks_pipe fenv of
                None \<Rightarrow> failed ''unable to create result pipe: '' fds0
              | Some hooks_pipe \<Rightarrow>
                  (let fds1 = sys_pipe Hooks_Pipe hooks_pipe fds0
                   in case fk_output_pipe fenv of
                        None \<Rightarrow> failed ''unable to create output pipe: '' (close_pipe hooks_pipe fds1)
                      | Some output_pipe \<Rightarrow>
                          (let fds2 = sys_pipe Output_Pipe output_pipe fds1
                           in if \<not> fk_forked fenv
                              then failed ''unable to fork child process: ''
                                     (close_pipe hooks_pipe (close_pipe output_pipe fds2))
                              else let hooks_fd = fst hooks_pipe;
                                       output_fd = fst output_pipe;
                                       fds3 = sys_close (snd output_pipe) (sys_close (snd hooks_pipe) fds2)
                                   in case wait_for_child env result hooks_fd output_fd
                                             (child (proc\<lparr>pr_fds := fds2\<rparr>) hooks_pipe output_pipe) of
                                        Crash \<Rightarrow> Crash
                                      | Waiting \<Rightarrow> Waiting
                                      | Done w \<Rightarrow>
                                          Done (proc\<lparr>pr_fds := close_readers w hooks_fd output_fd fds3\<rparr>,
                                            testcase_complete ops r (wc_result w), wc_retval w)))))"

section \<open>The poll loop\<close>

text \<open>What is left to do for each of the two pipes: the unread bytes and the end of file.\<close>

definition hooks_left :: "waiter \<Rightarrow> nat" where
  "hooks_left w = length (er_pipe (wc_reader w)) + (if wc_hooks_fd w < 0 then 0 else 1)"

definition output_left :: "waiter \<Rightarrow> nat" where
  "output_left w = length (or_pipe (wc_output w)) + (if wc_output_fd w < 0 then 0 else 1)"

definition hooks_good :: "child_event_consumer \<Rightarrow> waiter \<Rightarrow> bool" where
  "hooks_good c w \<longleftrightarrow> reader_good child_event_consumer_ops c (wc_reader w) \<and> wc_hooks_fd w \<noteq> 0 \<and>
     (wc_hooks_fd w < 0 \<longrightarrow> er_pipe (wc_reader w) = [])"

definition outputs_good :: "byte list \<Rightarrow> waiter \<Rightarrow> bool" where
  "outputs_good bs w \<longleftrightarrow> output_good bs (wc_output w) \<and> wc_output_fd w \<noteq> 0 \<and>
     (wc_output_fd w < 0 \<longrightarrow> or_pipe (wc_output w) = [])"

lemma poll_hooks_step:
  assumes "hooks_good c w"
  shows "\<exists>reader fd. poll_hooks env (poll_revents (wc_hooks_fd w) (er_pipe (wc_reader w)) k) w
      = Some (w\<lparr>wc_reader := reader, wc_hooks_fd := fd\<rparr>) \<and>
    hooks_good c (w\<lparr>wc_reader := reader, wc_hooks_fd := fd\<rparr>) \<and>
    hooks_left (w\<lparr>wc_reader := reader, wc_hooks_fd := fd\<rparr>) \<le> hooks_left w - (if 0 < k then 1 else 0)"
proof (cases "wc_hooks_fd w < 0 \<or> k = 0")
  case True
  then have "poll_hooks env (poll_revents (wc_hooks_fd w) (er_pipe (wc_reader w)) k) w
      = Some (w\<lparr>wc_reader := wc_reader w, wc_hooks_fd := wc_hooks_fd w\<rparr>)"
    by (simp add: poll_hooks_def poll_revents_def)
  with True assms show ?thesis
    by (intro exI [of _ "wc_reader w"] exI [of _ "wc_hooks_fd w"])
      (auto simp: hooks_good_def hooks_left_def)
next
  case False
  show ?thesis
  proof (cases "er_pipe (wc_reader w) = []")
    case True
    with False assms show ?thesis
      by (intro exI [of _ "wc_reader w"] exI [of _ "- wc_hooks_fd w"])
        (auto simp: poll_hooks_def poll_revents_def hooks_good_def hooks_left_def)
  next
    case nonempty: False
    with False assms obtain reader n where r: "reader_op_on_data_available child_event_consumer_ops k (wc_reader w)
        = Some (reader, int n)" "0 < n" "er_pipe reader = drop n (er_pipe (wc_reader w))"
        "reader_good child_event_consumer_ops c reader"
      using rdr.handler_ok [of child_event_consumer_ops c "wc_reader w" k] by (auto simp: hooks_good_def)
    with False nonempty assms show ?thesis
      by (intro exI [of _ reader] exI [of _ "wc_hooks_fd w"])
        (auto simp: poll_hooks_def poll_revents_def consumption_def hooks_good_def hooks_left_def Suc_le_eq)
  qed
qed

lemma poll_output_step:
  assumes "outputs_good bs w"
  shows "\<exists>reader fd. poll_output env (poll_revents (wc_output_fd w) (or_pipe (wc_output w)) k) w
      = Some (w\<lparr>wc_output := reader, wc_output_fd := fd\<rparr>) \<and>
    outputs_good bs (w\<lparr>wc_output := reader, wc_output_fd := fd\<rparr>) \<and>
    output_left (w\<lparr>wc_output := reader, wc_output_fd := fd\<rparr>) \<le> output_left w - (if 0 < k then 1 else 0)"
proof (cases "wc_output_fd w < 0 \<or> k = 0")
  case True
  then have "poll_output env (poll_revents (wc_output_fd w) (or_pipe (wc_output w)) k) w
      = Some (w\<lparr>wc_output := wc_output w, wc_output_fd := wc_output_fd w\<rparr>)"
    by (simp add: poll_output_def poll_revents_def)
  with True assms show ?thesis
    by (intro exI [of _ "wc_output w"] exI [of _ "wc_output_fd w"])
      (auto simp: outputs_good_def output_left_def)
next
  case False
  show ?thesis
  proof (cases "or_pipe (wc_output w) = []")
    case True
    with False assms show ?thesis
      by (intro exI [of _ "wc_output w"] exI [of _ "- wc_output_fd w"])
        (auto simp: poll_output_def poll_revents_def outputs_good_def output_left_def)
  next
    case nonempty: False
    with False assms obtain reader n where r: "op_on_data_available k (wc_output w) = Some (reader, int n)"
        "0 < n" "or_pipe reader = drop n (or_pipe (wc_output w))" "output_good bs reader"
      using outr.handler_ok [of bs "wc_output w" k] by (auto simp: outputs_good_def)
    with False nonempty assms show ?thesis
      by (intro exI [of _ reader] exI [of _ "wc_output_fd w"])
        (auto simp: poll_output_def poll_revents_def consumption_def outputs_good_def output_left_def Suc_le_eq)
  qed
qed

text \<open>A descriptor only ever changes its sign.\<close>

lemma set_error_fds [simp]:
  "wc_hooks_fd (set_error env text w) = wc_hooks_fd w" "wc_output_fd (set_error env text w) = wc_output_fd w"
  by (simp_all add: set_error_def ctest_result_set_failure_def Let_def)

lemma consumption_fds:
  "consumption env name rc w = (w', f_close) \<Longrightarrow> wc_hooks_fd w' = wc_hooks_fd w \<and> wc_output_fd w' = wc_output_fd w"
  by (auto simp: consumption_def split: if_splits)

lemma poll_hooks_fds:
  "poll_hooks env ev w = Some w' \<Longrightarrow>
    (wc_hooks_fd w' = wc_hooks_fd w \<or> wc_hooks_fd w' = - wc_hooks_fd w) \<and> wc_output_fd w' = wc_output_fd w"
  by (cases ev) (auto simp: poll_hooks_def split: if_splits dest!: consumption_fds)

lemma poll_output_fds:
  "poll_output env ev w = Some w' \<Longrightarrow>
    (wc_output_fd w' = wc_output_fd w \<or> wc_output_fd w' = - wc_output_fd w) \<and> wc_hooks_fd w' = wc_hooks_fd w"
  by (cases ev) (auto simp: poll_output_def split: if_splits dest!: consumption_fds)

fun hooks_ready :: "poll_round \<Rightarrow> bool" where
  "hooks_ready (Poll_Events k1 k2) = (0 < k1)"
| "hooks_ready Poll_Error = False"

fun output_ready :: "poll_round \<Rightarrow> bool" where
  "output_ready (Poll_Events k1 k2) = (0 < k2)"
| "output_ready Poll_Error = False"

text \<open>
  As long as \<^verbatim>\<open>poll\<close> does not fail, each pipe is drained and closed once it has been ready often enough,
  whatever the order in which the pipes become ready.
\<close>

lemma wait_loop_drains:
  assumes "hooks_good c w" and "outputs_good bs w" and "Poll_Error \<notin> set rounds"
    and "hooks_left w \<le> length (filter hooks_ready rounds)"
    and "output_left w \<le> length (filter output_ready rounds)"
  shows "\<exists>w'. wait_loop env rounds w = Done (False, w') \<and> hooks_good c w' \<and> outputs_good bs w' \<and>
    wc_hooks_fd w' < 0 \<and> wc_output_fd w' < 0 \<and> wc_result w' = wc_result w \<and> wc_retval w' = wc_retval w"
  using assms
proof (induction rounds arbitrary: w)
  case Nil
  then have "wc_hooks_fd w < 0" "wc_output_fd w < 0"
    by (auto simp: hooks_left_def output_left_def split: if_splits)
  with Nil.prems show ?case by (simp add: wait_loop.simps)
next
  case (Cons p rounds)
  show ?case
  proof (cases "wc_hooks_fd w < 0 \<and> wc_output_fd w < 0")
    case True
    with Cons.prems show ?thesis by (simp add: wait_loop.simps)
  next
    case False
    obtain k1 k2 where p: "p = Poll_Events k1 k2" using Cons.prems(3) by (cases p) auto
    from poll_hooks_step [OF Cons.prems(1), of env k1] obtain r1 f1 where
      h: "poll_hooks env (poll_revents (wc_hooks_fd w) (er_pipe (wc_reader w)) k1) w
            = Some (w\<lparr>wc_reader := r1, wc_hooks_fd := f1\<rparr>)"
         "hooks_good c (w\<lparr>wc_reader := r1, wc_hooks_fd := f1\<rparr>)"
         "hooks_left (w\<lparr>wc_reader := r1, wc_hooks_fd := f1\<rparr>) \<le> hooks_left w - (if 0 < k1 then 1 else 0)"
      by blast
    let ?w1 = "w\<lparr>wc_reader := r1, wc_hooks_fd := f1\<rparr>"
    have "outputs_good bs ?w1" using Cons.prems(2) by (simp add: outputs_good_def)
    from poll_output_step [OF this, of env k2] obtain r2 f2 where
      out: "poll_output env (poll_revents (wc_output_fd w) (or_pipe (wc_output w)) k2) ?w1
            = Some (?w1\<lparr>wc_output := r2, wc_output_fd := f2\<rparr>)"
         "outputs_good bs (?w1\<lparr>wc_output := r2, wc_output_fd := f2\<rparr>)"
         "output_left (?w1\<lparr>wc_output := r2, wc_output_fd := f2\<rparr>) \<le> output_left w - (if 0 < k2 then 1 else 0)"
      by (auto simp: output_left_def)
    let ?w2 = "?w1\<lparr>wc_output := r2, wc_output_fd := f2\<rparr>"
    have "hooks_good c ?w2" "hooks_left ?w2 \<le> length (filter hooks_ready rounds)"
        "output_left ?w2 \<le> length (filter output_ready rounds)"
      using h(2,3) out(3) Cons.prems(4,5) p
      by (auto simp: hooks_good_def hooks_left_def output_left_def split: if_splits)
    from Cons.IH [OF this(1) out(2) _ this(2,3)] Cons.prems(3) h(1) out(1) p False show ?thesis
      by (auto simp: wait_loop.simps [of env "Poll_Events k1 k2 # rounds" w] Let_def)
  qed
qed

section \<open>The child\<close>

fun stage_events :: "exec_call list \<Rightarrow> exec_event list" where
  "stage_events [] = []"
| "stage_events (Stage_Changed stage # calls) = Stage_Change stage # stage_events calls"
| "stage_events (_ # calls) = stage_events calls"

fun last_stage :: "ctest_stage_t \<Rightarrow> exec_call list \<Rightarrow> ctest_stage_t" where
  "last_stage stage [] = stage"
| "last_stage stage (Stage_Changed stage' # calls) = last_stage stage' calls"
| "last_stage stage (_ # calls) = last_stage stage calls"

definition caught :: "child_env \<Rightarrow> cint \<Rightarrow> bool" where
  "caught env signum \<longleftrightarrow>
     first_error (ch_sigaction env) signals = None \<and> signum \<in> set signals \<and> ch_sigaction env signum = None"

text \<open>The failure a child reports, and everything it reports, given how its test case went.\<close>

definition child_failure :: "child_env \<Rightarrow> dynamic_ops \<Rightarrow> ending option \<Rightarrow> ctest_failure option" where
  "child_failure env d ending =
     (case ending of
        None \<Rightarrow> None
      | Some (On_Skip failure) \<Rightarrow> failure
      | Some (On_Failure failure) \<Rightarrow> failure
      | Some (On_Signal signum) \<Rightarrow>
          if caught env signum then Some (signal_failure (last_stage CTEST_STAGE_SETUP (dyn_calls d)) signum)
          else None)"

definition child_events :: "child_env \<Rightarrow> dynamic_ops \<Rightarrow> ending option \<Rightarrow> exec_event list" where
  "child_events env d ending =
     stage_events (dyn_calls d) @
     (case child_failure env d ending of Some f \<Rightarrow> [Failure_Event f] | None \<Rightarrow> [])"

definition child_status_of :: "child_env \<Rightarrow> ending option \<Rightarrow> child_status" where
  "child_status_of env ending =
     (case ending of
        None \<Rightarrow> Exited (result_code CTEST_RESULT_PASS)
      | Some (On_Skip failure) \<Rightarrow> Exited (result_code CTEST_RESULT_SKIPPED)
      | Some (On_Failure failure) \<Rightarrow> Exited (result_code CTEST_RESULT_FAIL)
      | Some (On_Signal signum) \<Rightarrow>
          if caught env signum then Exited (result_code CTEST_RESULT_FAIL) else Signaled signum)"

text \<open>
  What the child leaves in the two pipes: the messages of its events, and the bytes the test case wrote to its two
  streams, of which a killed child has delivered only some.
\<close>

definition event_bytes :: "child_env \<Rightarrow> dynamic_ops \<Rightarrow> ending option \<Rightarrow> byte list" where
  "event_bytes env d ending =
     wr_out (fold (write_event (ch_sp env)) (child_events env d ending) (exec_event_writer_init (ch_mem env) []))"

definition child_output_of :: "child_env \<Rightarrow> dynamic_ops \<Rightarrow> ending option \<Rightarrow> byte list" where
  "child_output_of env d ending =
     map snd (case child_status_of env ending of
        Exited code \<Rightarrow> captured (ch_flushes env) (dyn_output d)
      | _ \<Rightarrow> delivered (ch_flushes env) (dyn_output d))"

text \<open>
  The pipes, and \<^verbatim>\<open>/dev/null\<close> if it could be opened, got descriptors that were free and are none of the standard ones,
  and the process has no others of the files that are opened here.
\<close>

definition pipes_ok :: "fork_env \<Rightarrow> child_env \<Rightarrow> fd_table \<Rightarrow> bool" where
  "pipes_ok fenv cenv fds \<longleftrightarrow>
     inherited_only fds \<and>
     (case (fk_hooks_pipe fenv, fk_output_pipe fenv) of
        (Some (a, b), Some (c, d)) \<Rightarrow>
          distinct [0, 1, 2, a, b, c, d, ch_null cenv] \<and> list_all (\<lambda>fd. 0 < fd) [a, b, c, d] \<and>
          list_all (\<lambda>fd. fds fd = None) [a, b, c, d, ch_null cenv]
      | _ \<Rightarrow> False)"

text \<open>A signal that ends the test case is caught or kills the child.\<close>

definition signal_ends :: "child_env \<Rightarrow> process \<Rightarrow> ending option \<Rightarrow> bool" where
  "signal_ends cenv proc ending \<longleftrightarrow>
     (case ending of
        Some (On_Signal signum) \<Rightarrow> caught cenv signum \<or> fatal_signal (sg_disp (pr_sigs proc) signum) signum
      | _ \<Rightarrow> True)"

definition signals_initial :: "process \<Rightarrow> bool" where
  "signals_initial proc \<longleftrightarrow>
     pr_sigs proc = sig_initial (sg_disp (pr_sigs proc)) \<and> (\<forall>s. sg_disp (pr_sigs proc) s \<noteq> Disp_Sighandler)"

lemma replay_calls:
  "eh_writer (fold replay_call calls hooks) = fold (write_event sp) (stage_events calls) (eh_writer hooks)"
  "eh_stage (fold replay_call calls hooks) = last_stage (eh_stage hooks) calls"
  by (induction calls arbitrary: hooks rule: stage_events.induct) (simp_all add: exec_hooks_op_on_stage_change_def)

lemma wr_out_destroy [simp]: "wr_out (exec_event_writer_destroy w) = wr_out w"
  by (simp add: exec_event_writer_destroy_def)

text \<open>
  After the redirection both streams end in the output pipe and the events in the event pipe, and the buffers are
  empty: what the parent had left there went to the former files.
\<close>

lemma redirected:
  assumes "pipes_ok fenv cenv fds" and "fk_hooks_pipe fenv = Some hooks_pipe" "fk_output_pipe fenv = Some output_pipe"
    and "cd = child_redirect cenv hooks_pipe output_pipe (sys_pipe Output_Pipe output_pipe (sys_pipe Hooks_Pipe hooks_pipe fds))"
  shows "cd_fds cd 1 = Some (Write_End Output_Pipe)" "cd_fds cd 2 = Some (Write_End Output_Pipe)"
    "cd_fds cd (snd hooks_pipe) = Some (Write_End Hooks_Pipe)"
    "io_buffer (cd_io cd) = (\<lambda>_. [])" "sent_to (Write_End p) (cd_io cd) = []"
proof -
  obtain a b c d where ends: "hooks_pipe = (a, b)" "output_pipe = (c, d)" by (cases hooks_pipe; cases output_pipe)
  from assms(1-3) ends have dist: "distinct [0, 1, 2, a, b, c, d, ch_null cenv]" and inherited: "inherited_only fds"
    by (simp_all add: pipes_ok_def)
  note cd = assms(4) [unfolded child_redirect_def Let_def ends, simplified]
  show "cd_fds cd 1 = Some (Write_End Output_Pipe)" "cd_fds cd 2 = Some (Write_End Output_Pipe)"
      "cd_fds cd (snd hooks_pipe) = Some (Write_End Hooks_Pipe)"
    using dist by (auto simp: cd ends fd_at sys_open_def sys_pipe_def)
  show "io_buffer (cd_io cd) = (\<lambda>_. [])"
    by (auto simp: cd fflush_def fun_eq_iff) (metis stream.exhaust)
  have "fds 1 \<noteq> Some (Write_End p)" "fds 2 \<noteq> Some (Write_End p)"
    using inherited by (auto simp: inherited_only_def)
  then show "sent_to (Write_End p) (cd_io cd) = []"
    using dist by (auto simp: cd fflush_def sent_to_def fd_at sys_open_def sys_pipe_def filter_map comp_def split: option.split)
qed

text \<open>What the two ends of a child come to: it exits and its streams are flushed, or it is killed.\<close>

lemma exit_child_flushes:
  assumes "cd_fds cd 1 = Some f" "cd_fds cd 2 = Some f" and "hooks_fd \<notin> {1, 2}"
    and "io_buffer io = (\<lambda>_. [])" "sent_to f io = []" and "f \<noteq> g" "sent_to g io = []"
  shows "case exit_child result (cd\<lparr>cd_io := fwrite flushes (cd_fds cd) 0 ws io, cd_fds := sys_close hooks_fd (cd_fds cd)\<rparr>) of
    (cd', status) \<Rightarrow> sent_to f (cd_io cd') = map snd (captured flushes ws) \<and> sent_to g (cd_io cd') = [] \<and>
      status = Exited (result_code result)"
proof -
  let ?fds = "sys_close hooks_fd (cd_fds cd)" and ?io = "fwrite flushes (cd_fds cd) 0 ws io"
  have fds: "?fds 1 = Some f" "sys_close 1 ?fds 2 = Some f" "?fds 2 = Some f" using assms(1-3) by (auto simp: fd_at)
  have "?io = fwrite flushes ?fds 0 ws io"
    by (simp only: fwrite_leave [OF assms(1,2)] fwrite_leave [OF fds(1,3)])
  with sent_written(2) [where fds = ?fds and fds' = "sys_close 1 ?fds", OF fds(1,3) assms(4,5) fds(2)]
  have "sent_to f (fflush Stderr (sys_close 1 ?fds) (fflush Stdout ?fds ?io)) = map snd (captured flushes ws)"
    by simp
  moreover have "sent_to g (fflush Stderr (sys_close 1 ?fds) (fflush Stdout ?fds ?io)) = []"
    using assms(6,7) fds
    by (simp add: fflush_both [OF fds(1,3)] fwrite_leave [OF assms(1,2)] sent_to_def filter_map comp_def)
  ultimately show ?thesis
    by (simp add: exit_child_def fclose_def)
qed

lemma killed_child:
  assumes "fds 1 = Some f" "fds 2 = Some f" and "io_buffer io = (\<lambda>_. [])" "sent_to f io = []" and "f \<noteq> g" "sent_to g io = []"
  shows "sent_to f (fwrite flushes fds 0 ws io) = map snd (delivered flushes ws)" "sent_to g (fwrite flushes fds 0 ws io) = []"
  using sent_written(1) [OF assms(1-4)] assms(5,6)
  by (simp_all add: fwrite_leave [OF assms(1,2)] sent_to_def filter_map comp_def)

lemma child_run_eq:
  assumes "pipes_ok fenv cenv (pr_fds proc)" and "fk_hooks_pipe fenv = Some hooks_pipe" "fk_output_pipe fenv = Some output_pipe"
    and "signals_initial proc" and "signal_ends cenv proc ending"
  shows "child_run cenv (d, ending)
      (proc\<lparr>pr_fds := sys_pipe Output_Pipe output_pipe (sys_pipe Hooks_Pipe hooks_pipe (pr_fds proc))\<rparr>) hooks_pipe output_pipe =
    (event_bytes cenv d ending, child_output_of cenv d ending, child_status_of cenv ending)"
proof -
  let ?disp = "sg_disp (pr_sigs proc)"
  define cd where "cd = child_redirect cenv hooks_pipe output_pipe
    (sys_pipe Output_Pipe output_pipe (sys_pipe Hooks_Pipe hooks_pipe (pr_fds proc)))"
  note red = redirected [OF assms(1-3) cd_def]
  obtain st rc err where run: "sigcapture (ch_sigaction cenv) True (Some ()) (pr_sigs proc) = (st, rc, err)"
    by (metis prod_cases3)
  have disp: "pr_sigs proc = sig_initial ?disp" "\<forall>s. ?disp s \<noteq> Disp_Sighandler"
    using assms(4) by (simp_all add: signals_initial_def)
  have sig: "sighandler st s = (if caught cenv s then Handled () else Not_Captured (?disp s))" for s
    using sigcapture_handles [OF disp(2), of "ch_sigaction cenv" "()" s] run disp(1) by (simp add: caught_def)
  have hooks_fd: "snd hooks_pipe \<notin> {1, 2}"
    using assms(1-3) by (auto simp: pipes_ok_def split: prod.splits)
  let ?cd = "cd\<lparr>cd_io := fwrite (ch_flushes cenv) (cd_fds cd) 0 (dyn_output d) (cd_io cd)\<rparr>"
  have exits: "case exit_child result (?cd\<lparr>cd_fds := sys_close (snd hooks_pipe) (cd_fds cd)\<rparr>) of (cd', status) \<Rightarrow>
      sent_to (Write_End Output_Pipe) (cd_io cd') = map snd (captured (ch_flushes cenv) (dyn_output d)) \<and>
      sent_to (Write_End Hooks_Pipe) (cd_io cd') = [] \<and> status = Exited (result_code result)" for result
    using exit_child_flushes [OF red(1,2) hooks_fd red(4,5), where g = "Write_End Hooks_Pipe" and result = result
        and flushes = "ch_flushes cenv" and ws = "dyn_output d"] red(5)
    by simp
  note killed = killed_child [OF red(1,2,4,5), where g = "Write_End Hooks_Pipe" and flushes = "ch_flushes cenv" and ws = "dyn_output d"]
  have fd: "eh_fd (fold replay_call calls hooks) = eh_fd hooks" for calls hooks
    by (induction calls arbitrary: hooks rule: stage_events.induct) (simp_all add: exec_hooks_op_on_stage_change_def)
  note unfolds = child_passed_def exec_hooks_op_on_skip_def exec_hooks_op_on_failure_def exec_hooks_on_short_circuit_def
    exec_hooks_on_signal_def exec_hooks_destroy_def exec_hooks_init_def fd replay_calls(1) [where sp = "ch_sp cenv"]
    replay_calls(2) event_bytes_def child_events_def child_failure_def child_output_of_def child_status_of_def
  have fatal: "\<not> caught cenv s \<Longrightarrow> fatal_signal (?disp s) s" if "ending = Some (On_Signal s)" for s
    using assms(5) that by (auto simp: signal_ends_def)
  consider "ending = None" | f where "ending = Some (On_Skip f)" | f where "ending = Some (On_Failure f)"
    | s where "ending = Some (On_Signal s)" "caught cenv s" | s where "ending = Some (On_Signal s)" "\<not> caught cenv s"
    by (metis ending.exhaust option.exhaust)
  then show ?thesis
  proof cases
    case 1
    then show ?thesis
      using exits [of CTEST_RESULT_PASS] red(3)
      by (simp add: child_run_def run cd_def [symmetric] Let_def case_prod_beta unfolds)
  next
    case (2 f)
    then show ?thesis
      using exits [of CTEST_RESULT_SKIPPED] red(3)
      by (cases f) (simp_all add: child_run_def run cd_def [symmetric] Let_def case_prod_beta unfolds)
  next
    case (3 f)
    then show ?thesis
      using exits [of CTEST_RESULT_FAIL] red(3)
      by (cases f) (simp_all add: child_run_def run cd_def [symmetric] Let_def case_prod_beta unfolds)
  next
    case (4 s)
    then show ?thesis
      using exits [of CTEST_RESULT_FAIL] red(3)
      by (simp add: child_run_def run cd_def [symmetric] Let_def case_prod_beta sig unfolds)
  next
    case (5 s)
    then show ?thesis
      using killed red(3,5) fatal [OF 5(1,2)]
      by (simp add: child_run_def run cd_def [symmetric] Let_def case_prod_beta sig unfolds)
  qed
qed

lemma deliver_stage_events:
  "fold (deliver child_event_consumer_ops) (stage_events calls) c = c\<lparr>cc_stage := last_stage (cc_stage c) calls\<rparr>"
  by (induction calls arbitrary: c rule: stage_events.induct)
    (simp_all add: child_event_consumer_ops_def child_event_consumer_op_on_stage_change_def)

lemma deliver_child_events:
  "fold (deliver child_event_consumer_ops) (child_events env d ending) child_event_consumer_init
    = \<lparr>cc_stage = last_stage CTEST_STAGE_SETUP (dyn_calls d), cc_last_failure = child_failure env d ending\<rparr>"
  by (simp add: child_events_def deliver_stage_events child_event_consumer_init_def split: option.split)
    (simp add: child_event_consumer_ops_def child_event_consumer_op_on_failure_def)

section \<open>From the child to the report\<close>

text \<open>What is reported for a test case that ended so.\<close>

definition reported_type :: "child_env \<Rightarrow> ending option \<Rightarrow> ctest_result_type" where
  "reported_type cenv ending =
     (case ending of
        None \<Rightarrow> CTEST_RESULT_PASS
      | Some (On_Skip failure) \<Rightarrow> CTEST_RESULT_SKIPPED
      | Some (On_Failure failure) \<Rightarrow> CTEST_RESULT_FAIL
      | Some (On_Signal signum) \<Rightarrow> if caught cenv signum then CTEST_RESULT_FAIL else CTEST_RESULT_ERROR)"

definition reported_failure ::
  "child_env \<Rightarrow> parent_env \<Rightarrow> dynamic_ops \<Rightarrow> ending option \<Rightarrow> ctest_failure option" where
  "reported_failure cenv env d ending =
     (case child_status_of cenv ending of
        Signaled signum \<Rightarrow> new_failure env (last_stage CTEST_STAGE_SETUP (dyn_calls d))
          (''terminated by signal: '' @ pa_strsignal env signum @ '' ('' @ show_int (sint signum) @ '')'')
      | _ \<Rightarrow> child_failure cenv d ending)"

definition reported_output :: "child_env \<Rightarrow> dynamic_ops \<Rightarrow> ending option \<Rightarrow> ctest_output option" where
  "reported_output cenv d ending =
     (case child_output_of cenv d ending of [] \<Rightarrow> None | bs \<Rightarrow> Some \<lparr>out_data = bs @ [NUL]\<rparr>)"

definition reported_result :: "child_env \<Rightarrow> parent_env \<Rightarrow> dynamic_ops \<Rightarrow> ending option \<Rightarrow> ctest_result" where
  "reported_result cenv env d ending =
     \<lparr>res_type = reported_type cenv ending, res_output = reported_output cenv d ending,
      res_failure = reported_failure cenv env d ending\<rparr>"

text \<open>
  The circumstances in which nothing but the test decides the result: the system calls succeed, the
  pipes got descriptors that were free and above 2, the memory that is asked for is there, and the signals of the
  process are not captured already.
\<close>

definition system_ok :: "fork_env \<Rightarrow> parent_env \<Rightarrow> child_env \<Rightarrow> process \<Rightarrow> ending option \<Rightarrow> bool" where
  "system_ok fenv env cenv proc ending \<longleftrightarrow>
     fk_result_ok fenv \<and> fk_forked fenv \<and> pipes_ok fenv cenv (pr_fds proc) \<and>
     signals_initial proc \<and> signal_ends cenv proc ending \<and>
     valid_block (pa_self env) 80 \<and> block_mapped (pa_mapped env) (pa_self env) 80 \<and>
     (case pa_mallocs env of [] \<Rightarrow> False
      | p # ps \<Rightarrow> valid_block p 65536 \<and> block_mapped (pa_mapped env) p 65536) \<and>
     Poll_Error \<notin> set (pa_rounds env) \<and>
     (\<forall>status. pa_waitpid env False status = Wait_Pid (pa_child env) status) \<and>
     valid_block (ch_sp cenv) 65536"

text \<open>Each pipe becomes ready often enough to be read to its end, one byte at a time if need be.\<close>

definition often_enough :: "parent_env \<Rightarrow> child_env \<Rightarrow> dynamic_ops \<Rightarrow> ending option \<Rightarrow> bool" where
  "often_enough env cenv d ending \<longleftrightarrow>
     length (event_bytes cenv d ending) < length (filter hooks_ready (pa_rounds env)) \<and>
     length (child_output_of cenv d ending) < length (filter output_ready (pa_rounds env))"

lemma signal_failure_ok: "event_ok (Failure_Event (signal_failure stage signum))"
proof -
  have "cstring (''Caught unexpected signal: '' @ show_int (sint signum) @ [CHR 0x0A])"
    using cstring_show_int [of "sint signum"] by (simp add: cstring_def)
  then have "cstring (take 127 (''Caught unexpected signal: '' @ show_int (sint signum) @ [CHR 0x0A]))"
    unfolding cstring_def by (meson in_set_takeD)
  then show ?thesis
    by (simp add: signal_failure_def failure_wf_def failure_bytes_def loc_end_def desc_bytes_def min_def)
qed

lemma child_events_ok:
  assumes "opt_all (\<lambda>f. event_ok (Failure_Event f)) (child_failure cenv d ending)"
  shows "list_all event_ok (child_events cenv d ending)"
proof -
  have "list_all event_ok (stage_events calls)" for calls by (induction calls rule: stage_events.induct) simp_all
  with assms show ?thesis by (auto simp: child_events_def split: option.split)
qed

lemma child_events_blocks:
  assumes "opt_all (\<lambda>f. event_ok (Failure_Event f)) (child_failure cenv d ending)"
  shows "valid_block sp 65536 \<Longrightarrow> list_all (stack_ok sp) (child_events cenv d ending)"
    and "valid_block p 65536 \<Longrightarrow> block_mapped mapped p 65536 \<Longrightarrow> mallocs_ok mapped (p # ps) (child_events cenv d ending)"
proof -
  have stages: "list_all (stack_ok sp) (stage_events calls)" for calls
    by (induction calls rule: stage_events.induct) simp_all
  have append: "mallocs_ok mapped ps (stage_events calls @ es) = mallocs_ok mapped ps es" for calls ps es
    by (induction calls rule: stage_events.induct) simp_all
  have small: "valid_block p (failure_bytes f)" "block_mapped mapped p (failure_bytes f)"
    if "valid_block p 65536" "block_mapped mapped p 65536" "event_ok (Failure_Event f)" for p f
    using that block_mapped_sub [of mapped p 65536 0 "failure_bytes f"] by (auto simp: valid_block_def)
  show "list_all (stack_ok sp) (child_events cenv d ending)" if "valid_block sp 65536"
    using stages that assms by (auto simp: child_events_def valid_block_def split: option.split)
  show "mallocs_ok mapped (p # ps) (child_events cenv d ending)" if "valid_block p 65536" "block_mapped mapped p 65536"
    using append small that assms by (auto simp: child_events_def split: option.split)
qed

lemma wait_for_child_result:
  assumes ok: "opt_all (\<lambda>f. event_ok (Failure_Event f)) (child_failure cenv d ending)"
    and sys: "system_ok fenv env cenv proc ending" and often: "often_enough env cenv d ending"
    and fds: "0 < hooks_fd" "0 < output_fd" and result: "res_output result = None"
    and child: "child = (event_bytes cenv d ending, child_output_of cenv d ending, child_status_of cenv ending)"
  shows "\<exists>w. wait_for_child env result hooks_fd output_fd child = Done w \<and>
    wc_result w = reported_result cenv env d ending \<and>
    wc_retval w = (if reported_type cenv ending = CTEST_RESULT_FAIL then 1 else 0) \<and>
    \<not> er_open (wc_reader w) \<and> \<not> or_open (wc_output w)"
proof -
  let ?es = "child_events cenv d ending" and ?out = "child_output_of cenv d ending"
  let ?c = "\<lparr>cc_stage = last_stage CTEST_STAGE_SETUP (dyn_calls d), cc_last_failure = child_failure cenv d ending\<rparr>"
  from sys obtain p ps where p: "pa_mallocs env = p # ps" "valid_block p 65536" "block_mapped (pa_mapped env) p 65536"
    by (auto simp: system_ok_def split: list.splits)
  let ?bs = "event_bytes cenv d ending"
  have bs: "stream ?es ?bs"
    using write_events_stream [of "exec_event_writer_init (ch_mem cenv) []" ?es "ch_sp cenv"]
      child_events_ok [OF ok] child_events_blocks(1) [OF ok, of "ch_sp cenv"] sys
    by (auto simp: exec_event_writer_init_def system_ok_def event_bytes_def)
  define w0 where "w0 = \<lparr>wc_reader = exec_event_reader_init (pa_self env) (pa_mem env) (pa_mapped env) (pa_mallocs env)
                 ?bs child_event_consumer_init,
               wc_output = output_reader_init [] ?out,
               wc_hooks_fd = hooks_fd, wc_output_fd = output_fd, wc_result = result, wc_retval = -1\<rparr>"
  have "hooks_good ?c w0"
    using reader_init_good [OF bs, of "pa_mapped env" "pa_mallocs env" "pa_self env" child_event_consumer_ops
        child_event_consumer_init "pa_mem env"] child_events_blocks(2) [OF ok p(2,3), of ps] p(1) sys fds(1)
    by (simp add: w0_def hooks_good_def system_ok_def deliver_child_events)
  moreover have "outputs_good ?out w0"
    using fds(2) by (simp add: w0_def outputs_good_def output_good_def output_inv_def output_so_far_def output_reader_init_def)
  moreover have "hooks_left w0 \<le> length (filter hooks_ready (pa_rounds env))"
      "output_left w0 \<le> length (filter output_ready (pa_rounds env))"
    using often fds by (simp_all add: often_enough_def w0_def hooks_left_def output_left_def
        exec_event_reader_init_def reader_prep_next_msg_def output_reader_init_def)
  moreover have "Poll_Error \<notin> set (pa_rounds env)" using sys by (simp add: system_ok_def)
  ultimately obtain w where w: "wait_loop env (pa_rounds env) w0 = Done (False, w)" "hooks_good ?c w"
      "outputs_good ?out w" "wc_hooks_fd w < 0" "wc_output_fd w < 0" "wc_result w = result"
    using wait_loop_drains [of ?c w0 ?out "pa_rounds env" env] by (auto simp: w0_def)
  have consumer: "er_consumer (wc_reader w) = ?c" and out: "output_good ?out (wc_output w)" "or_pipe (wc_output w) = []"
    using w(2-5) reader_drained by (auto simp: hooks_good_def outputs_good_def)
  from output_build_drained [OF out] obtain r' where
    build: "output_reader_build (wc_output w) = Some (r', reported_output cenv d ending)"
    by (cases ?out) (auto simp: reported_output_def)
  define w' where "w' = set_status env (Wait_Pid (pa_child env) (child_status_of cenv ending)) w"
  have "wc_output w' = wc_output w"
    by (simp add: w'_def set_status_def set_error_def ctest_result_set_failure_def Let_def split: child_status.split)
  moreover have "res_type (wc_result w') = reported_type cenv ending"
      "res_failure (wc_result w') = reported_failure cenv env d ending"
      "wc_retval w' = (if reported_type cenv ending = CTEST_RESULT_FAIL then 1 else 0)"
    using consumer
    by (auto simp: w'_def set_status_def set_error_def ctest_result_set_failure_def Let_def reported_type_def
        reported_failure_def child_status_of_def coerce_result_type_def child_failure_def wc_stage_def
        split: option.split ending.split)
  moreover have "pa_waitpid env False status = Wait_Pid (pa_child env) status" for status
    using sys by (simp add: system_ok_def)
  ultimately show ?thesis
    using w(1) build
    by (simp add: wait_for_child_def child w0_def [symmetric] w'_def [symmetric] Let_def reported_result_def
        exec_event_reader_destroy_def output_reader_destroy_def)
qed

lemma forking_reports:
  assumes "system_ok fenv env cenv proc ending" and "often_enough env cenv d ending"
    and "opt_all (\<lambda>f. event_ok (Failure_Event f)) (child_failure cenv d ending)"
  shows "forking_run_testcase fenv env ops (child_run cenv (d, ending)) proc r
    = Done (proc, testcase_complete ops (testcase_start ops r) (reported_result cenv env d ending),
        if reported_type cenv ending = CTEST_RESULT_FAIL then 1 else 0)"
proof -
  from assms(1) have sys: "pipes_ok fenv cenv (pr_fds proc)" "signals_initial proc" "signal_ends cenv proc ending"
      "fk_result_ok fenv" "fk_forked fenv"
    by (simp_all add: system_ok_def)
  from sys(1) obtain a b c e where fds: "fk_hooks_pipe fenv = Some (a, b)" "fk_output_pipe fenv = Some (c, e)"
    by (auto simp: pipes_ok_def split: option.splits prod.splits)
  with sys(1) have pos: "0 < a" "0 < c" and closed: "pr_fds proc a = None" "pr_fds proc b = None" "pr_fds proc c = None" "pr_fds proc e = None"
    by (simp_all add: pipes_ok_def)
  let ?result = "\<lparr>res_type = CTEST_RESULT_PASS, res_output = None, res_failure = None\<rparr>"
  let ?fds = "sys_pipe Output_Pipe (c, e) (sys_pipe Hooks_Pipe (a, b) (pr_fds proc))"
  obtain w where w: "wait_for_child env ?result a c (child_run cenv (d, ending) (proc\<lparr>pr_fds := ?fds\<rparr>) (a, b) (c, e)) = Done w"
      "wc_result w = reported_result cenv env d ending"
      "wc_retval w = (if reported_type cenv ending = CTEST_RESULT_FAIL then 1 else 0)"
      "\<not> er_open (wc_reader w)" "\<not> or_open (wc_output w)"
    using wait_for_child_result [OF assms(3,1,2) pos _ child_run_eq [OF sys(1) fds sys(2,3)], of ?result] by auto
  have "sys_close c (sys_close a (sys_close e (sys_close b ?fds))) = pr_fds proc"
    using closed by (auto simp: fd_ops fun_eq_iff)
  with w fds sys(4,5) show ?thesis
    by (simp add: forking_run_testcase_def ctest_result_create_empty_def close_readers_def Let_def)
qed

section \<open>Properties\<close>

text \<open>
  C1: The result of a test case run in a child. However the events and the output of the child are
  cut up and interleaved by the pipes, the parent reports exactly what the test did: the type of the
  result, the failure with its stage, text and location, and the output, which is every byte the test case wrote to
  either of its streams, those of one stream in order, and nothing that was in the buffers before (for a killed child, the
  bytes that had left its buffers); a captured signal is a failure, a killing one an error. It returns 1 for a failed
  test case and 0 otherwise, and the descriptors and signal handlers of the parent are what they were.
\<close>

theorem forking_result:
  assumes "system_ok fenv env cenv proc ending" and "often_enough env cenv d ending"
    and "opt_all (\<lambda>f. event_ok (Failure_Event f)) (child_failure cenv d ending)"
  shows "forking_run_testcase fenv env ops (child_run cenv (d, ending)) proc r
    = Done (proc, testcase_complete ops (testcase_start ops r) (reported_result cenv env d ending),
        if reported_type cenv ending = CTEST_RESULT_FAIL then 1 else 0)"
  by (rule forking_reports [OF assms])

text \<open>A test that fails after it has written to its buffered output and, at once, to its error stream.\<close>

theorem forking_result_witness:
  "\<exists>env. forking_run_testcase
      \<lparr>fk_result_ok = True, fk_hooks_pipe = Some (5, 6), fk_output_pipe = Some (7, 8), fk_forked = True\<rparr> env
      \<lparr>report_testsuite = (\<lambda>r s. (r, True)), testsuite_destroy = id, report_test = (\<lambda>r t. (r, True)), test_destroy = id,
       report_testcase = (\<lambda>r c. (r, True)), testcase_start = id, testcase_complete = (\<lambda>r result. [result]),
       testcase_destroy = id\<rparr>
      (child_run \<lparr>ch_sp = 65536, ch_mem = (\<lambda>_. NUL), ch_sigaction = (\<lambda>_. None), ch_null = 9, ch_pending = (\<lambda>_. ''x''),
          ch_flushes = (\<lambda>i. i = 2)\<rparr>
        (\<lparr>dyn_hooked = False, dyn_failure = None, dyn_stage = 0, dyn_teardown = None,
          dyn_abort_type = CTEST_DYNAMIC_OPS_ABORT_NONE, dyn_free_fixture = False, dyn_alloc_ok = True,
          dyn_calls = [Stage_Changed 0, Call_Setup, Stage_Changed 1, Call_Test],
          dyn_output = [(Stdout, CHR ''h''), (Stdout, CHR ''i''), (Stderr, CHR ''!'')]\<rparr>,
         Some (On_Failure (Some \<lparr>fl_stage = 1, fl_description = Some ''no'', fl_location = None, fl_stacktrace = None\<rparr>))))
      \<lparr>pr_fds = (\<lambda>fd. if fd \<in> {0, 1, 2} then Some (Inherited (nat fd)) else None), pr_sigs = sig_initial (\<lambda>_. Disp_Default)\<rparr> []
    = Done (\<lparr>pr_fds = (\<lambda>fd. if fd \<in> {0, 1, 2} then Some (Inherited (nat fd)) else None),
        pr_sigs = sig_initial (\<lambda>_. Disp_Default)\<rparr>,
      [\<lparr>res_type = CTEST_RESULT_FAIL, res_output = Some \<lparr>out_data = ''!hi'' @ [NUL]\<rparr>,
        res_failure = Some \<lparr>fl_stage = 1, fl_description = Some ''no'', fl_location = None, fl_stacktrace = None\<rparr>\<rparr>], 1)"
    (is "\<exists>env. forking_run_testcase ?fenv env ?ops (child_run ?cenv (?d, ?ending)) ?proc [] = ?res")
proof -
  let ?f = "\<lparr>fl_stage = 1, fl_description = Some ''no'', fl_location = None, fl_stacktrace = None\<rparr>"
  let ?env = "\<lparr>pa_alloc_ok = True, pa_strerror = [], pa_strsignal = (\<lambda>_. []), pa_self = 4096, pa_mem = (\<lambda>_. NUL),
    pa_mapped = (\<lambda>_. True), pa_mallocs = [131072], pa_rounds = replicate 60 (Poll_Events 3 2),
    pa_waitpid = (\<lambda>killed status. Wait_Pid 42 status), pa_child = 42\<rparr>"
  have sys: "system_ok ?fenv ?env ?cenv ?proc ?ending"
    by (simp add: system_ok_def valid_block_def pipes_ok_def inherited_only_def signals_initial_def signal_ends_def sig_initial_def)
  have b: "failure_bytes ?f = 35" by (simp add: failure_bytes_def loc_end_def desc_bytes_def)
  have failure: "child_failure ?cenv ?d ?ending = Some ?f" by (simp add: child_failure_def)
  have ok: "opt_all (\<lambda>f. event_ok (Failure_Event f)) (child_failure ?cenv ?d ?ending)"
    using b by (simp add: failure failure_wf_def cstring_def)
  have events: "child_events ?cenv ?d ?ending = [Stage_Change 0, Stage_Change 1, Failure_Event ?f]"
    by (simp add: child_events_def failure)
  have "stream (child_events ?cenv ?d ?ending) (event_bytes ?cenv ?d ?ending)"
    using write_events_stream [OF _ child_events_ok [OF ok] child_events_blocks(1) [OF ok, of 65536],
        of "exec_event_writer_init (\<lambda>_. NUL) []"]
    by (auto simp: exec_event_writer_init_def valid_block_def event_bytes_def)
  then have "length (event_bytes ?cenv ?d ?ending) = 55"
    using b unfolding events by (auto simp: message_def dest!: body_of_length elim!: stream_ConsE stream_NilE)
  moreover have out: "child_output_of ?cenv ?d ?ending = ''!hi''"
    by (simp add: child_output_of_def child_status_of_def captured_def)
  ultimately have often: "often_enough ?env ?cenv ?d ?ending"
    by (simp add: often_enough_def filter_replicate)
  from forking_result [OF sys often ok, of ?ops "[]"] out show ?thesis
    by (intro exI [of _ ?env]) (simp add: reported_result_def reported_type_def reported_output_def reported_failure_def
        child_status_of_def failure)
qed

text \<open>
  C34: A pipe that gets descriptor 0 (the parent runs with its standard input closed) can never be
  closed by changing the sign of its descriptor: however often \<^verbatim>\<open>poll\<close> returns without an error, the
  parent does not get past the loop.
\<close>

theorem fd_zero_never_ends:
  assumes "hooks_fd = 0 \<or> output_fd = 0" and "Poll_Error \<notin> set (pa_rounds env)"
  shows "wait_for_child env result hooks_fd output_fd child \<noteq> Done w"
proof -
  have "wait_loop env rounds w \<noteq> Done x"
    if "wc_hooks_fd w = 0 \<or> wc_output_fd w = 0" "Poll_Error \<notin> set rounds" for rounds w x
    using that
  proof (induction rounds arbitrary: w)
    case (Cons p rounds)
    obtain k1 k2 where p: "p = Poll_Events k1 k2" using Cons.prems(2) by (cases p) auto
    have "wc_hooks_fd w2 = 0 \<or> wc_output_fd w2 = 0"
      if "poll_hooks env ev1 w = Some w1" "poll_output env ev2 w1 = Some w2" for ev1 ev2 w1 w2
      using poll_hooks_fds [OF that(1)] poll_output_fds [OF that(2)] Cons.prems(1) by auto
    with Cons.IH Cons.prems show ?case
      by (auto simp: p wait_loop.simps [of env "Poll_Events k1 k2 # rounds" w] Let_def split: option.splits)
  qed (auto simp: wait_loop.simps)
  with assms show ?thesis by (auto simp: wait_for_child_def Let_def split: run.splits prod.splits)
qed

theorem fd_zero_never_ends_witness:
  "\<forall>w. wait_for_child \<lparr>pa_alloc_ok = True, pa_strerror = [], pa_strsignal = (\<lambda>_. []), pa_self = 4096, pa_mem = (\<lambda>_. NUL),
      pa_mapped = (\<lambda>_. True), pa_mallocs = [], pa_rounds = replicate 1000 (Poll_Events 1 1),
      pa_waitpid = (\<lambda>killed status. Wait_Pid 42 status), pa_child = 42\<rparr>
    \<lparr>res_type = CTEST_RESULT_PASS, res_output = None, res_failure = None\<rparr> 0 4 ([], [], Exited 0) \<noteq> Done w"
  by (intro allI fd_zero_never_ends) simp_all

text \<open>
  C33: When a pipe cannot be made or the process cannot be forked, the test case is reported once, as an
  error in the setup stage that names the reason, but the runner is told 0: \<^verbatim>\<open>retval\<close> is the return code of
  \<^verbatim>\<open>ctest_result_set_failure\<close>, so that the test case counts as one that did not fail. The descriptors of a pipe that
  had been made are closed again.
\<close>

theorem forking_setup_errors:
  assumes "fk_result_ok fenv" and "fk_hooks_pipe fenv = None \<or> fk_output_pipe fenv = None \<or> \<not> fk_forked fenv"
    and "pa_alloc_ok env"
  shows "\<exists>proc'. forking_run_testcase fenv env ops child proc r = Done (proc', testcase_complete ops (testcase_start ops r)
     \<lparr>res_type = CTEST_RESULT_ERROR, res_output = None,
      res_failure = Some \<lparr>fl_stage = CTEST_STAGE_SETUP, fl_description = Some
        ((if fk_hooks_pipe fenv = None then ''unable to create result pipe: ''
          else if fk_output_pipe fenv = None then ''unable to create output pipe: ''
          else ''unable to fork child process: '') @ pa_strerror env),
        fl_location = None, fl_stacktrace = None\<rparr>\<rparr>, 0) \<and>
     (opt_all (\<lambda>(a, b). pr_fds proc a = None \<and> pr_fds proc b = None) (fk_hooks_pipe fenv) \<and>
      opt_all (\<lambda>(a, b). pr_fds proc a = None \<and> pr_fds proc b = None) (fk_output_pipe fenv) \<longrightarrow> proc' = proc)"
proof -
  have closed: "close_pipe hooks_pipe (sys_pipe p hooks_pipe fds) = fds"
      "close_pipe hooks_pipe (close_pipe output_pipe (sys_pipe q output_pipe (sys_pipe p hooks_pipe fds))) = fds"
    if "fds (fst hooks_pipe) = None" "fds (snd hooks_pipe) = None" "fds (fst output_pipe) = None" "fds (snd output_pipe) = None"
    for p q hooks_pipe output_pipe fds
    using that by (auto simp: close_pipe_def fd_ops fun_eq_iff)
  have closed1: "close_pipe hooks_pipe (sys_pipe p hooks_pipe fds) = fds"
    if "fds (fst hooks_pipe) = None" "fds (snd hooks_pipe) = None" for p hooks_pipe fds
    using closed(1) [OF that that] by simp
  note unfolds = forking_run_testcase_def ctest_result_create_empty_def ctest_result_set_failure_def new_failure_def
  consider "fk_hooks_pipe fenv = None"
    | hooks_pipe where "fk_hooks_pipe fenv = Some hooks_pipe" "fk_output_pipe fenv = None"
    | hooks_pipe output_pipe where "fk_hooks_pipe fenv = Some hooks_pipe" "fk_output_pipe fenv = Some output_pipe" "\<not> fk_forked fenv"
    using assms(2) by (metis option.exhaust)
  then show ?thesis
  proof cases
    case 1
    with assms(1,3) show ?thesis by (simp add: unfolds)
  next
    case (2 hooks_pipe)
    with assms(1,3) show ?thesis by (cases hooks_pipe) (simp add: unfolds closed1)
  next
    case (3 hooks_pipe output_pipe)
    with assms(1,3) show ?thesis by (cases hooks_pipe; cases output_pipe) (simp add: unfolds closed)
  qed
qed

theorem forking_setup_errors_witness:
  "let proc = \<lparr>pr_fds = (\<lambda>fd. if fd \<in> {0, 1, 2} then Some (Inherited (nat fd)) else None), pr_sigs = sig_initial (\<lambda>_. Disp_Default)\<rparr>
   in forking_run_testcase \<lparr>fk_result_ok = True, fk_hooks_pipe = Some (5, 6), fk_output_pipe = None, fk_forked = True\<rparr>
      \<lparr>pa_alloc_ok = True, pa_strerror = ''Too many open files'', pa_strsignal = (\<lambda>_. []), pa_self = 4096,
       pa_mem = (\<lambda>_. NUL), pa_mapped = (\<lambda>_. True), pa_mallocs = [], pa_rounds = [],
       pa_waitpid = (\<lambda>killed status. Wait_Pid 42 status), pa_child = 42\<rparr>
      \<lparr>report_testsuite = (\<lambda>r s. (r, True)), testsuite_destroy = id, report_test = (\<lambda>r t. (r, True)), test_destroy = id,
       report_testcase = (\<lambda>r c. (r, True)), testcase_start = id, testcase_complete = (\<lambda>r result. [res_type result]),
       testcase_destroy = id\<rparr> (\<lambda>proc hooks_pipe output_pipe. ([], [], Exited 0)) proc [] = Done (proc, [CTEST_RESULT_ERROR], 0)"
    (is "let proc = ?proc in forking_run_testcase ?fenv ?env ?ops ?child proc [] = _")
  using forking_setup_errors [of ?fenv ?env ?ops ?child ?proc "[]"] by (auto simp: Let_def)

end
