(* ===== verification/Direct_Runner.thy ===== *)
theory Direct_Runner
  imports Forking_Runner
begin

text \<open>
  \<^verbatim>\<open>src/exec/direct_runner.c\<close>: a test case runs in the process of the runner itself, with its standard
  streams redirected to a temporary file and its signals captured; \<^verbatim>\<open>sigsetjmp\<close> and \<^verbatim>\<open>siglongjmp\<close> bring
  control back. The process is its table of file descriptors and its signal state; what the test case writes goes
  through the buffers of the C library to the files its descriptors refer to.
\<close>

section \<open>Definitions\<close>

text \<open>\<open>getenv\<close> is the environment of the process.\<close>

fun first_env :: "(string \<Rightarrow> string option) \<Rightarrow> string list \<Rightarrow> string option" where
  "first_env getenv [] = None"
| "first_env getenv (name # names) =
     (case getenv name of Some v \<Rightarrow> Some v | None \<Rightarrow> first_env getenv names)"

definition get_tmpdir :: "(string \<Rightarrow> string option) \<Rightarrow> string" where
  "get_tmpdir getenv =
     (case first_env getenv [''TMPDIR'', ''TEMP'', ''TMP'', ''TEMPDIR''] of Some v \<Rightarrow> v | None \<Rightarrow> ''/tmp'')"

text \<open>
  \<open>mkstemp\<close> gives a descriptor (negative on error) and the name it made from the template; the second
  component of the result is the files that are unlinked.
\<close>

definition opentemp ::
  "(string \<Rightarrow> string option) \<Rightarrow> bool \<Rightarrow> (string \<Rightarrow> int \<times> string) \<Rightarrow> int \<times> string list" where
  "opentemp getenv malloc_ok mkstemp =
     (let template = ''ctest_XXXXXXXX'';
          tmpdir = get_tmpdir getenv;
          tmpfile_len = length tmpdir + 1 + length template + 1
      in if \<not> malloc_ok then (-1, [])
         else let tmpfile = take (tmpfile_len - 1) (tmpdir @ ''/'' @ template);
                  (fd, name) = mkstemp tmpfile
              in if fd < 0 then (fd, []) else (fd, [name]))"

text \<open>
  \<open>data\<close> is the content of the file; the other parameters say whether \<^verbatim>\<open>lseek\<close> and the allocation
  succeed and how many bytes \<^verbatim>\<open>read\<close> gives (\<open>None\<close>: an error). No value at all: the bytes do not fit into the output.
\<close>

definition read_output :: "bool \<Rightarrow> bool \<Rightarrow> nat option \<Rightarrow> byte list \<Rightarrow> ctest_output option option" where
  "read_output seek_ok alloc_ok read_ok data =
     (if \<not> seek_ok then Some None
      else let offset = length data
           in case ctest_output_create alloc_ok (offset + 1) of
                None \<Rightarrow> Some None
              | Some result \<Rightarrow>
                  (let bs = (case read_ok of Some n \<Rightarrow> take (min n offset) data | None \<Rightarrow> [])
                   in case store_into (out_data result) 0 bs of
                        None \<Rightarrow> None
                      | Some buf \<Rightarrow> Some (Some \<lparr>out_data = take (length bs) buf\<rparr>)))"

text \<open>
  The system calls of the function, what is in the buffers of the standard streams before it, and when the library
  empties a buffer on its own.
\<close>

record direct_env =
  de_result_ok :: bool
  de_alloc_ok :: bool
  de_dups :: "int \<times> int \<times> int"
  de_null :: int
  de_getenv :: "string \<Rightarrow> string option"
  de_malloc_ok :: bool
  de_mkstemp :: "string \<Rightarrow> int \<times> string"
  de_strerror :: "int \<Rightarrow> string"
  de_sigaction :: "cint \<Rightarrow> int option"
  de_seek_ok :: bool
  de_output_ok :: bool
  de_read :: "nat option"
  de_pending :: "stream \<Rightarrow> byte list"
  de_flushes :: "nat \<Rightarrow> bool"

definition direct_temp :: "direct_env \<Rightarrow> int" where
  "direct_temp env = fst (opentemp (de_getenv env) (de_malloc_ok env) (de_mkstemp env))"

text \<open>The hooks: the result they fill in, the signal that was caught and the stage.\<close>

record direct_hooks =
  dh_result :: ctest_result
  dh_error :: int
  dh_stage :: ctest_stage_t

text \<open>\<open>None\<close>: there is no memory for the result, which is used without a test.\<close>

definition direct_hooks_init :: "bool \<Rightarrow> direct_hooks option" where
  "direct_hooks_init result_ok =
     map_option (\<lambda>result. \<lparr>dh_result = result, dh_error = 0, dh_stage = CTEST_STAGE_SETUP\<rparr>) (ctest_result_create_empty result_ok)"

definition direct_on_short_circuit ::
  "direct_hooks \<Rightarrow> ctest_result_type \<Rightarrow> ctest_failure option \<Rightarrow> direct_hooks \<times> int" where
  "direct_on_short_circuit hooks type failure =
     (hooks\<lparr>dh_result := fst (ctest_result_set_failure (dh_result hooks) type failure)\<rparr>, 1)"

definition direct_on_stage_change :: "direct_hooks \<Rightarrow> ctest_stage_t \<Rightarrow> direct_hooks" where
  "direct_on_stage_change hooks stage = hooks\<lparr>dh_stage := stage\<rparr>"

definition handle_signal :: "direct_hooks \<Rightarrow> cint \<Rightarrow> direct_hooks \<times> int" where
  "handle_signal hooks signum = (hooks\<lparr>dh_error := sint signum\<rparr>, 2)"

fun direct_replay :: "exec_call \<Rightarrow> direct_hooks \<Rightarrow> direct_hooks" where
  "direct_replay (Stage_Changed stage) hooks = direct_on_stage_change hooks stage"
| "direct_replay _ hooks = hooks"

text \<open>
  The execution of the test case: the value with which \<^verbatim>\<open>sigsetjmp\<close> returns again (0 when the test case
  returns), or \<open>None\<close> when a signal that is not captured kills the process, as its disposition has it.
\<close>

definition direct_execute ::
  "unit sig_state \<Rightarrow> dynamic_ops \<times> ending option \<Rightarrow> direct_hooks \<Rightarrow> (direct_hooks \<times> int) option" where
  "direct_execute sigs exec hooks =
     (let (d, ending) = exec;
          hooks = fold direct_replay (dyn_calls d) hooks
      in case ending of
           None \<Rightarrow> Some (hooks, 0)
         | Some (On_Skip failure) \<Rightarrow> Some (direct_on_short_circuit hooks CTEST_RESULT_SKIPPED failure)
         | Some (On_Failure failure) \<Rightarrow> Some (direct_on_short_circuit hooks CTEST_RESULT_FAIL failure)
         | Some (On_Signal signum) \<Rightarrow>
             (case sighandler sigs signum of
                Handled _ \<Rightarrow> Some (handle_signal hooks signum)
              | Null_Call \<Rightarrow> None
              | Not_Captured disp \<Rightarrow> if fatal_signal disp signum then None else Some (hooks, 0)))"

definition direct_failure :: "direct_env \<Rightarrow> direct_hooks \<Rightarrow> string \<Rightarrow> ctest_failure option" where
  "direct_failure env hooks text =
     (if de_alloc_ok env
      then Some \<lparr>fl_stage = dh_stage hooks, fl_description = Some text, fl_location = None, fl_stacktrace = None\<rparr>
      else None)"

text \<open>The branches of the switch once the test case is over, with the return value of the runner.\<close>

definition direct_switch :: "direct_env \<Rightarrow> direct_hooks \<Rightarrow> int \<Rightarrow> ctest_result \<times> int" where
  "direct_switch env hooks rc =
     (if rc = 0 then ((dh_result hooks)\<lparr>res_type := CTEST_RESULT_PASS\<rparr>, 0)
      else if rc = 1 then (dh_result hooks, 1)
      else if rc = 2
      then (fst (ctest_result_set_failure (dh_result hooks) CTEST_RESULT_FAIL
              (direct_failure env hooks (''Caught unexpected signal: '' @ show_int (dh_error hooks)))), 1)
      else if rc = 3
      then (fst (ctest_result_set_failure (dh_result hooks) CTEST_RESULT_ERROR
              (direct_failure env hooks (''Unexpected error encountered: '' @ de_strerror env (dh_error hooks)))), 1)
      else (fst (ctest_result_set_failure (dh_result hooks) CTEST_RESULT_ERROR
              (direct_failure env hooks (''unexpected return from longjmp: '' @ show_int rc))), 1))"

definition redirect :: "int \<Rightarrow> int \<Rightarrow> fd_table \<Rightarrow> fd_table" where
  "redirect stdin_new stdout_new fds =
     sys_dup2 stdout_new 2 (sys_dup2 stdout_new 1 (sys_dup2 stdin_new 0
       (sys_close 2 (sys_close 1 (sys_close 0 fds)))))"

definition undo_redirect :: "int \<Rightarrow> int \<Rightarrow> int \<Rightarrow> fd_table \<Rightarrow> fd_table" where
  "undo_redirect stdin_saved stdout_saved stderr_saved fds =
     sys_dup2 stderr_saved 2 (sys_dup2 stdout_saved 1 (sys_dup2 stdin_saved 0
       (sys_close 2 (sys_close 1 (sys_close 0 fds)))))"

text \<open>
  \<open>Crash\<close>: the process is killed by a signal, dereferences the result that could not be allocated, or overruns the
  output. The output is read from the file that \<^verbatim>\<open>stdout_new\<close> refers to, with what the streams have sent there. The
  process ends with the labels of the function, which close what was opened.
\<close>

definition direct_run_testcase ::
  "direct_env \<Rightarrow> ('r, 's, 't, 'c) reporter_ops \<Rightarrow> dynamic_ops \<times> ending option \<Rightarrow> process \<Rightarrow> 'r
   \<Rightarrow> (process \<times> 'r \<times> int) run" where
  "direct_run_testcase env ops exec proc r =
     (case de_dups env of (stdin_saved, stdout_saved, stderr_saved) \<Rightarrow>
      let stdin_new = de_null env;
          stdout_new = direct_temp env;
          fds0 = pr_fds proc;
          fds1 = sys_dup 0 stdin_saved fds0;
          fds2 = sys_dup 1 stdout_saved fds1;
          fds3 = sys_dup 2 stderr_saved fds2;
          fds4 = sys_open Dev_Null stdin_new fds3;
          fds5 = sys_open Temp_File stdout_new fds4
      in if stdin_saved < 0 then Done (proc, r, 1)
         else if stdout_saved < 0 then Done (proc\<lparr>pr_fds := sys_close stdin_saved fds1\<rparr>, r, 1)
         else if stderr_saved < 0
         then Done (proc\<lparr>pr_fds := sys_close stdin_saved (sys_close stdout_saved fds2)\<rparr>, r, 1)
         else if stdin_new < 0
         then Done (proc\<lparr>pr_fds := sys_close stdin_saved (sys_close stdout_saved (sys_close stderr_saved fds3))\<rparr>, r, 1)
         else if stdout_new < 0
         then Done (proc\<lparr>pr_fds := sys_close stdin_saved (sys_close stdout_saved (sys_close stderr_saved
                (sys_close stdin_new fds4)))\<rparr>, r, 1)
         else let r = testcase_start ops r;
                  io = fflush Stdout fds5 \<lparr>io_buffer = de_pending env, io_sent = []\<rparr>;
                  io = fflush Stderr fds5 io;
                  fds6 = redirect stdin_new stdout_new fds5;
                  sigs = fst (sigcapture (de_sigaction env) True (Some ()) (pr_sigs proc))
              in case direct_hooks_init (de_result_ok env) of
                   None \<Rightarrow> Crash
                 | Some hooks \<Rightarrow>
                     (let io = fwrite (de_flushes env) fds6 0 (dyn_output (fst exec)) io
                      in case direct_execute sigs exec hooks of
                        None \<Rightarrow> Crash
                      | Some (hooks, rc) \<Rightarrow>
                          (let (result, retval) = direct_switch env hooks rc;
                               sigs = fst (sigrestore (de_sigaction env) True sigs);
                               io = fflush Stdout fds6 io;
                               io = fflush Stderr fds6 io;
                               fds7 = undo_redirect stdin_saved stdout_saved stderr_saved fds6
                           in case (case fds7 stdout_new of
                                      None \<Rightarrow> Some None
                                    | Some f \<Rightarrow> read_output (de_seek_ok env) (de_output_ok env) (de_read env) (sent_to f io)) of
                                None \<Rightarrow> Crash
                              | Some captured_output \<Rightarrow>
                                  (let result = fst (ctest_result_set_output result captured_output);
                                       r = testcase_complete ops r result
                                   in Done (\<lparr>pr_fds = sys_close stdin_saved (sys_close stdout_saved (sys_close stderr_saved
                                              (sys_close stdin_new (sys_close stdout_new fds7)))), pr_sigs = sigs\<rparr>, r, retval)))))"

section \<open>Descriptors\<close>

text \<open>The new descriptors are unused, distinct and none of the standard ones.\<close>

definition fresh_fds :: "direct_env \<Rightarrow> fd_table \<Rightarrow> bool" where
  "fresh_fds env fds \<longleftrightarrow>
     (case de_dups env of (a, b, c) \<Rightarrow>
        distinct ([0, 1, 2] @ filter (\<lambda>fd. 0 \<le> fd) [a, b, c, de_null env, direct_temp env]) \<and>
        list_all (\<lambda>fd. 0 \<le> fd \<longrightarrow> fds fd = None) [a, b, c, de_null env, direct_temp env])"

definition fds_opened :: "direct_env \<Rightarrow> bool" where
  "fds_opened env \<longleftrightarrow>
     (case de_dups env of (a, b, c) \<Rightarrow> list_all (\<lambda>fd. 0 \<le> fd) [a, b, c, de_null env, direct_temp env])"

text \<open>Three descriptors that are closed and then made to refer to what others refer to.\<close>

lemma three_redirected:
  assumes "distinct [x, y, z]" and "p \<notin> {x, y, z}" "q \<notin> {x, y, z}" "r \<notin> {x, y, z}"
  shows "sys_dup2 r z (sys_dup2 q y (sys_dup2 p x (sys_close z (sys_close y (sys_close x fds))))) =
    fds(x := fds p, y := fds q, z := fds r)"
proof -
  let ?fds = "fds(x := None, y := None, z := None)"
  have "sys_dup2 p x ?fds = ?fds(x := fds p)" using assms by (subst sys_dup2_closed) auto
  moreover have "sys_dup2 q y (?fds(x := fds p)) = ?fds(x := fds p, y := fds q)"
    using assms by (subst sys_dup2_closed) auto
  moreover have "sys_dup2 r z (?fds(x := fds p, y := fds q)) = ?fds(x := fds p, y := fds q, z := fds r)"
    using assms by (subst sys_dup2_closed) auto
  ultimately show ?thesis using assms(1) by (simp add: sys_close_def fun_upd_twist)
qed

lemma streams_restored:
  assumes "distinct [x, y, z, a, b, c, n, t]" and "fds a = None" "fds b = None" "fds c = None" "fds n = None" "fds t = None"
  shows "sys_close a (sys_close b (sys_close c (sys_close n (sys_close t
      (sys_dup2 c z (sys_dup2 b y (sys_dup2 a x (sys_close z (sys_close y (sys_close x
      (sys_dup2 t z (sys_dup2 t y (sys_dup2 n x (sys_close z (sys_close y (sys_close x
      (fds(a := fds x, b := fds y, c := fds z, n := Some Dev_Null, t := Some Temp_File)))))))))))))))))) = fds"
proof -
  let ?old = "fds(a := fds x, b := fds y, c := fds z, n := Some Dev_Null, t := Some Temp_File)"
  let ?new = "?old(x := Some Dev_Null, y := Some Temp_File, z := Some Temp_File)"
  have "sys_dup2 t z (sys_dup2 t y (sys_dup2 n x (sys_close z (sys_close y (sys_close x ?old))))) = ?new"
    using assms(1) by (subst three_redirected) auto
  moreover have "sys_dup2 c z (sys_dup2 b y (sys_dup2 a x (sys_close z (sys_close y (sys_close x ?new))))) =
      ?new(x := ?new a, y := ?new b, z := ?new c)"
    using assms(1) by (intro three_redirected) auto
  moreover have "?new(x := ?new a, y := ?new b, z := ?new c) = ?old"
    using assms(1) by auto
  moreover have "sys_close a (sys_close b (sys_close c (sys_close n (sys_close t ?old)))) = fds"
    using assms by (auto simp: sys_close_def fun_eq_iff)
  ultimately show ?thesis by simp
qed

lemmas redirect_undone = streams_restored [of "0 :: int" 1 2, folded redirect_def undo_redirect_def]

section \<open>Properties\<close>

text \<open>What the direct runner reports for a test case that ended so.\<close>

definition direct_reported :: "direct_env \<Rightarrow> dynamic_ops \<Rightarrow> ending option \<Rightarrow> ctest_result" where
  "direct_reported env d ending =
     \<lparr>res_type = (case ending of None \<Rightarrow> CTEST_RESULT_PASS | Some (On_Skip f) \<Rightarrow> CTEST_RESULT_SKIPPED
        | _ \<Rightarrow> CTEST_RESULT_FAIL),
      res_output = Some \<lparr>out_data = map snd (captured (de_flushes env) (dyn_output d))\<rparr>,
      res_failure = (case ending of
          None \<Rightarrow> None
        | Some (On_Skip f) \<Rightarrow> f
        | Some (On_Failure f) \<Rightarrow> f
        | Some (On_Signal signum) \<Rightarrow> Some \<lparr>fl_stage = last_stage CTEST_STAGE_SETUP (dyn_calls d),
            fl_description = Some (''Caught unexpected signal: '' @ show_int (sint signum)),
            fl_location = None, fl_stacktrace = None\<rparr>)\<rparr>"

definition direct_ok :: "direct_env \<Rightarrow> dynamic_ops \<times> ending option \<Rightarrow> bool" where
  "direct_ok env exec \<longleftrightarrow>
     fds_opened env \<and> de_result_ok env \<and> de_alloc_ok env \<and> de_seek_ok env \<and> de_output_ok env \<and>
     de_read env = Some (length (dyn_output (fst exec))) \<and>
     (case snd exec of
        Some (On_Signal signum) \<Rightarrow> first_error (de_sigaction env) signals = None \<and> signum \<in> set signals \<and>
          de_sigaction env signum = None
      | _ \<Rightarrow> True)"

lemma direct_replay_stage:
  "fold direct_replay calls hooks = hooks\<lparr>dh_stage := last_stage (dh_stage hooks) calls\<rparr>"
  by (induction calls arbitrary: hooks rule: stage_events.induct) (simp_all add: direct_on_stage_change_def)

lemma read_output_all:
  "read_output True True (Some (length bs)) bs = Some (Some \<lparr>out_data = bs\<rparr>)"
  by (simp add: read_output_def ctest_output_create_def store_into_def write_at_def)

text \<open>
  While the test case runs, both its streams are on the temporary file, which the descriptor of the file still refers
  to after the redirection is undone; what was in the buffers before went elsewhere.
\<close>

lemma redirected_streams:
  assumes "distinct [0, 1, 2, a, b, c, n, t]"
    and "fds5 = fds(a := fds 0, b := fds 1, c := fds 2, n := Some Dev_Null, t := Some Temp_File)"
  shows "redirect n t fds5 1 = Some Temp_File" "redirect n t fds5 2 = Some Temp_File"
    "undo_redirect a b c (redirect n t fds5) t = Some Temp_File" "fds5 1 = fds 1" "fds5 2 = fds 2"
  using assms(1) by (auto simp: assms(2) redirect_def undo_redirect_def fd_at)

lemma flushed_before:
  assumes "inherited_only fds" and "fds5 1 = fds 1" "fds5 2 = fds 2"
  shows "io_buffer (fflush Stderr fds5 (fflush Stdout fds5 io)) = (\<lambda>_. [])"
    "sent_to Temp_File (fflush Stderr fds5 (fflush Stdout fds5 \<lparr>io_buffer = pending, io_sent = []\<rparr>)) = []"
proof -
  show "io_buffer (fflush Stderr fds5 (fflush Stdout fds5 io)) = (\<lambda>_. [])"
    by (auto simp: fflush_def fun_eq_iff) (metis stream.exhaust)
  have "fds 1 \<noteq> Some Temp_File" "fds 2 \<noteq> Some Temp_File" using assms(1) by (auto simp: inherited_only_def)
  then show "sent_to Temp_File (fflush Stderr fds5 (fflush Stdout fds5 \<lparr>io_buffer = pending, io_sent = []\<rparr>)) = []"
    using assms(2,3) by (auto simp: fflush_def sent_to_def filter_map comp_def split: option.split)
qed

lemma direct_execute_switch:
  assumes "direct_ok env (d, ending)" and "\<forall>s. disp s \<noteq> Disp_Sighandler"
  shows "\<exists>hooks rc. direct_execute (fst (sigcapture (de_sigaction env) True (Some ()) (sig_initial disp))) (d, ending)
      \<lparr>dh_result = \<lparr>res_type = CTEST_RESULT_PASS, res_output = None, res_failure = None\<rparr>, dh_error = 0,
       dh_stage = CTEST_STAGE_SETUP\<rparr> = Some (hooks, rc) \<and>
    direct_switch env hooks rc = ((direct_reported env d ending)\<lparr>res_output := None\<rparr>, if ending = None then 0 else 1)"
proof -
  note unfolds = direct_execute_def direct_replay_stage direct_on_short_circuit_def handle_signal_def
    direct_switch_def direct_reported_def direct_failure_def ctest_result_set_failure_def
  show ?thesis
  proof (cases ending)
    case None
    then show ?thesis by (simp add: unfolds)
  next
    case (Some e)
    show ?thesis
    proof (cases e)
      case (On_Signal signum)
      with Some assms sigcapture_handles [OF assms(2), of "de_sigaction env" "()" signum] show ?thesis
        by (simp add: unfolds direct_ok_def)
    qed (simp_all add: Some unfolds)
  qed
qed

lemma signals_restored:
  assumes "\<forall>s. disp s \<noteq> Disp_Sighandler"
  shows "fst (sigrestore fails True (fst (sigcapture fails True (Some (handler :: 'a)) (sig_initial disp)))) = sig_initial disp"
proof -
  obtain st rc err where run: "sigcapture fails True (Some handler) (sig_initial disp) = (st, rc, err)"
    by (metis prod_cases3)
  have "restore_loop fails 0 signals (sig_initial disp :: 'a sig_state) None = (sig_initial disp, None)"
    using restore_captured [OF initial_captured, of fails disp None] by (simp add: sig_initial_def)
  with capture_restore_outcome [OF run assms] run show ?thesis
    by (cases "first_error fails signals") (auto simp: sigrestore_def sig_initial_def)
qed

lemma direct_reports:
  assumes "direct_ok env (d, ending)" and "fresh_fds env (pr_fds proc)" and "pr_sigs proc = sig_initial disp"
    and "\<forall>s. disp s \<noteq> Disp_Sighandler" and "inherited_only (pr_fds proc)"
  shows "direct_run_testcase env ops (d, ending) proc r
    = Done (proc, testcase_complete ops (testcase_start ops r) (direct_reported env d ending),
        if ending = None then 0 else 1)"
proof -
  obtain a b c where dups: "de_dups env = (a, b, c)" by (metis prod_cases3)
  let ?n = "de_null env" and ?t = "direct_temp env" and ?fds = "pr_fds proc"
  have opened: "0 \<le> a" "0 \<le> b" "0 \<le> c" "0 \<le> ?n" "0 \<le> ?t"
    using assms(1) dups by (auto simp: direct_ok_def fds_opened_def)
  then have dist: "distinct [0, 1, 2, a, b, c, ?n, ?t]"
    and closed: "?fds a = None" "?fds b = None" "?fds c = None" "?fds ?n = None" "?fds ?t = None"
    using assms(2) dups by (auto simp: fresh_fds_def)
  have table: "sys_open Temp_File ?t (sys_open Dev_Null ?n (sys_dup 2 c (sys_dup 1 b (sys_dup 0 a ?fds))))
      = ?fds(a := ?fds 0, b := ?fds 1, c := ?fds 2, ?n := Some Dev_Null, ?t := Some Temp_File)"
    using opened dist by (auto simp: fd_ops)
  obtain hooks rc where run: "direct_execute (fst (sigcapture (de_sigaction env) True (Some ()) (sig_initial disp)))
      (d, ending) \<lparr>dh_result = \<lparr>res_type = CTEST_RESULT_PASS, res_output = None, res_failure = None\<rparr>, dh_error = 0,
       dh_stage = CTEST_STAGE_SETUP\<rparr> = Some (hooks, rc)"
      "direct_switch env hooks rc = ((direct_reported env d ending)\<lparr>res_output := None\<rparr>, if ending = None then 0 else 1)"
    using direct_execute_switch [OF assms(1,4)] by blast
  define fds5 where "fds5 = ?fds(a := ?fds 0, b := ?fds 1, c := ?fds 2, ?n := Some Dev_Null, ?t := Some Temp_File)"
  note streams = redirected_streams [OF dist fds5_def]
  note before = flushed_before [OF assms(5) streams(4,5)]
  let ?fds6 = "redirect ?n ?t fds5" and ?bs = "map snd (captured (de_flushes env) (dyn_output d))"
  have content: "sent_to Temp_File (fflush Stderr ?fds6 (fflush Stdout ?fds6 (fwrite (de_flushes env) ?fds6 0 (dyn_output d)
      (fflush Stderr fds5 (fflush Stdout fds5 \<lparr>io_buffer = de_pending env, io_sent = []\<rparr>))))) = ?bs"
    using streams(2)
    by (rule sent_written(2) [where io = "fflush Stderr fds5 (fflush Stdout fds5 \<lparr>io_buffer = de_pending env, io_sent = []\<rparr>)",
          OF streams(1,2) before])
  have out: "read_output (de_seek_ok env) (de_output_ok env) (de_read env) ?bs = Some (Some \<lparr>out_data = ?bs\<rparr>)"
    using assms(1) read_output_all [of ?bs] by (simp add: direct_ok_def)
  have result: "fst (ctest_result_set_output ((direct_reported env d ending)\<lparr>res_output := None\<rparr>) (Some \<lparr>out_data = ?bs\<rparr>))
      = direct_reported env d ending"
    by (simp add: ctest_result_set_output_def direct_reported_def Let_def)
  show ?thesis
    unfolding direct_run_testcase_def dups
    using opened assms(1) run out result content streams(3) redirect_undone [OF dist closed, folded fds5_def]
      signals_restored [OF assms(4), of "de_sigaction env" "()"]
    by (simp add: Let_def table [folded fds5_def] assms(3) direct_hooks_init_def ctest_result_create_empty_def direct_ok_def)
qed

text \<open>
  C2: A test case that ends in any way but a signal that cannot be caught is started and completed once,
  with the type and failure it asked for and with all it wrote to either of its streams, the bytes of one stream in
  order, and nothing that was in the buffers before; and it leaves the process as it was: the standard streams
  are the former ones, every descriptor that was opened is closed, and all signals have their former
  dispositions. (The return value is 1 for everything but a passed test case, also for a skipped one.)
\<close>

theorem direct_result:
  assumes "direct_ok env (d, ending)" and "fresh_fds env (pr_fds proc)" and "pr_sigs proc = sig_initial disp"
    and "\<forall>s. disp s \<noteq> Disp_Sighandler" and "inherited_only (pr_fds proc)"
  shows "direct_run_testcase env ops (d, ending) proc r
    = Done (proc, testcase_complete ops (testcase_start ops r) (direct_reported env d ending),
        if ending = None then 0 else 1)"
  by (rule direct_reports [OF assms])

theorem direct_result_witness:
  "direct_run_testcase
      \<lparr>de_result_ok = True, de_alloc_ok = True, de_dups = (3, 4, 5), de_null = 6,
       de_getenv = (\<lambda>_. None), de_malloc_ok = True, de_mkstemp = (\<lambda>name. (7, ''/tmp/ctest_a1b2c3d4'')),
       de_strerror = (\<lambda>_. []), de_sigaction = (\<lambda>_. None), de_seek_ok = True, de_output_ok = True, de_read = Some 2,
       de_pending = (\<lambda>_. ''x''), de_flushes = (\<lambda>i. i = 1)\<rparr>
      \<lparr>report_testsuite = (\<lambda>r s. (r, True)), testsuite_destroy = id, report_test = (\<lambda>r t. (r, True)), test_destroy = id,
       report_testcase = (\<lambda>r c. (r, True)), testcase_start = id, testcase_complete = (\<lambda>r result. [(res_type result, res_output result)]),
       testcase_destroy = id\<rparr>
      (\<lparr>dyn_hooked = False, dyn_failure = None, dyn_stage = 1, dyn_teardown = None,
        dyn_abort_type = CTEST_DYNAMIC_OPS_ABORT_NONE, dyn_free_fixture = False, dyn_alloc_ok = True,
        dyn_calls = [Stage_Changed 0, Stage_Changed 1, Call_Test], dyn_output = [(Stdout, CHR ''h''), (Stderr, CHR ''i'')]\<rparr>, Some (On_Signal 11))
      \<lparr>pr_fds = (\<lambda>fd. if fd \<in> {0, 1, 2} then Some (Inherited (nat fd)) else None), pr_sigs = sig_initial (\<lambda>_. Disp_Default)\<rparr> []
    = Done (\<lparr>pr_fds = (\<lambda>fd. if fd \<in> {0, 1, 2} then Some (Inherited (nat fd)) else None), pr_sigs = sig_initial (\<lambda>_. Disp_Default)\<rparr>,
        [(CTEST_RESULT_FAIL, Some \<lparr>out_data = ''ih''\<rparr>)], 1)"
  by (subst direct_result [where disp = "\<lambda>_. Disp_Default"]) (simp_all add: direct_ok_def fds_opened_def fresh_fds_def direct_temp_def opentemp_def
      first_error_def signals_def direct_reported_def inherited_only_def captured_def)

text \<open>
  C32: If a descriptor cannot be had, the test case does not run: every descriptor already opened is
  closed again and 1 is returned, but the reporter is told nothing, neither that the test case started nor
  that it failed.
\<close>

theorem direct_setup_errors:
  assumes "\<not> fds_opened env" and "fresh_fds env (pr_fds proc)"
  shows "direct_run_testcase env ops exec proc r = Done (proc, r, 1)"
proof -
  obtain a b c where dups: "de_dups env = (a, b, c)" by (metis prod_cases3)
  let ?n = "de_null env" and ?t = "direct_temp env"
  have neg: "a < 0 \<or> b < 0 \<or> c < 0 \<or> ?n < 0 \<or> ?t < 0"
    using assms(1) dups by (auto simp: fds_opened_def)
  have fresh: "distinct ([0, 1, 2] @ filter (\<lambda>fd. 0 \<le> fd) [a, b, c, ?n, ?t])"
      "list_all (\<lambda>fd. 0 \<le> fd \<longrightarrow> pr_fds proc fd = None) [a, b, c, ?n, ?t]"
    using assms(2) dups by (simp_all add: fresh_fds_def)
  have upd: "f(x := None) = f" if "f x = None" for f :: fd_table and x using that by auto
  consider "a < 0" | "0 \<le> a" "b < 0" | "0 \<le> a" "0 \<le> b" "c < 0" | "0 \<le> a" "0 \<le> b" "0 \<le> c" "?n < 0"
    | "0 \<le> a" "0 \<le> b" "0 \<le> c" "0 \<le> ?n" "?t < 0" using neg by linarith
  then show ?thesis
    unfolding direct_run_testcase_def dups
    by cases (use fresh in \<open>simp_all add: Let_def fd_ops fun_upd_twist upd\<close>)
qed

theorem direct_setup_errors_witness:
  "direct_run_testcase
      \<lparr>de_result_ok = True, de_alloc_ok = True, de_dups = (3, 4, 5), de_null = 6,
       de_getenv = (\<lambda>_. None), de_malloc_ok = True, de_mkstemp = (\<lambda>name. (-1, ''/tmp/ctest_a1b2c3d4'')),
       de_strerror = (\<lambda>_. []), de_sigaction = (\<lambda>_. None), de_seek_ok = True, de_output_ok = True, de_read = Some 2,
       de_pending = (\<lambda>_. ''x''), de_flushes = (\<lambda>i. i = 1)\<rparr>
      \<lparr>report_testsuite = (\<lambda>r s. (r, True)), testsuite_destroy = id, report_test = (\<lambda>r t. (r, True)), test_destroy = id,
       report_testcase = (\<lambda>r c. (r, True)), testcase_start = id, testcase_complete = (\<lambda>r result. [res_type result]),
       testcase_destroy = id\<rparr>
      (\<lparr>dyn_hooked = False, dyn_failure = None, dyn_stage = 1, dyn_teardown = None,
        dyn_abort_type = CTEST_DYNAMIC_OPS_ABORT_NONE, dyn_free_fixture = False, dyn_alloc_ok = True,
        dyn_calls = [Stage_Changed 0, Stage_Changed 1, Call_Test], dyn_output = [(Stdout, CHR ''h''), (Stderr, CHR ''i'')]\<rparr>, Some (On_Signal 11))
      \<lparr>pr_fds = (\<lambda>fd. if fd \<in> {0, 1, 2} then Some (Inherited (nat fd)) else None), pr_sigs = sig_initial (\<lambda>_. Disp_Default)\<rparr> []
    = Done (\<lparr>pr_fds = (\<lambda>fd. if fd \<in> {0, 1, 2} then Some (Inherited (nat fd)) else None), pr_sigs = sig_initial (\<lambda>_. Disp_Default)\<rparr>, [], 1)"
  by (rule direct_setup_errors) (simp_all add: fds_opened_def fresh_fds_def direct_temp_def opentemp_def)

end
