(* ===== verification/Reporter_Simulation.thy ===== *)
theory Reporter_Simulation
  imports Runner_Utils
begin

text \<open>
  Two reporters driven by the same run loop. The locale \<open>reporter_simulation\<close> relates their states at each
  nesting level (no suite open, a suite, a test, a test case before and after it has run) and asks that every call gives the same
  reply and keeps the relation; its lemmas carry the relation through the loops of
  \<^verbatim>\<open>src/exec/runner_utils.c\<close>. In the calls of the loops a test belongs to the suite that is open and a test
  case to the test that is open, so the laws may rely on it.
\<close>

definition same_reply ::
  "('a \<Rightarrow> 'b \<Rightarrow> bool) \<Rightarrow> ('a \<Rightarrow> 'b \<Rightarrow> bool) \<Rightarrow> 'a \<times> bool \<Rightarrow> 'b \<times> bool \<Rightarrow> bool" where
  "same_reply P Q x y \<longleftrightarrow> snd x = snd y \<and> (if snd x then P (fst x) (fst y) else Q (fst x) (fst y))"

definition same_result :: "('a \<Rightarrow> 'b \<Rightarrow> bool) \<Rightarrow> 'a \<times> int \<Rightarrow> 'b \<times> int \<Rightarrow> bool" where
  "same_result R x y \<longleftrightarrow> snd x = snd y \<and> R (fst x) (fst y)"

lemma same_replyE:
  assumes "same_reply P Q x y"
  obtains a b where "x = (a, True)" "y = (b, True)" "P a b" | a b where "x = (a, False)" "y = (b, False)" "Q a b"
  using assms by (cases x; cases y; cases "snd x") (auto simp: same_reply_def)

lemma same_resultE:
  assumes "same_result R x y"
  obtains a b rc where "x = (a, rc)" "y = (b, rc)" "R a b"
  using assms by (cases x; cases y) (auto simp: same_result_def)

lemma same_result_iff [simp]: "same_result R (a, rc) (b, rc') \<longleftrightarrow> rc = rc' \<and> R a b"
  by (simp add: same_result_def)

text \<open>The tests of a suite and the test cases of a test know what they belong to.\<close>

definition suite_wf :: "('s, 't, 'c) suite_ops \<Rightarrow> bool" where
  "suite_wf sops \<longleftrightarrow>
     (\<forall>s. \<forall>t \<in> set (get_tests sops s). get_testsuite sops t = s) \<and>
     (\<forall>t. \<forall>c \<in> set (get_testcases sops t). get_test sops c = t)"

text \<open>A runner that starts a test case, and completes it with a result and a return value of its own.\<close>

definition run_reporting ::
  "('r, 's, 't, 'c) reporter_ops \<Rightarrow> ('c \<Rightarrow> ctest_result \<times> int) \<Rightarrow> 'r \<Rightarrow> 'c \<Rightarrow> 'r \<times> int" where
  "run_reporting ops outcome r c =
     (testcase_complete ops (testcase_start ops r) (fst (outcome c)), snd (outcome c))"

locale reporter_simulation =
  fixes sops :: "('s, 't, 'c) suite_ops"
    and ops1 :: "('a, 's, 't, 'c) reporter_ops" and run1 :: "'a \<Rightarrow> 'c \<Rightarrow> 'a \<times> int"
    and ops2 :: "('b, 's, 't, 'c) reporter_ops" and run2 :: "'b \<Rightarrow> 'c \<Rightarrow> 'b \<times> int"
    and R0 :: "'a \<Rightarrow> 'b \<Rightarrow> bool" and R1 :: "'s \<Rightarrow> 'a \<Rightarrow> 'b \<Rightarrow> bool"
    and R2 :: "'t \<Rightarrow> 'a \<Rightarrow> 'b \<Rightarrow> bool" and R3 :: "'c \<Rightarrow> 'a \<Rightarrow> 'b \<Rightarrow> bool"
    and R4 :: "'c \<Rightarrow> 'a \<Rightarrow> 'b \<Rightarrow> bool"
  assumes sim_report_testsuite: "R0 a b \<Longrightarrow>
      same_reply (R1 s) R0 (report_testsuite ops1 a s) (report_testsuite ops2 b s)"
    and sim_testsuite_destroy: "R1 s a b \<Longrightarrow> R0 (testsuite_destroy ops1 a) (testsuite_destroy ops2 b)"
    and sim_report_test: "R1 (get_testsuite sops t) a b \<Longrightarrow>
      same_reply (R2 t) (R1 (get_testsuite sops t)) (report_test ops1 a t) (report_test ops2 b t)"
    and sim_test_destroy: "R2 t a b \<Longrightarrow>
      R1 (get_testsuite sops t) (test_destroy ops1 a) (test_destroy ops2 b)"
    and sim_report_testcase: "R2 (get_test sops c) a b \<Longrightarrow>
      same_reply (R3 c) (R2 (get_test sops c)) (report_testcase ops1 a c) (report_testcase ops2 b c)"
    and sim_run: "R3 c a b \<Longrightarrow> same_result (R4 c) (run1 a c) (run2 b c)"
    and sim_testcase_destroy: "R4 c a b \<Longrightarrow>
      R2 (get_test sops c) (testcase_destroy ops1 a) (testcase_destroy ops2 b)"
begin

lemma sim_testcases_in_test:
  assumes "R2 t a b" and "\<forall>c \<in> set cs. get_test sops c = t"
  shows "same_result (R2 t) (run_testcases_in_test ops1 run1 a cs res) (run_testcases_in_test ops2 run2 b cs res)"
  using assms
proof (induction cs arbitrary: a b res)
  case (Cons c cs)
  then have t: "get_test sops c = t" by simp
  from sim_report_testcase [of c a b] Cons.prems t
  have "same_reply (R3 c) (R2 t) (report_testcase ops1 a c) (report_testcase ops2 b c)" by simp
  then show ?case
  proof (cases rule: same_replyE)
    case (1 a1 b1)
    from sim_run [OF 1(3)] obtain a2 b2 rc where run: "run1 a1 c = (a2, rc)" "run2 b1 c = (b2, rc)" "R4 c a2 b2"
      by (rule same_resultE)
    have "R2 t (testcase_destroy ops1 a2) (testcase_destroy ops2 b2)"
      using sim_testcase_destroy [OF run(3)] t by simp
    with 1 run Cons show ?thesis by (simp add: Let_def)
  qed simp
qed simp

lemma sim_tests_in_testsuite:
  assumes "R1 s a b" and "\<forall>t \<in> set ts. get_testsuite sops t = s" and "suite_wf sops"
  shows "same_result (R1 s) (run_tests_in_testsuite sops ops1 run1 a ts res) (run_tests_in_testsuite sops ops2 run2 b ts res)"
  using assms
proof (induction ts arbitrary: a b res)
  case (Cons t ts)
  then have s: "get_testsuite sops t = s" by simp
  from sim_report_test [of t a b] Cons.prems s
  have "same_reply (R2 t) (R1 s) (report_test ops1 a t) (report_test ops2 b t)" by simp
  then show ?case
  proof (cases rule: same_replyE)
    case (1 a1 b1)
    have "\<forall>c \<in> set (get_testcases sops t). get_test sops c = t" using assms(3) by (simp add: suite_wf_def)
    from sim_testcases_in_test [OF 1(3) this, of 0] obtain a2 b2 rc where
      run: "run_testcases_in_test ops1 run1 a1 (get_testcases sops t) 0 = (a2, rc)"
        "run_testcases_in_test ops2 run2 b1 (get_testcases sops t) 0 = (b2, rc)" "R2 t a2 b2"
      by (rule same_resultE)
    have "R1 s (test_destroy ops1 a2) (test_destroy ops2 b2)" using sim_test_destroy [OF run(3)] s by simp
    with 1 run Cons show ?thesis by (simp add: Let_def)
  qed simp
qed simp

lemma sim_testsuites:
  assumes "R0 a b" and "suite_wf sops"
  shows "same_result R0 (runner_run_testsuites sops ops1 run1 a ss res) (runner_run_testsuites sops ops2 run2 b ss res)"
  using assms
proof (induction ss arbitrary: a b res)
  case (Cons s ss)
  from sim_report_testsuite [OF Cons.prems(1), of s] show ?case
  proof (cases rule: same_replyE)
    case (1 a1 b1)
    have "\<forall>t \<in> set (get_tests sops s). get_testsuite sops t = s" using assms(2) by (simp add: suite_wf_def)
    from sim_tests_in_testsuite [OF 1(3) this assms(2), of 0] obtain a2 b2 rc where
      run: "run_tests_in_testsuite sops ops1 run1 a1 (get_tests sops s) 0 = (a2, rc)"
        "run_tests_in_testsuite sops ops2 run2 b1 (get_tests sops s) 0 = (b2, rc)" "R1 s a2 b2"
      by (rule same_resultE)
    with 1 Cons sim_testsuite_destroy [OF run(3)] show ?thesis by (simp add: Let_def)
  qed simp
qed simp

lemma sim_tests_loop:
  assumes "R0 a b" and "suite_wf sops"
  shows "same_result R0 (run_tests_loop sops ops1 run1 a ts res) (run_tests_loop sops ops2 run2 b ts res)"
  using assms(1)
proof (induction "length ts" arbitrary: a b ts res rule: less_induct)
  case less
  show ?case
  proof (cases ts)
    case (Cons t ts')
    let ?s = "get_testsuite sops t"
    let ?same = "takeWhile (\<lambda>u. get_testsuite sops u = ?s) ts'" and ?rest = "dropWhile (\<lambda>u. get_testsuite sops u = ?s) ts'"
    have len: "length ?rest < length ts" using Cons length_dropWhile_le [of _ ts'] by (simp add: le_imp_less_Suc)
    have all: "\<forall>u \<in> set (t # ?same). get_testsuite sops u = ?s" by (auto dest: set_takeWhileD)
    from sim_report_testsuite [OF less.prems, of ?s] show ?thesis
    proof (cases rule: same_replyE)
      case (1 a1 b1)
      from sim_tests_in_testsuite [OF 1(3) all assms(2), of 0] obtain a2 b2 rc where
        run: "run_tests_in_testsuite sops ops1 run1 a1 (t # ?same) 0 = (a2, rc)"
          "run_tests_in_testsuite sops ops2 run2 b1 (t # ?same) 0 = (b2, rc)" "R1 ?s a2 b2"
        by (rule same_resultE)
      from 1 run less.hyps [OF len sim_testsuite_destroy [OF run(3)]] sim_testsuite_destroy [OF run(3)] Cons
      show ?thesis by (simp add: Let_def)
    qed (simp add: Cons Let_def)
  qed (use less.prems in simp)
qed

lemma sim_tests:
  assumes "R0 a b" and "suite_wf sops"
  shows "same_result R0 (runner_run_tests ok sops ops1 run1 a ts) (runner_run_tests ok sops ops2 run2 b ts)"
  using sim_tests_loop [OF assms] assms(1) by (simp add: runner_run_tests_def split: option.split)

text \<open>The suite that is open in the loop over test cases, if any.\<close>

definition sim_open :: "'s option \<Rightarrow> 'a \<Rightarrow> 'b \<Rightarrow> bool" where
  "sim_open su a b \<longleftrightarrow> (case su of None \<Rightarrow> R0 a b | Some s \<Rightarrow> R1 s a b)"

lemma sim_testcases_loop:
  assumes "sim_open su a b"
  shows "\<exists>a' b' rc op. run_testcases_loop sops ops1 run1 a su cs res = (a', rc, op) \<and>
    run_testcases_loop sops ops2 run2 b su cs res = (b', rc, op) \<and>
    (if op then \<exists>s. R1 s a' b' else R0 a' b')"
  using assms
proof (induction "length cs" arbitrary: a b su cs res rule: less_induct)
  case less
  show ?case
  proof (cases cs)
    case Nil
    with less.prems show ?thesis by (cases su) (auto simp: sim_open_def)
  next
    case (Cons c cs')
    let ?t = "get_test sops c" and ?s = "get_testsuite sops (get_test sops c)"
    let ?same = "takeWhile (\<lambda>d. get_test sops d = ?t) cs'" and ?rest = "dropWhile (\<lambda>d. get_test sops d = ?t) cs'"
    let ?x = "if Some ?s \<noteq> su then report_testsuite ops1 (if su \<noteq> None then testsuite_destroy ops1 a else a) ?s else (a, True)"
    let ?y = "if Some ?s \<noteq> su then report_testsuite ops2 (if su \<noteq> None then testsuite_destroy ops2 b else b) ?s else (b, True)"
    have len: "length ?rest < length cs" using Cons length_dropWhile_le [of _ cs'] by (simp add: le_imp_less_Suc)
    have all: "\<forall>d \<in> set (c # ?same). get_test sops d = ?t" by (auto dest: set_takeWhileD)
    have "same_reply (R1 ?s) R0 ?x ?y"
    proof (cases "Some ?s = su")
      case True
      with less.prems show ?thesis by (auto simp: sim_open_def same_reply_def)
    next
      case False
      have "R0 (if su \<noteq> None then testsuite_destroy ops1 a else a) (if su \<noteq> None then testsuite_destroy ops2 b else b)"
        using less.prems sim_testsuite_destroy by (cases su) (auto simp: sim_open_def)
      from sim_report_testsuite [OF this] False show ?thesis by simp
    qed
    then show ?thesis
    proof (cases rule: same_replyE)
      case (1 a1 b1)
      note opened = 1
      from sim_report_test [OF 1(3)] show ?thesis
      proof (cases rule: same_replyE)
        case (1 a2 b2)
        from sim_testcases_in_test [OF 1(3) all, of 0] obtain a3 b3 rc where
          run: "run_testcases_in_test ops1 run1 a2 (c # ?same) 0 = (a3, rc)"
            "run_testcases_in_test ops2 run2 b2 (c # ?same) 0 = (b3, rc)" "R2 ?t a3 b3"
          by (rule same_resultE)
        note closed = sim_test_destroy [OF run(3)]
        then have "sim_open (Some ?s) (test_destroy ops1 a3) (test_destroy ops2 b3)" by (simp add: sim_open_def)
        from less.hyps [OF len this, of "res + rc"] opened 1 run closed show ?thesis
          by (cases "rc < 0") (auto simp: Cons Let_def)
      next
        case (2 a2 b2)
        with opened show ?thesis by (auto simp: Cons Let_def)
      qed
    next
      case (2 a1 b1)
      then show ?thesis by (auto simp: Cons Let_def)
    qed
  qed
qed

lemma sim_testcases:
  assumes "R0 a b"
  shows "same_result R0 (runner_run_testcases ok sops ops1 run1 a cs) (runner_run_testcases ok sops ops2 run2 b cs)"
proof (cases "repartition_testcases ok (get_test sops) (get_testsuite sops) cs (length cs)")
  case None
  with assms show ?thesis by (simp add: runner_run_testcases_def)
next
  case (Some cs')
  from assms obtain a' b' rc op where
    "run_testcases_loop sops ops1 run1 a None cs' 0 = (a', rc, op)"
    "run_testcases_loop sops ops2 run2 b None cs' 0 = (b', rc, op)" "if op then \<exists>s. R1 s a' b' else R0 a' b'"
    using sim_testcases_loop [of None a b cs' 0] by (auto simp: sim_open_def)
  with assms Some sim_testsuite_destroy show ?thesis
    by (auto simp: runner_run_testcases_def split: if_splits)
qed

end

end
