(* ===== verification/Heap_Blocks.thy ===== *)
theory Heap_Blocks
  imports Prelude
begin

text \<open>
  Allocation as the loader sees it: blocks are numbered as they are handed out, an allocation may fail, and
  releasing a block that is not live is remembered. The locale \<open>lifecycle\<close> is the contract of a kind of
  object that is made of blocks: creating one either succeeds and leaves exactly its blocks behind or fails
  and leaves nothing, and destroying one releases exactly its blocks. From a lifecycle follows the one of
  arrays of such objects that are created in turn and all destroyed when a creation fails.
\<close>

section \<open>Definitions\<close>

record block_heap =
  hp_next :: nat
  hp_live :: "nat set"
  hp_oks :: "bool list"
  hp_bad :: bool

definition alloc_block :: "block_heap \<Rightarrow> block_heap \<times> nat option" where
  "alloc_block h =
     (let ok = (case hp_oks h of [] \<Rightarrow> True | b # _ \<Rightarrow> b);
          h = h\<lparr>hp_oks := tl (hp_oks h)\<rparr>
      in if ok then (h\<lparr>hp_next := Suc (hp_next h), hp_live := insert (hp_next h) (hp_live h)\<rparr>, Some (hp_next h))
         else (h, None))"

definition free_block :: "nat \<Rightarrow> block_heap \<Rightarrow> block_heap" where
  "free_block p h = h\<lparr>hp_live := hp_live h - {p}, hp_bad := hp_bad h \<or> p \<notin> hp_live h\<rparr>"

text \<open>
  The loop that fills an array with created objects, and the loop it ends in when a creation fails: all
  elements that were created are destroyed, in order.
\<close>

fun create_all ::
  "('k \<Rightarrow> block_heap \<Rightarrow> block_heap \<times> 'o option) \<Rightarrow> ('o \<Rightarrow> block_heap \<Rightarrow> block_heap) \<Rightarrow> 'o list \<Rightarrow> 'k list
   \<Rightarrow> block_heap \<Rightarrow> block_heap \<times> 'o list option" where
  "create_all create destroy made [] h = (h, Some made)"
| "create_all create destroy made (k # ks) h =
     (case create k h of
        (h, Some x) \<Rightarrow> create_all create destroy (made @ [x]) ks h
      | (h, None) \<Rightarrow> (fold destroy made h, None))"

section \<open>Growing and shrinking\<close>

definition heap_ok :: "block_heap \<Rightarrow> bool" where
  "heap_ok h \<longleftrightarrow> (\<forall>p \<in> hp_live h. p < hp_next h)"

definition grown :: "nat list \<Rightarrow> block_heap \<Rightarrow> block_heap \<Rightarrow> bool" where
  "grown bs h h' \<longleftrightarrow>
     hp_live h' = hp_live h \<union> set bs \<and> distinct bs \<and> (\<forall>p \<in> set bs. hp_next h \<le> p \<and> p < hp_next h') \<and>
     hp_next h \<le> hp_next h' \<and> hp_bad h' = hp_bad h"

definition shrunk :: "nat list \<Rightarrow> block_heap \<Rightarrow> block_heap \<Rightarrow> bool" where
  "shrunk bs h h' \<longleftrightarrow>
     hp_live h' = hp_live h - set bs \<and> hp_next h' = hp_next h \<and> hp_bad h' = hp_bad h \<and> hp_oks h' = hp_oks h"

lemma grown_refl [simp]: "grown [] h h"
  by (simp add: grown_def)

lemma grown_ok: "heap_ok h \<Longrightarrow> grown bs h h' \<Longrightarrow> heap_ok h'"
  by (force simp: heap_ok_def grown_def)

lemma grown_trans: "grown bs h h' \<Longrightarrow> grown cs h' h'' \<Longrightarrow> grown (bs @ cs) h h''"
  by (force simp: grown_def)

lemma grown_perm: "grown bs h h' \<Longrightarrow> set bs = set cs \<Longrightarrow> distinct cs \<Longrightarrow> grown cs h h'"
  by (simp add: grown_def)

lemma grown_live: "grown bs h h' \<Longrightarrow> set bs \<subseteq> hp_live h'" and grown_distinct: "grown bs h h' \<Longrightarrow> distinct bs"
  by (auto simp: grown_def)

lemma shrunk_refl [simp]: "shrunk [] h h"
  by (simp add: shrunk_def)

lemma shrunk_trans: "shrunk bs h h' \<Longrightarrow> shrunk cs h' h'' \<Longrightarrow> shrunk (bs @ cs) h h''"
  by (auto simp: shrunk_def)

lemma grown_shrunk:
  assumes "heap_ok h" and "grown (bs @ cs) h h'" and "shrunk bs h' h''"
  shows "grown cs h h''"
proof -
  have g: "hp_live h' = hp_live h \<union> set bs \<union> set cs" "\<forall>p \<in> set bs. hp_next h \<le> p" "\<forall>p \<in> set cs. hp_next h \<le> p \<and> p < hp_next h'"
      "distinct (bs @ cs)" "hp_next h \<le> hp_next h'" "hp_bad h' = hp_bad h"
    using assms(2) by (auto simp: grown_def)
  have "p \<notin> set bs" if "p \<in> hp_live h" for p
    using assms(1) g(2) that unfolding heap_ok_def by (meson not_le)
  then have "hp_live h' - set bs = hp_live h \<union> set cs" using g(1,4) by auto
  with g assms(3) show ?thesis by (simp add: grown_def shrunk_def)
qed

lemma alloc_grown:
  "alloc_block h = (h', Some p) \<Longrightarrow> grown [p] h h'" "alloc_block h = (h', None) \<Longrightarrow> grown [] h h'"
  by (auto simp: alloc_block_def grown_def Let_def split: if_splits)

lemma alloc_total: "hp_oks h = [] \<Longrightarrow> \<exists>h' p. alloc_block h = (h', Some p) \<and> hp_oks h' = []"
  by (simp add: alloc_block_def)

lemma free_shrunk: "p \<in> hp_live h \<Longrightarrow> shrunk [p] h (free_block p h)"
  by (auto simp: free_block_def shrunk_def)

lemma free_one:
  assumes "heap_ok h" and "grown (p # bs) h h'"
  shows "grown bs h (free_block p h')"
proof -
  have "shrunk [p] h' (free_block p h')" using grown_live [OF assms(2)] by (intro free_shrunk) simp
  then show ?thesis by (rule grown_shrunk [OF assms(1), rotated]) (use assms(2) in simp)
qed

text \<open>Two blocks released one after the other, as the error paths do.\<close>

lemma free_two:
  assumes "heap_ok h" and "grown [p, q] h h'"
  shows "grown [] h (free_block p (free_block q h'))"
proof (rule free_one [OF assms(1)])
  have "grown [q, p] h h'" using assms(2) by (auto simp: grown_def)
  then show "grown [p] h (free_block q h')" by (rule free_one [OF assms(1)])
qed

lemma free_all_shrunk:
  "set ps \<subseteq> hp_live h \<Longrightarrow> distinct ps \<Longrightarrow> shrunk ps h (fold free_block ps h)"
proof (induction ps arbitrary: h)
  case (Cons p ps)
  then have f: "shrunk [p] h (free_block p h)" by (intro free_shrunk) simp
  with Cons.prems have "set ps \<subseteq> hp_live (free_block p h)" by (auto simp: shrunk_def)
  with shrunk_trans [OF f] Cons show ?case by fastforce
qed simp

section \<open>Lifecycles\<close>

locale lifecycle =
  fixes create :: "'k \<Rightarrow> block_heap \<Rightarrow> block_heap \<times> 'o option"
    and destroy :: "'o \<Rightarrow> block_heap \<Rightarrow> block_heap"
    and blocks :: "'o \<Rightarrow> nat list"
    and made_for :: "'k \<Rightarrow> 'o \<Rightarrow> bool"
  assumes create_some: "heap_ok h \<Longrightarrow> create k h = (h', Some x) \<Longrightarrow> grown (blocks x) h h' \<and> made_for k x"
    and create_none: "heap_ok h \<Longrightarrow> create k h = (h', None) \<Longrightarrow> grown [] h h'"
    and create_total: "hp_oks h = [] \<Longrightarrow> \<exists>h' x. create k h = (h', Some x) \<and> hp_oks h' = []"
    and destroy_shrunk: "set (blocks x) \<subseteq> hp_live h \<Longrightarrow> distinct (blocks x) \<Longrightarrow> shrunk (blocks x) h (destroy x h)"
begin

abbreviation all_blocks :: "'o list \<Rightarrow> nat list" where
  "all_blocks xs \<equiv> concat (map blocks xs)"

lemma destroy_all_shrunk:
  assumes "set (all_blocks xs) \<subseteq> hp_live h" and "distinct (all_blocks xs)"
  shows "shrunk (all_blocks xs) h (fold destroy xs h)"
  using assms
proof (induction xs arbitrary: h)
  case (Cons x xs)
  then have first: "shrunk (blocks x) h (destroy x h)" by (intro destroy_shrunk) auto
  with Cons.prems have "set (all_blocks xs) \<subseteq> hp_live (destroy x h)" by (auto simp: shrunk_def)
  from Cons.IH [OF this] Cons.prems first show ?case by (auto intro: shrunk_trans)
qed simp

lemma create_all_outcome:
  assumes "heap_ok h0" and "grown (all_blocks made) h0 h" and "create_all create destroy made ks h = (h', res)"
  shows "case res of
      Some xs \<Rightarrow> grown (all_blocks xs) h0 h' \<and> (\<exists>ys. xs = made @ ys \<and> list_all2 made_for ks ys)
    | None \<Rightarrow> grown [] h0 h'"
  using assms(2,3)
proof (induction ks arbitrary: made h)
  case Nil
  then show ?case by auto
next
  case (Cons k ks)
  obtain h1 x where k: "create k h = (h1, x)" by (meson surj_pair)
  have ok: "heap_ok h" using grown_ok [OF assms(1) Cons.prems(1)] .
  show ?case
  proof (cases x)
    case None
    from grown_trans [OF Cons.prems(1) create_none [OF ok]] k None
    have g: "grown (all_blocks made) h0 h1" by simp
    from destroy_all_shrunk [OF grown_live [OF g] grown_distinct [OF g]]
    have "grown [] h0 (fold destroy made h1)"
      by (rule grown_shrunk [OF assms(1), rotated]) (simp add: g)
    with Cons.prems(2) k None show ?thesis by auto
  next
    case (Some y)
    from create_some [OF ok] k Some have y: "grown (blocks y) h h1" "made_for k y" by auto
    then have "grown (all_blocks (made @ [y])) h0 h1" using grown_trans [OF Cons.prems(1)] by simp
    from Cons.IH [OF this] Cons.prems(2) k Some y(2) show ?thesis by (fastforce split: option.splits)
  qed
qed

lemma create_all_total:
  "hp_oks h = [] \<Longrightarrow> \<exists>h' xs. create_all create destroy made ks h = (h', Some xs) \<and> hp_oks h' = []"
proof (induction ks arbitrary: made h)
  case (Cons k ks)
  from create_total [OF Cons.prems] obtain h1 x where "create k h = (h1, Some x)" "hp_oks h1 = []" by blast
  with Cons.IH [of h1 "made @ [x]"] show ?case by simp
qed simp

end

end
