(* ===== verification/Runner.thy ===== *)
theory Runner
  imports Direct_Runner Reporter_Simulation Heap_Blocks
begin

text \<open>
  The interface of \<^verbatim>\<open>include/ctest/exec/runner.h\<close> and the operations the two runners put behind it: the loops of
  \<^verbatim>\<open>runner_utils.c\<close>, each with the runner's own way to run a test case.
\<close>

section \<open>Definitions\<close>

text \<open>
  The loops are run by a process that may crash or wait for ever in the middle; from then on nothing happens. Its
  state is a reporter with the descriptors and signal dispositions of the process.
\<close>

type_synonym 'r running = "(process \<times> 'r) run"

definition while_alive :: "('r \<Rightarrow> 'r) \<Rightarrow> 'r running \<Rightarrow> 'r running" where
  "while_alive f x = (case x of Done (proc, r) \<Rightarrow> Done (proc, f r) | Crash \<Rightarrow> Crash | Waiting \<Rightarrow> Waiting)"

definition ask_alive :: "('r \<Rightarrow> 'a \<Rightarrow> 'r \<times> bool) \<Rightarrow> 'r running \<Rightarrow> 'a \<Rightarrow> 'r running \<times> bool" where
  "ask_alive f x a =
     (case x of Done (proc, r) \<Rightarrow> (case f r a of (r, ok) \<Rightarrow> (Done (proc, r), ok)) | Crash \<Rightarrow> (Crash, False) | Waiting \<Rightarrow> (Waiting, False))"

definition process_ops :: "('r, 's, 't, 'c) reporter_ops \<Rightarrow> ('r running, 's, 't, 'c) reporter_ops" where
  "process_ops ops =
     \<lparr>report_testsuite = ask_alive (report_testsuite ops), testsuite_destroy = while_alive (testsuite_destroy ops),
      report_test = ask_alive (report_test ops), test_destroy = while_alive (test_destroy ops),
      report_testcase = ask_alive (report_testcase ops), testcase_start = while_alive (testcase_start ops),
      testcase_complete = (\<lambda>x result. while_alive (\<lambda>r. testcase_complete ops r result) x),
      testcase_destroy = while_alive (testcase_destroy ops)\<rparr>"

text \<open>\<^verbatim>\<open>struct ctest_runner_ops\<close>, for reporters of one type; a runner is its block with these.\<close>

record ('r, 's, 't, 'c) ctest_runner_ops =
  op_run_testsuites :: "('r, 's, 't, 'c) reporter_ops \<Rightarrow> 'r running \<Rightarrow> 's list \<Rightarrow> 'r running \<times> int"
  op_run_tests :: "('r, 's, 't, 'c) reporter_ops \<Rightarrow> 'r running \<Rightarrow> 't list \<Rightarrow> 'r running \<times> int"
  op_run_testcases :: "('r, 's, 't, 'c) reporter_ops \<Rightarrow> 'r running \<Rightarrow> 'c list \<Rightarrow> 'r running \<times> int"
  op_destroy :: "nat \<Rightarrow> block_heap \<Rightarrow> block_heap"

record ('r, 's, 't, 'c) ctest_runner =
  rn_block :: nat
  rn_ops :: "('r, 's, 't, 'c) ctest_runner_ops"

definition ctest_runner_run_testsuites ::
  "('r, 's, 't, 'c) ctest_runner \<Rightarrow> ('r, 's, 't, 'c) reporter_ops \<Rightarrow> 'r running \<Rightarrow> 's list \<Rightarrow> 'r running \<times> int" where
  "ctest_runner_run_testsuites runner reporter x testsuites = op_run_testsuites (rn_ops runner) reporter x testsuites"

definition ctest_runner_run_tests ::
  "('r, 's, 't, 'c) ctest_runner \<Rightarrow> ('r, 's, 't, 'c) reporter_ops \<Rightarrow> 'r running \<Rightarrow> 't list \<Rightarrow> 'r running \<times> int" where
  "ctest_runner_run_tests runner reporter x tests = op_run_tests (rn_ops runner) reporter x tests"

definition ctest_runner_run_testcases ::
  "('r, 's, 't, 'c) ctest_runner \<Rightarrow> ('r, 's, 't, 'c) reporter_ops \<Rightarrow> 'r running \<Rightarrow> 'c list \<Rightarrow> 'r running \<times> int" where
  "ctest_runner_run_testcases runner reporter x testcases = op_run_testcases (rn_ops runner) reporter x testcases"

definition ctest_runner_destroy :: "('r, 's, 't, 'c) ctest_runner \<Rightarrow> block_heap \<Rightarrow> block_heap" where
  "ctest_runner_destroy runner h = op_destroy (rn_ops runner) (rn_block runner) h"

subsection \<open>The runners\<close>

text \<open>
  What surrounds the test cases: the system calls of the forking runner and what the child of a test case does,
  the system calls of the direct runner and how a test case is executed.
\<close>

record 'c surroundings =
  su_fork :: "'c \<Rightarrow> fork_env"
  su_parent :: "'c \<Rightarrow> parent_env"
  su_child :: "'c \<Rightarrow> child_env"
  su_direct :: "'c \<Rightarrow> direct_env"
  su_execute :: "'c \<Rightarrow> dynamic_ops \<times> ending option"
  su_alloc_ok :: bool

definition forking_step ::
  "'c surroundings \<Rightarrow> ('r, 's, 't, 'c) reporter_ops \<Rightarrow> 'r running \<Rightarrow> 'c \<Rightarrow> 'r running \<times> int" where
  "forking_step su ops x c =
     (case x of
        Done (proc, r) \<Rightarrow>
          (case forking_run_testcase (su_fork su c) (su_parent su c) ops (child_run (su_child su c) (su_execute su c)) proc r of
             Done (proc, r, rc) \<Rightarrow> (Done (proc, r), rc)
           | Crash \<Rightarrow> (Crash, 0)
           | Waiting \<Rightarrow> (Waiting, 0))
      | Crash \<Rightarrow> (Crash, 0)
      | Waiting \<Rightarrow> (Waiting, 0))"

definition direct_step ::
  "'c surroundings \<Rightarrow> ('r, 's, 't, 'c) reporter_ops \<Rightarrow> 'r running \<Rightarrow> 'c \<Rightarrow> 'r running \<times> int" where
  "direct_step su ops x c =
     (case x of
        Done (proc, r) \<Rightarrow>
          (case direct_run_testcase (su_direct su c) ops (su_execute su c) proc r of
             Done (proc, r, rc) \<Rightarrow> (Done (proc, r), rc)
           | Crash \<Rightarrow> (Crash, 0)
           | Waiting \<Rightarrow> (Waiting, 0))
      | Crash \<Rightarrow> (Crash, 0)
      | Waiting \<Rightarrow> (Waiting, 0))"

definition forking_op_run_testsuites where
  "forking_op_run_testsuites su sops reporter x testsuites =
     runner_run_testsuites sops (process_ops reporter) (forking_step su reporter) x testsuites 0"

definition forking_op_run_tests where
  "forking_op_run_tests su sops reporter x tests =
     runner_run_tests (su_alloc_ok su) sops (process_ops reporter) (forking_step su reporter) x tests"

definition forking_op_run_testcases where
  "forking_op_run_testcases su sops reporter x testcases =
     runner_run_testcases (su_alloc_ok su) sops (process_ops reporter) (forking_step su reporter) x testcases"

definition direct_op_run_testsuites where
  "direct_op_run_testsuites su sops reporter x testsuites =
     runner_run_testsuites sops (process_ops reporter) (direct_step su reporter) x testsuites 0"

definition direct_op_run_tests where
  "direct_op_run_tests su sops reporter x tests =
     runner_run_tests (su_alloc_ok su) sops (process_ops reporter) (direct_step su reporter) x tests"

definition direct_op_run_testcases where
  "direct_op_run_testcases su sops reporter x testcases =
     runner_run_testcases (su_alloc_ok su) sops (process_ops reporter) (direct_step su reporter) x testcases"

definition forking_op_destroy :: "nat \<Rightarrow> block_heap \<Rightarrow> block_heap" where
  "forking_op_destroy runner h = free_block runner h"

definition direct_op_destroy :: "nat \<Rightarrow> block_heap \<Rightarrow> block_heap" where
  "direct_op_destroy runner h = free_block runner h"

definition ctest_create_forking_runner ::
  "'c surroundings \<Rightarrow> ('s, 't, 'c) suite_ops \<Rightarrow> block_heap \<Rightarrow> block_heap \<times> ('r, 's, 't, 'c) ctest_runner option" where
  "ctest_create_forking_runner su sops h =
     (case alloc_block h of
        (h, None) \<Rightarrow> (h, None)
      | (h, Some runner) \<Rightarrow>
          (h, Some \<lparr>rn_block = runner, rn_ops =
             \<lparr>op_run_testsuites = forking_op_run_testsuites su sops, op_run_tests = forking_op_run_tests su sops,
              op_run_testcases = forking_op_run_testcases su sops, op_destroy = forking_op_destroy\<rparr>\<rparr>))"

definition ctest_create_direct_runner ::
  "'c surroundings \<Rightarrow> ('s, 't, 'c) suite_ops \<Rightarrow> block_heap \<Rightarrow> block_heap \<times> ('r, 's, 't, 'c) ctest_runner option" where
  "ctest_create_direct_runner su sops h =
     (case alloc_block h of
        (h, None) \<Rightarrow> (h, None)
      | (h, Some runner) \<Rightarrow>
          (h, Some \<lparr>rn_block = runner, rn_ops =
             \<lparr>op_run_testsuites = direct_op_run_testsuites su sops, op_run_tests = direct_op_run_tests su sops,
              op_run_testcases = direct_op_run_testcases su sops, op_destroy = direct_op_destroy\<rparr>\<rparr>))"

lemmas runner_defs = ctest_runner_run_testsuites_def ctest_runner_run_tests_def ctest_runner_run_testcases_def
  forking_op_run_testsuites_def forking_op_run_tests_def forking_op_run_testcases_def
  direct_op_run_testsuites_def direct_op_run_tests_def direct_op_run_testcases_def

section \<open>What the runners make of a test case\<close>

text \<open>
  The environment of the runner for every test case, and what the forking runner then makes of a test case:
  the parameter \<open>outcome\<close> of the command line program.
\<close>

definition isolated_outcome ::
  "('c \<Rightarrow> child_env) \<Rightarrow> ('c \<Rightarrow> parent_env) \<Rightarrow> ('c \<Rightarrow> dynamic_ops \<times> ending option) \<Rightarrow> 'c \<Rightarrow> ctest_result \<times> int" where
  "isolated_outcome cenv penv exec c =
     (case exec c of (d, ending) \<Rightarrow>
        (reported_result (cenv c) (penv c) d ending, if reported_type (cenv c) ending = CTEST_RESULT_FAIL then 1 else 0))"

definition forked_ok ::
  "('c \<Rightarrow> fork_env) \<Rightarrow> ('c \<Rightarrow> child_env) \<Rightarrow> ('c \<Rightarrow> parent_env) \<Rightarrow> ('c \<Rightarrow> dynamic_ops \<times> ending option) \<Rightarrow> process
   \<Rightarrow> 'c \<Rightarrow> bool" where
  "forked_ok fenv cenv penv exec proc c \<longleftrightarrow>
     system_ok (fenv c) (penv c) (cenv c) proc (snd (exec c)) \<and>
     often_enough (penv c) (cenv c) (fst (exec c)) (snd (exec c)) \<and>
     opt_all (\<lambda>f. event_ok (Failure_Event f)) (child_failure (cenv c) (fst (exec c)) (snd (exec c)))"

lemma forked_refines:
  assumes "forked_ok fenv cenv penv exec proc c"
  shows "forking_run_testcase (fenv c) (penv c) ops (child_run (cenv c) (exec c)) proc r =
    (case run_reporting ops (isolated_outcome cenv penv exec) r c of (r, rc) \<Rightarrow> Done (proc, r, rc))"
proof -
  obtain d ending where "exec c = (d, ending)" by (cases "exec c")
  with forking_reports [of "fenv c" "penv c" "cenv c" proc ending d ops r] assms show ?thesis
    by (simp add: forked_ok_def isolated_outcome_def run_reporting_def)
qed

definition direct_outcome :: "('c \<Rightarrow> direct_env) \<Rightarrow> ('c \<Rightarrow> dynamic_ops \<times> ending option) \<Rightarrow> 'c \<Rightarrow> ctest_result \<times> int" where
  "direct_outcome denv exec c =
     (case exec c of (d, ending) \<Rightarrow> (direct_reported (denv c) d ending, if ending = None then 0 else 1))"

definition process_ok :: "('c \<Rightarrow> direct_env) \<Rightarrow> ('c \<Rightarrow> dynamic_ops \<times> ending option) \<Rightarrow> process \<Rightarrow> 'c \<Rightarrow> bool" where
  "process_ok denv exec proc c \<longleftrightarrow>
     direct_ok (denv c) (exec c) \<and> fresh_fds (denv c) (pr_fds proc) \<and> inherited_only (pr_fds proc) \<and>
     (\<exists>disp. pr_sigs proc = sig_initial disp \<and> (\<forall>s. disp s \<noteq> Disp_Sighandler))"

lemma direct_refines:
  assumes "process_ok denv exec proc c"
  shows "direct_run_testcase (denv c) ops (exec c) proc r =
    (case run_reporting ops (direct_outcome denv exec) r c of (r, rc) \<Rightarrow> Done (proc, r, rc))"
proof -
  obtain d ending where "exec c = (d, ending)"
    by (cases "exec c")
  with direct_reports [of "denv c" d ending proc _ ops r] assms show ?thesis
    by (auto simp: process_ok_def direct_outcome_def run_reporting_def)
qed

section \<open>Runs of a live process\<close>

lemma alive [simp]:
  "while_alive f (Done (proc, r)) = Done (proc, f r)"
  "ask_alive g (Done (proc, r)) a = (Done (proc, fst (g r a)), snd (g r a))"
  by (simp_all add: while_alive_def ask_alive_def split: prod.split)

text \<open>
  A runner whose step is that of \<open>run_reporting\<close> runs test cases the way the loops do for the reporter alone, and leaves
  the process as it was.
\<close>

definition in_process :: "process \<Rightarrow> 'r \<times> int \<Rightarrow> 'r running \<times> int" where
  "in_process proc x = (Done (proc, fst x), snd x)"

lemma process_simulation:
  assumes "\<And>r c. step (Done (proc, r)) c = in_process proc (run_reporting ops outcome r c)"
  shows "reporter_simulation sops ops (run_reporting ops outcome) (process_ops ops) step
    (\<lambda>r x. x = Done (proc, r)) (\<lambda>_ r x. x = Done (proc, r)) (\<lambda>_ r x. x = Done (proc, r)) (\<lambda>_ r x. x = Done (proc, r))
    (\<lambda>_ r x. x = Done (proc, r))"
  by unfold_locales (simp_all add: process_ops_def same_reply_def same_result_def assms in_process_def)

text \<open>A reporter that never fails to give a reporter.\<close>

definition always_replies :: "('r, 's, 't, 'c) reporter_ops \<Rightarrow> bool" where
  "always_replies ops \<longleftrightarrow>
     (\<forall>r s. snd (report_testsuite ops r s)) \<and> (\<forall>r t. snd (report_test ops r t)) \<and> (\<forall>r c. snd (report_testcase ops r c))"

lemma counting_simulation:
  assumes "always_replies ops"
  shows "reporter_simulation sops recorder_ops (recorder_run (\<lambda>c. snd (outcome c))) ops (run_reporting ops outcome)
    (\<lambda>st r. rec_replies st = []) (\<lambda>_ st r. rec_replies st = []) (\<lambda>_ st r. rec_replies st = []) (\<lambda>_ st r. rec_replies st = [])
    (\<lambda>_ st r. rec_replies st = [])"
  using assms
  by unfold_locales
    (simp_all add: always_replies_def recorder_ops_def recorder_run_def run_reporting_def rec_report_def rec_call_def
      same_reply_def same_result_def)


section \<open>The interface\<close>

definition suite_testcases :: "('s, 't, 'c) suite_ops \<Rightarrow> 's list \<Rightarrow> 'c list" where
  "suite_testcases sops testsuites = concat (map (get_testcases sops) (concat (map (get_tests sops) testsuites)))"

text \<open>What the loops do depends on the step for the test cases they are given only.\<close>

lemma testcases_in_test_cong:
  assumes "\<And>r c. c \<in> set cs \<Longrightarrow> f r c = g r c"
  shows "run_testcases_in_test ops f r cs res = run_testcases_in_test ops g r cs res"
  using assms by (induction cs arbitrary: r res) (simp_all add: Let_def split: prod.split)

lemma tests_in_testsuite_cong:
  assumes "\<And>r c. c \<in> set (concat (map (get_testcases sops) ts)) \<Longrightarrow> f r c = g r c"
  shows "run_tests_in_testsuite sops ops f r ts res = run_tests_in_testsuite sops ops g r ts res"
  using assms
proof (induction ts arbitrary: r res)
  case (Cons t ts)
  have "run_testcases_in_test ops f r' (get_testcases sops t) 0 = run_testcases_in_test ops g r' (get_testcases sops t) 0" for r'
    by (rule testcases_in_test_cong) (use Cons.prems in simp)
  with Cons show ?case
    by (simp add: Let_def split: prod.split)
qed simp

lemma testsuites_cong:
  assumes "\<And>r c. c \<in> set (suite_testcases sops ss) \<Longrightarrow> f r c = g r c"
  shows "runner_run_testsuites sops ops f r ss res = runner_run_testsuites sops ops g r ss res"
  using assms
proof (induction ss arbitrary: r res)
  case (Cons s ss)
  have "run_tests_in_testsuite sops ops f r' (get_tests sops s) 0 = run_tests_in_testsuite sops ops g r' (get_tests sops s) 0" for r'
    by (rule tests_in_testsuite_cong) (use Cons.prems in \<open>simp add: suite_testcases_def\<close>)
  with Cons show ?case
    by (simp add: Let_def suite_testcases_def split: prod.split)
qed simp

lemma tests_loop_cong:
  assumes "\<And>r c. c \<in> set (concat (map (get_testcases sops) ts)) \<Longrightarrow> f r c = g r c"
  shows "run_tests_loop sops ops f r ts res = run_tests_loop sops ops g r ts res"
  using assms
proof (induction "length ts" arbitrary: ts r res rule: less_induct)
  case less
  show ?case
  proof (cases ts)
    case (Cons t ts')
    let ?P = "\<lambda>u. get_testsuite sops u = get_testsuite sops t"
    have sub: "set (t # takeWhile ?P ts') \<subseteq> set ts" "set (dropWhile ?P ts') \<subseteq> set ts"
      by (auto simp: Cons dest: set_takeWhileD set_dropWhileD)
    have "length (dropWhile ?P ts') < length ts"
      using length_dropWhile_le [of ?P ts'] by (simp add: Cons)
    then have "run_tests_loop sops ops f r' (dropWhile ?P ts') res' = run_tests_loop sops ops g r' (dropWhile ?P ts') res'" for r' res'
      by (rule less.hyps) (use less.prems sub(2) in auto)
    moreover have "run_tests_in_testsuite sops ops f r' (t # takeWhile ?P ts') 0 =
        run_tests_in_testsuite sops ops g r' (t # takeWhile ?P ts') 0" for r'
      by (rule tests_in_testsuite_cong) (use less.prems sub(1) in auto)
    ultimately show ?thesis
      unfolding Cons run_tests_loop.simps by (simp only: Let_def)
  qed simp
qed

lemma testcases_loop_cong:
  assumes "\<And>r c. c \<in> set cs \<Longrightarrow> f r c = g r c"
  shows "run_testcases_loop sops ops f r s cs res = run_testcases_loop sops ops g r s cs res"
  using assms
proof (induction "length cs" arbitrary: cs r s res rule: less_induct)
  case less
  show ?case
  proof (cases cs)
    case (Cons c cs')
    let ?P = "\<lambda>d. get_test sops d = get_test sops c"
    have sub: "set (c # takeWhile ?P cs') \<subseteq> set cs" "set (dropWhile ?P cs') \<subseteq> set cs"
      by (auto simp: Cons dest: set_takeWhileD set_dropWhileD)
    have "length (dropWhile ?P cs') < length cs"
      using length_dropWhile_le [of ?P cs'] by (simp add: Cons)
    then have "run_testcases_loop sops ops f r' s' (dropWhile ?P cs') res' =
        run_testcases_loop sops ops g r' s' (dropWhile ?P cs') res'" for r' s' res'
      by (rule less.hyps) (use less.prems sub(2) in auto)
    moreover have "run_testcases_in_test ops f r' (c # takeWhile ?P cs') 0 =
        run_testcases_in_test ops g r' (c # takeWhile ?P cs') 0" for r'
      by (rule testcases_in_test_cong) (use less.prems sub(1) in auto)
    ultimately show ?thesis
      unfolding Cons run_testcases_loop.simps by (simp only: Let_def)
  qed simp
qed

lemma tests_cong:
  assumes "\<And>r c. c \<in> set (concat (map (get_testcases sops) ts)) \<Longrightarrow> f r c = g r c"
  shows "runner_run_tests True sops ops f r ts = runner_run_tests True sops ops g r ts"
proof -
  have "set (group_by_first (get_testsuite sops) ts) = set ts"
    by (metis mset_group_by_first set_mset_mset)
  then show ?thesis
    using tests_loop_cong [of sops "group_by_first (get_testsuite sops) ts" f g] assms
    by (simp add: runner_run_tests_def repartition_tests_eq)
qed

lemma testcases_cong:
  assumes "\<And>r c. c \<in> set cs \<Longrightarrow> f r c = g r c"
  shows "runner_run_testcases True sops ops f r cs = runner_run_testcases True sops ops g r cs"
proof -
  have "set (group_testcases (get_test sops) (get_testsuite sops) cs) = set cs"
    by (metis mset_group_testcases set_mset_mset)
  then have "run_testcases_loop sops ops f r None (group_testcases (get_test sops) (get_testsuite sops) cs) 0 =
      run_testcases_loop sops ops g r None (group_testcases (get_test sops) (get_testsuite sops) cs) 0"
    by (intro testcases_loop_cong assms) simp
  then show ?thesis
    by (simp add: runner_run_testcases_def repartition_testcases_eq)
qed

text \<open>
  A runner keeps its promise for a reporter and a set of test cases when each operation on them runs the loops
  with their outcomes and gives the process back, and when, for a reporter that always replies, it returns the number
  of test cases whose outcome counts.
\<close>

definition runs_as ::
  "('r, 's, 't, 'c) ctest_runner \<Rightarrow> ('s, 't, 'c) suite_ops \<Rightarrow> 'c set \<Rightarrow> ('c \<Rightarrow> ctest_result \<times> int) \<Rightarrow> process
   \<Rightarrow> ('r, 's, 't, 'c) reporter_ops \<Rightarrow> bool" where
  "runs_as runner sops C outcome proc ops \<longleftrightarrow>
     (\<forall>r testsuites. set (suite_testcases sops testsuites) \<subseteq> C \<longrightarrow>
        ctest_runner_run_testsuites runner ops (Done (proc, r)) testsuites =
        in_process proc (runner_run_testsuites sops ops (run_reporting ops outcome) r testsuites 0)) \<and>
     (\<forall>r tests. set (concat (map (get_testcases sops) tests)) \<subseteq> C \<longrightarrow>
        ctest_runner_run_tests runner ops (Done (proc, r)) tests =
        in_process proc (runner_run_tests True sops ops (run_reporting ops outcome) r tests)) \<and>
     (\<forall>r testcases. set testcases \<subseteq> C \<longrightarrow>
        ctest_runner_run_testcases runner ops (Done (proc, r)) testcases =
        in_process proc (runner_run_testcases True sops ops (run_reporting ops outcome) r testcases))"

definition returns_count ::
  "('r, 's, 't, 'c) ctest_runner \<Rightarrow> ('s, 't, 'c) suite_ops \<Rightarrow> 'c set \<Rightarrow> ('c \<Rightarrow> bool) \<Rightarrow> process
   \<Rightarrow> ('r, 's, 't, 'c) reporter_ops \<Rightarrow> bool" where
  "returns_count runner sops C counts proc ops \<longleftrightarrow>
     (let number = (\<lambda>cs. int (length (filter counts cs)))
      in (\<forall>r testsuites. set (suite_testcases sops testsuites) \<subseteq> C \<longrightarrow>
            snd (ctest_runner_run_testsuites runner ops (Done (proc, r)) testsuites) =
            number (suite_testcases sops testsuites)) \<and>
         (\<forall>r tests. set (concat (map (get_testcases sops) tests)) \<subseteq> C \<longrightarrow>
            snd (ctest_runner_run_tests runner ops (Done (proc, r)) tests) =
            number (concat (map (get_testcases sops) tests))) \<and>
         (\<forall>r testcases. set testcases \<subseteq> C \<longrightarrow>
            snd (ctest_runner_run_testcases runner ops (Done (proc, r)) testcases) = number testcases))"

lemma in_process_same: "same_result (\<lambda>r x. x = Done (proc, r)) a b \<Longrightarrow> b = in_process proc a"
  by (cases b) (simp add: same_result_def in_process_def)

lemma failed_count_mset: "mset xs = mset ys \<Longrightarrow> failed_count rcf xs = failed_count rcf ys"
  unfolding failed_count_def by (metis mset_filter size_mset)

lemma mset_concat_map: "mset xs = mset ys \<Longrightarrow> mset (concat (map f xs)) = mset (concat (map f ys))"
  by (metis (no_types) mset_concat mset_map sum_mset_sum_list)

text \<open>What the loops return for outcomes that are no errors.\<close>

lemma loops_count:
  assumes "always_replies ops" and "suite_wf sops" and "\<And>c. 0 \<le> snd (outcome c)"
  shows "snd (runner_run_testsuites sops ops (run_reporting ops outcome) r testsuites 0) =
      failed_count (\<lambda>c. snd (outcome c)) (suite_testcases sops testsuites)" (is ?suites)
    "snd (runner_run_tests True sops ops (run_reporting ops outcome) r tests) =
      failed_count (\<lambda>c. snd (outcome c)) (concat (map (get_testcases sops) tests))" (is ?tests)
    "snd (runner_run_testcases True sops ops (run_reporting ops outcome) r testcases) =
      failed_count (\<lambda>c. snd (outcome c)) testcases" (is ?cases)
proof -
  let ?st = "\<lparr>rec_log = [], rec_replies = []\<rparr>" and ?rcf = "\<lambda>c. snd (outcome c)"
  note sim = counting_simulation [OF assms(1), of sops outcome]
  have no_error: "\<not> any_error ?rcf cs" for cs
    using assms(3) by (auto simp: any_error_def list_ex_iff not_less)
  have start: "rec_replies ?st = []"
    by simp
  show ?suites
    using reporter_simulation.sim_testsuites [OF sim start assms(2), of testsuites 0 r]
      run_tests_recorded [where sops = sops and rcf = ?rcf and tests = "[]" and testsuites = testsuites] no_error
    by (auto simp: same_result_def suite_testcases_def Let_def split: prod.splits)
  have "failed_count ?rcf (concat (map (get_testcases sops) (group_by_first (get_testsuite sops) tests))) =
      failed_count ?rcf (concat (map (get_testcases sops) tests))"
    by (intro failed_count_mset mset_concat_map mset_group_by_first)
  then show ?tests
    using reporter_simulation.sim_tests [OF sim start assms(2), of True tests r]
      run_tests_recorded [where sops = sops and rcf = ?rcf and tests = tests and testsuites = "[]"] no_error
    by (auto simp: same_result_def Let_def split: prod.splits)
  show ?cases
    using reporter_simulation.sim_testcases [OF sim start, of True testcases r]
      run_testcases_recorded [where sops = sops and rcf = ?rcf and testcases = testcases] no_error
    by (auto simp: same_result_def split: prod.splits)
qed

lemma runs_as_counts:
  assumes "runs_as runner sops C outcome proc ops" and "always_replies ops" and "suite_wf sops"
    and "\<And>c. snd (outcome c) = (if counts c then 1 else 0)"
  shows "returns_count runner sops C counts proc ops"
proof -
  have "0 \<le> snd (outcome c)" "0 < snd (outcome c) \<longleftrightarrow> counts c" for c
    by (simp_all add: assms(4))
  then show ?thesis
    using assms(1) loops_count [OF assms(2,3), of outcome]
    by (simp add: runs_as_def returns_count_def in_process_def failed_count_def)
qed

text \<open>A runner made of the loops and a step like that of the outcomes.\<close>

lemma loops_run_as:
  assumes "suite_wf sops"
    and "\<And>r c. c \<in> C \<Longrightarrow> step (Done (proc, r)) c = in_process proc (run_reporting ops outcome r c)"
    and "op_run_testsuites (rn_ops runner) ops = (\<lambda>x ss. runner_run_testsuites sops (process_ops ops) step x ss 0)"
    and "op_run_tests (rn_ops runner) ops = runner_run_tests True sops (process_ops ops) step"
    and "op_run_testcases (rn_ops runner) ops = runner_run_testcases True sops (process_ops ops) step"
  shows "runs_as runner sops C outcome proc ops"
proof -
  define step' where "step' = (\<lambda>x c. if c \<in> C then step x c else
    (case x of Done (p, r) \<Rightarrow> in_process p (run_reporting ops outcome r c) | _ \<Rightarrow> (x, 0)))"
  have same: "step x c = step' x c" if "c \<in> C" for x c
    using that by (simp add: step'_def)
  have "step' (Done (proc, r)) c = in_process proc (run_reporting ops outcome r c)" for r c
    using assms(2) by (simp add: step'_def)
  note sim = process_simulation [where sops = sops, OF this]
  note runs = in_process_same [OF reporter_simulation.sim_testsuites [OF sim refl assms(1)]]
    in_process_same [OF reporter_simulation.sim_tests [OF sim refl assms(1)]]
    in_process_same [OF reporter_simulation.sim_testcases [OF sim refl]]
  have "runner_run_testsuites sops (process_ops ops) step x ss 0 = runner_run_testsuites sops (process_ops ops) step' x ss 0"
    if "set (suite_testcases sops ss) \<subseteq> C" for x ss
    by (rule testsuites_cong) (use that same in blast)
  moreover have "runner_run_tests True sops (process_ops ops) step x ts = runner_run_tests True sops (process_ops ops) step' x ts"
    if "set (concat (map (get_testcases sops) ts)) \<subseteq> C" for x ts
    by (rule tests_cong) (use that same in blast)
  moreover have "runner_run_testcases True sops (process_ops ops) step x cs = runner_run_testcases True sops (process_ops ops) step' x cs"
    if "set cs \<subseteq> C" for x cs
    by (rule testcases_cong) (use that same in blast)
  ultimately show ?thesis
    by (simp add: runs_as_def runs assms(3-5) ctest_runner_run_testsuites_def ctest_runner_run_tests_def
        ctest_runner_run_testcases_def)
qed

text \<open>The system lets the runners work on a set of test cases.\<close>

definition surroundings_ok :: "'c surroundings \<Rightarrow> process \<Rightarrow> 'c set \<Rightarrow> bool" where
  "surroundings_ok su proc C \<longleftrightarrow>
     su_alloc_ok su \<and>
     (\<forall>c \<in> C. forked_ok (su_fork su) (su_child su) (su_parent su) (su_execute su) proc c \<and>
          process_ok (su_direct su) (su_execute su) proc c)"

lemma forking_runs_as:
  assumes "suite_wf sops" and "su_alloc_ok su"
    and "\<And>c. c \<in> C \<Longrightarrow> forked_ok (su_fork su) (su_child su) (su_parent su) (su_execute su) proc c"
    and "ctest_create_forking_runner su sops h = (h', Some runner)"
  shows "runs_as runner sops C (isolated_outcome (su_child su) (su_parent su) (su_execute su)) proc ops"
proof (rule loops_run_as [OF assms(1), where step = "forking_step su ops"])
  fix r c
  assume "c \<in> C"
  from forked_refines [OF assms(3) [OF this], of ops r] show "forking_step su ops (Done (proc, r)) c =
      in_process proc (run_reporting ops (isolated_outcome (su_child su) (su_parent su) (su_execute su)) r c)"
    by (simp add: forking_step_def in_process_def split: prod.split)
qed (use assms(2,4) in \<open>auto simp: ctest_create_forking_runner_def runner_defs fun_eq_iff split: prod.splits option.splits\<close>)

lemma direct_runs_as:
  assumes "suite_wf sops" and "su_alloc_ok su"
    and "\<And>c. c \<in> C \<Longrightarrow> process_ok (su_direct su) (su_execute su) proc c"
    and "ctest_create_direct_runner su sops h = (h', Some runner)"
  shows "runs_as runner sops C (direct_outcome (su_direct su) (su_execute su)) proc ops"
proof (rule loops_run_as [OF assms(1), where step = "direct_step su ops"])
  fix r c
  assume "c \<in> C"
  from direct_refines [OF assms(3) [OF this], of ops r] show "direct_step su ops (Done (proc, r)) c =
      in_process proc (run_reporting ops (direct_outcome (su_direct su) (su_execute su)) r c)"
    by (simp add: direct_step_def in_process_def split: prod.split)
qed (use assms(2,4) in \<open>auto simp: ctest_create_direct_runner_def runner_defs fun_eq_iff split: prod.splits option.splits\<close>)

lemma runners_run_as:
  assumes "suite_wf sops" and "surroundings_ok su proc C"
  shows "ctest_create_forking_runner su sops h = (h', Some runner) \<Longrightarrow>
      runs_as runner sops C (isolated_outcome (su_child su) (su_parent su) (su_execute su)) proc ops"
    "ctest_create_direct_runner su sops h = (h', Some runner) \<Longrightarrow>
      runs_as runner sops C (direct_outcome (su_direct su) (su_execute su)) proc ops"
proof -
  have ok: "su_alloc_ok su" "c \<in> C \<Longrightarrow> forked_ok (su_fork su) (su_child su) (su_parent su) (su_execute su) proc c"
    "c \<in> C \<Longrightarrow> process_ok (su_direct su) (su_execute su) proc c" for c
    using assms(2) by (simp_all add: surroundings_ok_def)
  show "ctest_create_forking_runner su sops h = (h', Some runner) \<Longrightarrow>
      runs_as runner sops C (isolated_outcome (su_child su) (su_parent su) (su_execute su)) proc ops"
    by (rule forking_runs_as [OF assms(1) ok(1,2)])
  show "ctest_create_direct_runner su sops h = (h', Some runner) \<Longrightarrow>
      runs_as runner sops C (direct_outcome (su_direct su) (su_execute su)) proc ops"
    by (rule direct_runs_as [OF assms(1) ok(1,3)])
qed

lemma runners_count:
  assumes "suite_wf sops" and "surroundings_ok su proc C" and "always_replies ops"
  shows "ctest_create_forking_runner su sops h = (h', Some runner) \<Longrightarrow> returns_count runner sops C
      (\<lambda>c. reported_type (su_child su c) (snd (su_execute su c)) = CTEST_RESULT_FAIL) proc ops"
    "ctest_create_direct_runner su sops h = (h', Some runner) \<Longrightarrow>
      returns_count runner sops C (\<lambda>c. snd (su_execute su c) \<noteq> None) proc ops"
  by (rule runs_as_counts [OF runners_run_as(1) [OF assms(1,2)] assms(3,1)],
      assumption, simp add: isolated_outcome_def split: prod.split)
    (rule runs_as_counts [OF runners_run_as(2) [OF assms(1,2)] assms(3,1)],
      assumption, simp add: direct_outcome_def split: prod.split)

text \<open>
  What a client relies on who makes a runner: it takes one block, fails only when there is none, gives the block back when
  it is destroyed, and runs the test cases of a set with these outcomes.
\<close>

definition makes_runner ::
  "(block_heap \<Rightarrow> block_heap \<times> ('r, 's, 't, 'c) ctest_runner option) \<Rightarrow> ('s, 't, 'c) suite_ops \<Rightarrow> 'c set
   \<Rightarrow> ('c \<Rightarrow> ctest_result \<times> int) \<Rightarrow> process \<Rightarrow> ('r, 's, 't, 'c) reporter_ops \<Rightarrow> bool" where
  "makes_runner create sops C outcome proc ops \<longleftrightarrow>
     (\<forall>h. case alloc_block h of
            (h', None) \<Rightarrow> create h = (h', None)
          | (h', Some b) \<Rightarrow> \<exists>runner. create h = (h', Some runner) \<and> rn_block runner = b \<and>
              op_destroy (rn_ops runner) = free_block \<and> runs_as runner sops C outcome proc ops)"

lemma makes_runnerI:
  assumes "\<And>h h'. alloc_block h = (h', None) \<Longrightarrow> create h = (h', None)"
    and "\<And>h h' b. alloc_block h = (h', Some b) \<Longrightarrow> \<exists>runner. create h = (h', Some runner) \<and> rn_block runner = b \<and>
      op_destroy (rn_ops runner) = free_block"
    and "\<And>h h' runner. create h = (h', Some runner) \<Longrightarrow> runs_as runner sops C outcome proc ops"
  shows "makes_runner create sops C outcome proc ops"
  unfolding makes_runner_def using assms by (fastforce split: prod.split option.split)

lemma forking_runner_made:
  assumes "suite_wf sops" and "su_alloc_ok su"
    and "\<And>c. c \<in> C \<Longrightarrow> forked_ok (su_fork su) (su_child su) (su_parent su) (su_execute su) proc c"
  shows "makes_runner (ctest_create_forking_runner su sops) sops C (isolated_outcome (su_child su) (su_parent su) (su_execute su)) proc ops"
  by (rule makes_runnerI)
    (auto simp: ctest_create_forking_runner_def forking_op_destroy_def fun_eq_iff intro: forking_runs_as [OF assms])

lemma direct_runner_made:
  assumes "suite_wf sops" and "su_alloc_ok su"
    and "\<And>c. c \<in> C \<Longrightarrow> process_ok (su_direct su) (su_execute su) proc c"
  shows "makes_runner (ctest_create_direct_runner su sops) sops C (direct_outcome (su_direct su) (su_execute su)) proc ops"
  by (rule makes_runnerI)
    (auto simp: ctest_create_direct_runner_def direct_op_destroy_def fun_eq_iff intro: direct_runs_as [OF assms])

text \<open>Making a runner takes one block, and destroying it gives that back.\<close>

lemma runner_lifecycle:
  assumes "heap_ok h" and "ctest_create_forking_runner su sops h = (h', Some runner) \<or>
    ctest_create_direct_runner su sops h = (h', Some runner)"
  shows "hp_live (ctest_runner_destroy runner h') = hp_live h \<and> hp_bad (ctest_runner_destroy runner h') = hp_bad h"
proof -
  obtain p where "alloc_block h = (h', Some p)" "rn_block runner = p" "op_destroy (rn_ops runner) = free_block"
    using assms(2)
    by (auto simp: ctest_create_forking_runner_def ctest_create_direct_runner_def forking_op_destroy_def direct_op_destroy_def
        fun_eq_iff split: prod.splits option.splits)
  then show ?thesis
    using alloc_grown(1) [of h h' p] assms(1) by (auto simp: ctest_runner_destroy_def grown_def free_block_def heap_ok_def)
qed


end
