(* ===== verification/Loader.thy ===== *)
theory Loader
  imports Heap_Blocks Test_Execution Reporter_Simulation Text_Format
begin

text \<open>
  The rest of \<^verbatim>\<open>src/exec/loader.c\<close>: turning the definitions that a test module exports into a suite with
  its tests and test cases, and releasing it again. The libltdl calls, the symbols of the module and the
  outcomes of allocations are parameters; every block, handle and initialisation is accounted for.
\<close>

section \<open>Definitions\<close>

subsection \<open>What a module exports\<close>

text \<open>
  \<open>dp_to_string\<close> is the text a data provider has for the datum at an address; its callback is used as
  \<^verbatim>\<open>snprintf\<close> is: it returns the length of that text and writes as much of it as fits.
\<close>

record data_provider =
  dp_data :: addr
  dp_count :: nat
  dp_size :: size_t
  dp_to_string :: "addr \<Rightarrow> string"

record test_def =
  td_name :: string
  td_caller :: "addr \<Rightarrow> action list"
  td_fixture_provider :: "fixture_provider option"
  td_data_provider :: "data_provider option"

record suite_def =
  sd_magic :: "32 word"
  sd_version :: "32 word"
  sd_name :: string
  sd_tests :: "test_def list"

definition CTEST_SUITE_MAGIC :: "32 word" where
  "CTEST_SUITE_MAGIC = 0x72db2d"

definition CTEST_SUITE_VERSION :: "32 word" where
  "CTEST_SUITE_VERSION = 0"

definition null_data_provider :: data_provider where
  "null_data_provider = \<lparr>dp_data = NULL, dp_count = 1, dp_size = 0, dp_to_string = (\<lambda>data. [])\<rparr>"

subsection \<open>Test cases\<close>

text \<open>A name has a block of its own unless it is the name of the test definition.\<close>

record testcase =
  tc_block :: nat
  tc_name :: string
  tc_name_block :: "nat option"
  tc_data :: addr

definition data_ptr :: "data_provider \<Rightarrow> nat \<Rightarrow> addr" where
  "data_ptr provider index = dp_data provider + of_nat index * dp_size provider"

text \<open>\<open>junk\<close>: what \<^verbatim>\<open>malloc\<close> leaves in a new block. The result is the buffer.\<close>

definition format_name :: "char \<Rightarrow> string \<Rightarrow> string \<Rightarrow> string" where
  "format_name junk name text =
     (let name_length = length name;
          data_length = length text;
          len = name_length + 1 + data_length + 1 + 1;
          buf = replicate len junk;
          buf = write_at buf 0 name;
          len = len - name_length;
          buf = write_at buf name_length ''['';
          len = len - 1;
          buf = write_at buf (name_length + 1) (take (len - 1) text @ [NUL]);
          buf = write_at buf (name_length + 1 + data_length) '']'';
          buf = write_at buf (name_length + 1 + data_length + 1) [NUL]
      in buf)"

definition testcase_create ::
  "char \<Rightarrow> test_def \<Rightarrow> data_provider \<Rightarrow> nat \<Rightarrow> block_heap \<Rightarrow> block_heap \<times> testcase option" where
  "testcase_create junk def provider index h =
     (let data = data_ptr provider index
      in case alloc_block h of
           (h, None) \<Rightarrow> (h, None)
         | (h, Some result) \<Rightarrow>
             (let text = dp_to_string provider data
              in if length text > 0
                 then case alloc_block h of
                        (h, None) \<Rightarrow> (free_block result h, None)
                      | (h, Some buf) \<Rightarrow>
                          (h, Some \<lparr>tc_block = result, tc_name = takeWhile (\<lambda>c. c \<noteq> NUL) (format_name junk (td_name def) text),
                                    tc_name_block = Some buf, tc_data = data\<rparr>)
                 else (h, Some \<lparr>tc_block = result, tc_name = td_name def, tc_name_block = None, tc_data = data\<rparr>)))"

definition testcase_release :: "testcase \<Rightarrow> block_heap \<Rightarrow> block_heap" where
  "testcase_release testcase h =
     (let h = (case tc_name_block testcase of Some b \<Rightarrow> free_block b h | None \<Rightarrow> h)
      in free_block (tc_block testcase) h)"

subsection \<open>Tests\<close>

record test =
  te_block :: nat
  te_array :: nat
  te_def :: test_def
  te_testcases :: "testcase list"

definition provider_of :: "test_def \<Rightarrow> data_provider" where
  "provider_of def = (case td_data_provider def of Some provider \<Rightarrow> provider | None \<Rightarrow> null_data_provider)"

definition test_create :: "char \<Rightarrow> test_def \<Rightarrow> block_heap \<Rightarrow> block_heap \<times> test option" where
  "test_create junk def h =
     (let provider = provider_of def
      in case alloc_block h of
           (h, None) \<Rightarrow> (h, None)
         | (h, Some result) \<Rightarrow>
             (case alloc_block h of
                (h, None) \<Rightarrow> (free_block result h, None)
              | (h, Some array) \<Rightarrow>
                  (case create_all (testcase_create junk def provider) testcase_release [] [0..<dp_count provider] h of
                     (h, None) \<Rightarrow> (free_block result (free_block array h), None)
                   | (h, Some testcases) \<Rightarrow>
                       (h, Some \<lparr>te_block = result, te_array = array, te_def = def, te_testcases = testcases\<rparr>))))"

definition test_release :: "test \<Rightarrow> block_heap \<Rightarrow> block_heap" where
  "test_release test h =
     (let h = fold testcase_release (te_testcases test) h;
          h = free_block (te_array test) h
      in free_block (te_block test) h)"

subsection \<open>Suites\<close>

record testsuite =
  ts_block :: nat
  ts_array :: "nat option"
  ts_def :: suite_def
  ts_hookable :: bool
  ts_tests :: "test list"

text \<open>The state of libltdl beside the heap: how often it is initialised, live advices and open handles.\<close>

record loader =
  ld_heap :: block_heap
  ld_inits :: nat
  ld_advices :: nat
  ld_handles :: nat
  ld_stderr :: string

record module_env =
  me_dlinit_ok :: bool
  me_advise_ok :: bool
  me_local_ok :: bool
  me_open_ok :: bool
  me_suite :: "suite_def option"
  me_dynamic_ops :: bool
  me_dlerror :: string

definition hex8 :: "32 word \<Rightarrow> string" where
  "hex8 w = (let s = show_base 16 (unat w) in ''0x'' @ replicate (8 - length s) (CHR ''0'') @ s)"

definition complain :: "string \<Rightarrow> loader \<Rightarrow> loader" where
  "complain text ld = ld\<lparr>ld_stderr := ld_stderr ld @ text\<rparr>"

definition dlclose_and_below :: "loader \<Rightarrow> loader" where
  "dlclose_and_below ld = ld\<lparr>ld_handles := ld_handles ld - 1, ld_advices := ld_advices ld - 1, ld_inits := ld_inits ld - 1\<rparr>"

text \<open>
  The part of \<^verbatim>\<open>ctest_load_testsuite\<close> that builds the suite once the module is known to be good. When a
  test cannot be created, the array of tests is not released.
\<close>

definition suite_create :: "char \<Rightarrow> suite_def \<Rightarrow> bool \<Rightarrow> block_heap \<Rightarrow> block_heap \<times> testsuite option" where
  "suite_create junk def hookable h =
     (case alloc_block h of
        (h, None) \<Rightarrow> (h, None)
      | (h, Some result) \<Rightarrow>
          (case (if length (sd_tests def) > 0
                 then (case alloc_block h of (h, None) \<Rightarrow> (h, None) | (h, Some array) \<Rightarrow> (h, Some (Some array)))
                 else (h, Some None)) of
             (h, None) \<Rightarrow> (free_block result h, None)
           | (h, Some array) \<Rightarrow>
               (case create_all (test_create junk) test_release [] (sd_tests def) h of
                  (h, None) \<Rightarrow> (free_block result h, None)
                | (h, Some tests) \<Rightarrow>
                    (h, Some \<lparr>ts_block = result, ts_array = array, ts_def = def, ts_hookable = hookable, ts_tests = tests\<rparr>))))"

definition ctest_load_testsuite :: "char \<Rightarrow> module_env \<Rightarrow> loader \<Rightarrow> loader \<times> testsuite option" where
  "ctest_load_testsuite junk env ld =
     (if \<not> me_dlinit_ok env
      then (complain (''lt_dlinit() failed: '' @ me_dlerror env @ [CHR 0x0A]) ld, None)
      else let ld = ld\<lparr>ld_inits := ld_inits ld + 1\<rparr>
      in if \<not> me_advise_ok env
      then (complain (''lt_dladvise() failed: '' @ me_dlerror env @ [CHR 0x0A]) ld\<lparr>ld_inits := ld_inits ld - 1\<rparr>, None)
      else let ld = ld\<lparr>ld_advices := ld_advices ld + 1\<rparr>
      in if \<not> me_local_ok env
      then (complain (''lt_dladvise_local() failed: '' @ me_dlerror env @ [CHR 0x0A]) ld
              \<lparr>ld_advices := ld_advices ld - 1, ld_inits := ld_inits ld - 1\<rparr>, None)
      else if \<not> me_open_ok env
      then (complain (''lt_dlopen() failed: '' @ me_dlerror env @ [CHR 0x0A]) ld
              \<lparr>ld_advices := ld_advices ld - 1, ld_inits := ld_inits ld - 1\<rparr>, None)
      else let ld = ld\<lparr>ld_handles := ld_handles ld + 1\<rparr>
      in case me_suite env of
           None \<Rightarrow> (dlclose_and_below (complain (''module missing ctest_suite__'' @ [CHR 0x0A]) ld), None)
         | Some def \<Rightarrow>
             if sd_magic def \<noteq> CTEST_SUITE_MAGIC
             then (dlclose_and_below (complain (''module contains bad magic (found:'' @ hex8 (sd_magic def) @
                     '' expecting:'' @ hex8 CTEST_SUITE_MAGIC @ '')'') ld), None)
             else if sd_version def \<noteq> CTEST_SUITE_VERSION
             then (dlclose_and_below (complain (''module contains unknown magic (found:'' @ hex8 (sd_version def) @
                     '' expecting:'' @ hex8 CTEST_SUITE_VERSION @ '')'') ld), None)
             else case suite_create junk def (me_dynamic_ops env) (ld_heap ld) of
                    (h, None) \<Rightarrow> (dlclose_and_below (ld\<lparr>ld_heap := h\<rparr>), None)
                  | (h, Some testsuite) \<Rightarrow> (ld\<lparr>ld_heap := h\<rparr>, Some testsuite))"

definition testsuite_op_destroy :: "testsuite \<Rightarrow> loader \<Rightarrow> loader" where
  "testsuite_op_destroy testsuite ld =
     (let h = fold test_release (ts_tests testsuite) (ld_heap ld);
          h = (case ts_array testsuite of Some array \<Rightarrow> free_block array h | None \<Rightarrow> h);
          h = free_block (ts_block testsuite) h
      in ld\<lparr>ld_heap := h, ld_handles := ld_handles ld - 1, ld_inits := ld_inits ld - 1\<rparr>)"

subsection \<open>Accessors\<close>

text \<open>
  A test carries its suite and a test case its test, as the back pointers do. Objects are told apart by
  their blocks, so that equality of these values is equality of pointers.
\<close>

definition loaded_get_testsuite :: "testsuite \<times> test \<Rightarrow> testsuite" where
  [simp]: "loaded_get_testsuite = fst"

definition loaded_get_test :: "testsuite \<times> test \<times> testcase \<Rightarrow> testsuite \<times> test" where
  [simp]: "loaded_get_test = (\<lambda>(s, t, c). (s, t))"

definition loaded_get_tests :: "testsuite \<Rightarrow> (testsuite \<times> test) list" where
  [simp]: "loaded_get_tests = (\<lambda>s. map (\<lambda>t. (s, t)) (ts_tests s))"

definition loaded_get_testcases :: "testsuite \<times> test \<Rightarrow> (testsuite \<times> test \<times> testcase) list" where
  [simp]: "loaded_get_testcases = (\<lambda>(s, t). map (\<lambda>c. (s, t, c)) (te_testcases t))"

definition loader_suite_ops :: "(testsuite, testsuite \<times> test, testsuite \<times> test \<times> testcase) suite_ops" where
  "loader_suite_ops =
     \<lparr>get_testsuite = loaded_get_testsuite, get_test = loaded_get_test, get_tests = loaded_get_tests,
      get_testcases = loaded_get_testcases\<rparr>"

text \<open>The execution of a loaded test case.\<close>

definition testcase_execute ::
  "bool \<Rightarrow> bool \<Rightarrow> string \<Rightarrow> testsuite \<times> test \<times> testcase \<Rightarrow> dynamic_ops \<times> ending option" where
  "testcase_execute alloc_ok fixture_ok oom c =
     (case c of (s, t, c) \<Rightarrow>
        testcase_op_execute (ts_hookable s) alloc_ok fixture_ok oom (td_fixture_provider (te_def t))
          (td_caller (te_def t) (tc_data c)))"

section \<open>Names\<close>

lemma write_at_append: "write_at (xs @ ys) (length xs) zs = xs @ zs @ drop (length zs) ys"
  by (simp add: write_at_def)

lemma format_name_eq: "format_name junk name text = name @ ''['' @ text @ '']'' @ [NUL]"
proof -
  let ?n = "length name" and ?d = "length text"
  let ?b1 = "write_at (replicate (?n + 1 + ?d + 1 + 1) junk) 0 name"
  have b1: "?b1 = name @ replicate (?d + 3) junk"
  proof -
    have "write_at (replicate k junk) 0 name = name @ replicate (k - ?n) junk" for k by (simp add: write_at_def)
    moreover have "?n + 1 + ?d + 1 + 1 - ?n = ?d + 3" by simp
    ultimately show ?thesis by metis
  qed
  have b2: "write_at ?b1 ?n ''['' = (name @ ''['') @ replicate (?d + 2) junk"
    unfolding b1 using write_at_append [of name "replicate (?d + 3) junk" "''[''"] by (simp add: numeral_3_eq_3)
  have b3: "write_at ((name @ ''['') @ replicate (?d + 2) junk) (?n + 1) (text @ [NUL]) = (name @ ''['' @ text) @ [NUL, junk]"
  proof -
    have "?d + 2 - length (text @ [NUL]) = 1" by simp
    then have "drop (length (text @ [NUL])) (replicate (?d + 2) junk) = [junk]" by (simp only: drop_replicate) simp
    with write_at_append [of "name @ ''[''" "replicate (?d + 2) junk" "text @ [NUL]"] show ?thesis by simp
  qed
  have b4: "write_at ((name @ ''['' @ text) @ [NUL, junk]) (?n + 1 + ?d) '']'' = (name @ ''['' @ text @ '']'') @ [junk]"
    using write_at_append [of "name @ ''['' @ text" "[NUL, junk]" "'']''"] by simp
  have b5: "write_at ((name @ ''['' @ text @ '']'') @ [junk]) (?n + 1 + ?d + 1) [NUL] = name @ ''['' @ text @ '']'' @ [NUL]"
    using write_at_append [of "name @ ''['' @ text @ '']''" "[junk]" "[NUL]"] by simp
  have rest: "take (?n + 1 + ?d + 1 + 1 - ?n - 1 - 1) text = text" by simp
  show ?thesis unfolding format_name_def Let_def by (simp only: rest b2 b3 b4 b5)
qed

text \<open>The name of a test case.\<close>

definition testcase_name :: "test_def \<Rightarrow> data_provider \<Rightarrow> nat \<Rightarrow> string" where
  "testcase_name def provider index =
     (let text = dp_to_string provider (data_ptr provider index)
      in if text = [] then td_name def else td_name def @ ''['' @ text @ '']'')"

definition names_ok :: "test_def \<Rightarrow> bool" where
  "names_ok def \<longleftrightarrow> cstring (td_name def) \<and> (\<forall>data. cstring (dp_to_string (provider_of def) data))"

lemma takeWhile_format_name:
  assumes "cstring name" and "cstring text"
  shows "takeWhile (\<lambda>c. c \<noteq> NUL) (format_name junk name text) = name @ ''['' @ text @ '']''"
proof -
  have "takeWhile (\<lambda>c. c \<noteq> NUL) (xs @ [NUL]) = xs" if "NUL \<notin> set xs" for xs
    using that by (induction xs) auto
  from this [of "name @ ''['' @ text @ '']''"] assms show ?thesis by (simp add: format_name_eq cstring_def)
qed

section \<open>Ownership\<close>

definition testcase_blocks :: "testcase \<Rightarrow> nat list" where
  "testcase_blocks c = (case tc_name_block c of Some b \<Rightarrow> [b] | None \<Rightarrow> []) @ [tc_block c]"

definition testcase_for :: "test_def \<Rightarrow> data_provider \<Rightarrow> nat \<Rightarrow> testcase \<Rightarrow> bool" where
  "testcase_for def provider index c \<longleftrightarrow>
     tc_data c = data_ptr provider index \<and>
     (cstring (td_name def) \<longrightarrow> cstring (dp_to_string provider (data_ptr provider index)) \<longrightarrow>
      tc_name c = testcase_name def provider index)"

lemma testcase_create_grown:
  assumes "heap_ok h" and "testcase_create junk def provider i h = (h', res)"
  shows "case res of
      Some c \<Rightarrow> grown (testcase_blocks c) h h' \<and> testcase_for def provider i c
    | None \<Rightarrow> grown [] h h'"
proof -
  let ?text = "dp_to_string provider (data_ptr provider i)"
  obtain h1 p where a1: "alloc_block h = (h1, p)" by (meson surj_pair)
  obtain h2 q where a2: "alloc_block h1 = (h2, q)" by (meson surj_pair)
  show ?thesis
  proof (cases p)
    case None
    with assms(2) a1 alloc_grown(2) [of h h1] show ?thesis by (auto simp: testcase_create_def)
  next
    case (Some result)
    then have g1: "grown [result] h h1" using a1 alloc_grown(1) by simp
    show ?thesis
    proof (cases "?text = []")
      case True
      with assms(2) a1 Some g1 show ?thesis
        by (auto simp: testcase_create_def testcase_blocks_def testcase_for_def testcase_name_def)
    next
      case False
      show ?thesis
      proof (cases q)
        case None
        then have g2: "grown [result] h h2" using a2 grown_trans [OF g1 alloc_grown(2) [of h1 h2]] by simp
        have "shrunk [result] h2 (free_block result h2)" using g2 by (intro free_shrunk) (simp add: grown_def)
        then have "grown [] h (free_block result h2)" using grown_shrunk [OF assms(1), of "[result]" "[]" h2] g2 by simp
        with False assms(2) a1 a2 Some None show ?thesis by (auto simp: testcase_create_def)
      next
        case (Some buf)
        then have "grown ([result] @ [buf]) h h2" using a2 grown_trans [OF g1 alloc_grown(1)] by simp
        then have "grown [buf, result] h h2" by (auto simp: grown_def)
        with False assms(2) a1 a2 Some \<open>p = Some result\<close> show ?thesis
          by (auto simp: testcase_create_def testcase_blocks_def testcase_for_def testcase_name_def takeWhile_format_name Let_def)
      qed
    qed
  qed
qed

lemma testcase_release_shrunk:
  assumes "set (testcase_blocks c) \<subseteq> hp_live h" and "distinct (testcase_blocks c)"
  shows "shrunk (testcase_blocks c) h (testcase_release c h)"
proof (cases "tc_name_block c")
  case None
  with assms free_shrunk [of "tc_block c" h] show ?thesis by (simp add: testcase_blocks_def testcase_release_def)
next
  case (Some b)
  then have f1: "shrunk [b] h (free_block b h)" using assms(1) by (intro free_shrunk) (simp add: testcase_blocks_def)
  then have "tc_block c \<in> hp_live (free_block b h)" using assms Some by (auto simp: testcase_blocks_def shrunk_def)
  from shrunk_trans [OF f1 free_shrunk [OF this]] Some show ?thesis by (simp add: testcase_blocks_def testcase_release_def)
qed

interpretation tcl: lifecycle "testcase_create junk def provider" testcase_release testcase_blocks "testcase_for def provider"
  for junk :: char and def :: test_def and provider :: data_provider
proof (unfold_locales, goal_cases)
  case (3 h k)
  then obtain h1 p where "alloc_block h = (h1, Some p)" "hp_oks h1 = []" using alloc_total by blast
  moreover then obtain h2 q where "alloc_block h1 = (h2, Some q)" "hp_oks h2 = []" using alloc_total by blast
  ultimately show ?case by (auto simp: testcase_create_def Let_def)
qed (use testcase_create_grown testcase_release_shrunk in fastforce)+

definition test_blocks :: "test \<Rightarrow> nat list" where
  "test_blocks t = concat (map testcase_blocks (te_testcases t)) @ [te_array t, te_block t]"

definition test_for :: "test_def \<Rightarrow> test \<Rightarrow> bool" where
  "test_for def t \<longleftrightarrow> te_def t = def \<and>
     list_all2 (testcase_for def (provider_of def)) [0..<dp_count (provider_of def)] (te_testcases t)"

lemma test_create_grown:
  assumes "heap_ok h" and "test_create junk def h = (h', res)"
  shows "case res of Some t \<Rightarrow> grown (test_blocks t) h h' \<and> test_for def t | None \<Rightarrow> grown [] h h'"
proof -
  obtain h1 p where a1: "alloc_block h = (h1, p)" by (meson surj_pair)
  obtain h2 q where a2: "alloc_block h1 = (h2, q)" by (meson surj_pair)
  obtain h3 cs where a3: "create_all (testcase_create junk def (provider_of def)) testcase_release []
      [0..<dp_count (provider_of def)] h2 = (h3, cs)" by (meson surj_pair)
  show ?thesis
  proof (cases p)
    case None
    with assms(2) a1 alloc_grown(2) [of h h1] show ?thesis by (auto simp: test_create_def Let_def)
  next
    case (Some result)
    then have g1: "grown [result] h h1" using a1 alloc_grown(1) by simp
    show ?thesis
    proof (cases q)
      case None
      then have "grown [result] h h2" using a2 grown_trans [OF g1 alloc_grown(2) [of h1 h2]] by simp
      from free_one [OF assms(1) this] assms(2) a1 a2 Some None show ?thesis
        by (auto simp: test_create_def Let_def)
    next
      case (Some array)
      then have g2: "grown [result, array] h h2" using a2 grown_trans [OF g1 alloc_grown(1)] by fastforce
      have ok: "heap_ok h2" using grown_ok [OF assms(1) g2] .
      from tcl.create_all_outcome [OF ok _ a3] have
        outcome: "case cs of Some xs \<Rightarrow> grown (concat (map testcase_blocks xs)) h2 h3 \<and>
            list_all2 (testcase_for def (provider_of def)) [0..<dp_count (provider_of def)] xs
          | None \<Rightarrow> grown [] h2 h3" by (auto split: option.splits)
      show ?thesis
      proof (cases cs)
        case None
        with outcome grown_trans [OF g2] have "grown [result, array] h h3" by fastforce
        from free_two [OF assms(1) this] assms(2) a1 a2 a3 \<open>p = Some result\<close> \<open>q = Some array\<close> None
        show ?thesis by (auto simp: test_create_def Let_def)
      next
        case (Some xs)
        with outcome grown_trans [OF g2] have "grown ([result, array] @ concat (map testcase_blocks xs)) h h3" by auto
        then have "grown (concat (map testcase_blocks xs) @ [array, result]) h h3"
          by (auto simp: grown_def)
        with outcome assms(2) a1 a2 a3 \<open>p = Some result\<close> \<open>q = Some array\<close> Some show ?thesis
          by (auto simp: test_create_def Let_def test_blocks_def test_for_def)
      qed
    qed
  qed
qed

lemma test_release_shrunk:
  assumes "set (test_blocks t) \<subseteq> hp_live h" and "distinct (test_blocks t)"
  shows "shrunk (test_blocks t) h (test_release t h)"
proof -
  let ?bs = "concat (map testcase_blocks (te_testcases t))"
  let ?h1 = "fold testcase_release (te_testcases t) h"
  have s1: "shrunk ?bs h ?h1"
    using tcl.destroy_all_shrunk [of "te_testcases t" h] assms by (auto simp: test_blocks_def)
  then have "te_array t \<in> hp_live ?h1" using assms by (auto simp: test_blocks_def shrunk_def)
  from free_shrunk [OF this] have s2: "shrunk [te_array t] ?h1 (free_block (te_array t) ?h1)" .
  then have "te_block t \<in> hp_live (free_block (te_array t) ?h1)"
    using assms s1 by (auto simp: test_blocks_def shrunk_def)
  from shrunk_trans [OF shrunk_trans [OF s1 s2] free_shrunk [OF this]] show ?thesis
    by (simp add: test_blocks_def test_release_def)
qed

interpretation tsl: lifecycle "test_create junk" test_release test_blocks test_for for junk :: char
proof (unfold_locales, goal_cases)
  case (3 h def)
  then obtain h1 p where a1: "alloc_block h = (h1, Some p)" "hp_oks h1 = []" using alloc_total by blast
  then obtain h2 q where a2: "alloc_block h1 = (h2, Some q)" "hp_oks h2 = []" using alloc_total by blast
  from tcl.create_all_total [OF a2(2), of junk def "provider_of def" "[]" "[0..<dp_count (provider_of def)]"] a1 a2
  show ?case by (auto simp: test_create_def Let_def)
qed (use test_create_grown test_release_shrunk in fastforce)+

definition suite_blocks :: "testsuite \<Rightarrow> nat list" where
  "suite_blocks s =
     concat (map test_blocks (ts_tests s)) @ (case ts_array s of Some b \<Rightarrow> [b] | None \<Rightarrow> []) @ [ts_block s]"


text \<open>
  The blocks a failed creation of a suite leaves behind: none, or the array of tests when a test could
  not be created.
\<close>

lemma suite_create_grown:
  assumes "heap_ok h" and "suite_create junk def hookable h = (h', res)"
  shows "case res of
      Some s \<Rightarrow> grown (suite_blocks s) h h' \<and> ts_def s = def \<and> ts_hookable s = hookable \<and> list_all2 test_for (sd_tests def) (ts_tests s)
    | None \<Rightarrow> \<exists>leak. grown leak h h' \<and> length leak \<le> 1"
proof -
  let ?array = "\<lambda>h. if length (sd_tests def) > 0
    then (case alloc_block h of (h, None) \<Rightarrow> (h, None) | (h, Some array) \<Rightarrow> (h, Some (Some array))) else (h, Some None)"
  obtain h1 p where a1: "alloc_block h = (h1, p)" by (meson surj_pair)
  obtain h2 q where a2: "?array h1 = (h2, q)" by (meson surj_pair)
  obtain h3 ts where a3: "create_all (test_create junk) test_release [] (sd_tests def) h2 = (h3, ts)" by (meson surj_pair)
  show ?thesis
  proof (cases p)
    case None
    with assms(2) a1 alloc_grown(2) [of h h1] show ?thesis by (auto simp: suite_create_def)
  next
    case (Some result)
    then have g1: "grown [result] h h1" using a1 alloc_grown(1) by simp
    define bs where "bs = (case q of Some (Some b) \<Rightarrow> [b] | _ \<Rightarrow> [])"
    have "grown bs h1 h2" using a2 alloc_grown [of h1] by (auto simp: bs_def split: if_splits option.splits prod.splits)
    with grown_trans [OF g1] have g2: "grown (result # bs) h h2" by fastforce
    have bs: "length bs \<le> 1" by (auto simp: bs_def split: option.split)
    from tsl.create_all_outcome [OF grown_ok [OF assms(1) g2] _ a3] have
      outcome: "case ts of Some xs \<Rightarrow> grown (concat (map test_blocks xs)) h2 h3 \<and> list_all2 test_for (sd_tests def) xs
        | None \<Rightarrow> grown [] h2 h3" by (auto split: option.splits)
    show ?thesis
    proof (cases q)
      case None
      with free_one [OF assms(1) g2] bs assms(2) a1 a2 \<open>p = Some result\<close> show ?thesis
        by (auto simp: suite_create_def)
    next
      case (Some array)
      show ?thesis
      proof (cases ts)
        case None
        with outcome grown_trans [OF g2] have "grown (result # bs) h h3" by fastforce
        from free_one [OF assms(1) this] bs assms(2) a1 a2 a3 \<open>p = Some result\<close> Some None show ?thesis
          by (auto simp: suite_create_def)
      next
        case tests: (Some xs)
        with outcome grown_trans [OF g2] have "grown ((result # bs) @ concat (map test_blocks xs)) h h3" by auto
        then have "grown (concat (map test_blocks xs) @ bs @ [result]) h h3" by (auto simp: grown_def)
        moreover have "bs = (case array of Some b \<Rightarrow> [b] | None \<Rightarrow> [])" using Some by (simp add: bs_def)
        ultimately show ?thesis
          using outcome assms(2) a1 a2 a3 \<open>p = Some result\<close> Some tests
          by (auto simp: suite_create_def suite_blocks_def)
      qed
    qed
  qed
qed

lemma suite_create_total:
  assumes "hp_oks h = []"
  shows "\<exists>h' s. suite_create junk def hookable h = (h', Some s) \<and> hp_oks h' = []"
proof -
  obtain h1 p where a1: "alloc_block h = (h1, Some p)" "hp_oks h1 = []" using alloc_total [OF assms] by blast
  then obtain h2 q where a2: "alloc_block h1 = (h2, Some q)" "hp_oks h2 = []" using alloc_total by blast
  from tsl.create_all_total [OF a2(2), of junk "[]" "sd_tests def"] tsl.create_all_total [OF a1(2), of junk "[]" "sd_tests def"] a1 a2
  show ?thesis by (auto simp: suite_create_def)
qed

lemma suite_destroy_shrunk:
  assumes "set (suite_blocks s) \<subseteq> hp_live (ld_heap ld)" and "distinct (suite_blocks s)"
  shows "shrunk (suite_blocks s) (ld_heap ld) (ld_heap (testsuite_op_destroy s ld))"
proof -
  let ?bs = "concat (map test_blocks (ts_tests s))" and ?as = "case ts_array s of Some b \<Rightarrow> [b] | None \<Rightarrow> []"
  let ?h1 = "fold test_release (ts_tests s) (ld_heap ld)"
  let ?h2 = "case ts_array s of Some array \<Rightarrow> free_block array ?h1 | None \<Rightarrow> ?h1"
  have s1: "shrunk ?bs (ld_heap ld) ?h1"
    using tsl.destroy_all_shrunk [of "ts_tests s" "ld_heap ld"] assms by (auto simp: suite_blocks_def)
  then have "set ?as \<subseteq> hp_live ?h1" using assms by (auto simp: suite_blocks_def shrunk_def split: option.splits)
  then have s2: "shrunk ?as ?h1 ?h2" using free_shrunk by (auto split: option.split)
  with s1 have "ts_block s \<in> hp_live ?h2" using assms by (auto simp: suite_blocks_def shrunk_def)
  from shrunk_trans [OF shrunk_trans [OF s1 s2] free_shrunk [OF this]] show ?thesis
    by (simp add: suite_blocks_def testsuite_op_destroy_def Let_def)
qed


section \<open>Properties\<close>

definition module_ok :: "module_env \<Rightarrow> bool" where
  "module_ok env \<longleftrightarrow>
     me_dlinit_ok env \<and> me_advise_ok env \<and> me_local_ok env \<and> me_open_ok env \<and>
     (case me_suite env of
        None \<Rightarrow> False
      | Some def \<Rightarrow> sd_magic def = CTEST_SUITE_MAGIC \<and> sd_version def = CTEST_SUITE_VERSION)"

lemma load_bad_module:
  "\<not> module_ok env \<Longrightarrow> \<exists>text. ctest_load_testsuite junk env ld = (complain text ld, None)"
  by (cases ld)
    (auto simp: module_ok_def ctest_load_testsuite_def complain_def dlclose_and_below_def Let_def split: option.splits)

lemma load_good_module:
  assumes "module_ok env"
  shows "\<exists>def. me_suite env = Some def \<and> ctest_load_testsuite junk env ld =
    (case suite_create junk def (me_dynamic_ops env) (ld_heap ld) of
       (h, None) \<Rightarrow> (ld\<lparr>ld_heap := h\<rparr>, None)
     | (h, Some s) \<Rightarrow> (ld\<lparr>ld_heap := h, ld_inits := ld_inits ld + 1, ld_advices := ld_advices ld + 1,
                         ld_handles := ld_handles ld + 1\<rparr>, Some s))"
  using assms
  by (cases ld)
    (auto simp: module_ok_def ctest_load_testsuite_def dlclose_and_below_def Let_def split: option.splits prod.splits)

lemma load_outcome:
  assumes "heap_ok (ld_heap ld)" and "ctest_load_testsuite junk env ld = (ld', res)"
  shows "case res of
      Some s \<Rightarrow> module_ok env \<and> me_suite env = Some (ts_def s) \<and> ts_hookable s = me_dynamic_ops env \<and>
        list_all2 test_for (sd_tests (ts_def s)) (ts_tests s) \<and>
        grown (suite_blocks s) (ld_heap ld) (ld_heap ld') \<and>
        ld_inits ld' = ld_inits ld + 1 \<and> ld_advices ld' = ld_advices ld + 1 \<and> ld_handles ld' = ld_handles ld + 1
    | None \<Rightarrow> (\<not> module_ok env \<or> hp_oks (ld_heap ld) \<noteq> []) \<and>
        (\<exists>leak. grown leak (ld_heap ld) (ld_heap ld') \<and> length leak \<le> 1) \<and>
        ld_inits ld' = ld_inits ld \<and> ld_advices ld' = ld_advices ld \<and> ld_handles ld' = ld_handles ld"
proof (cases "module_ok env")
  case False
  with load_bad_module [OF False, of junk ld] assms(2) show ?thesis
    by (auto simp: complain_def intro!: exI [of _ "[]"])
next
  case True
  from load_good_module [OF True, of junk ld] obtain def where def: "me_suite env = Some def" and
    load: "ctest_load_testsuite junk env ld =
    (case suite_create junk def (me_dynamic_ops env) (ld_heap ld) of
       (h, None) \<Rightarrow> (ld\<lparr>ld_heap := h\<rparr>, None)
     | (h, Some s) \<Rightarrow> (ld\<lparr>ld_heap := h, ld_inits := ld_inits ld + 1, ld_advices := ld_advices ld + 1,
                         ld_handles := ld_handles ld + 1\<rparr>, Some s))" by blast
  obtain h s where create: "suite_create junk def (me_dynamic_ops env) (ld_heap ld) = (h, s)" by (meson surj_pair)
  from suite_create_grown [OF assms(1) create] suite_create_total [of "ld_heap ld" junk def "me_dynamic_ops env"]
    create load assms(2) def True
  show ?thesis by (cases s) auto
qed

lemma load_total:
  assumes "module_ok env" and "hp_oks (ld_heap ld) = []"
  shows "\<exists>ld' s. ctest_load_testsuite junk env ld = (ld', Some s) \<and> hp_oks (ld_heap ld') = []"
proof -
  from load_good_module [OF assms(1), of junk ld] obtain def where
    "ctest_load_testsuite junk env ld =
    (case suite_create junk def (me_dynamic_ops env) (ld_heap ld) of
       (h, None) \<Rightarrow> (ld\<lparr>ld_heap := h\<rparr>, None)
     | (h, Some s) \<Rightarrow> (ld\<lparr>ld_heap := h, ld_inits := ld_inits ld + 1, ld_advices := ld_advices ld + 1,
                         ld_handles := ld_handles ld + 1\<rparr>, Some s))" by blast
  with suite_create_total [OF assms(2), of junk def "me_dynamic_ops env"] show ?thesis by auto
qed

lemma suite_wf_loader: "suite_wf loader_suite_ops"
  by (auto simp: suite_wf_def loader_suite_ops_def)

text \<open>
  C13: Loading a module. \<^verbatim>\<open>ctest_load_testsuite\<close> gives a suite only for a module that can be opened and has a
  suite symbol with the right magic and version; the suite then has the exported tests in order, each with
  a test case per datum, and owns exactly the blocks that were allocated. Otherwise it gives NULL, with
  the library initialised as often as before, every handle and advice released and at most one block left
  behind. It fails only for a bad module or for want of memory.
\<close>

theorem load_testsuite_outcome:
  assumes "heap_ok (ld_heap ld)" and "ctest_load_testsuite junk env ld = (ld', res)"
  shows "case res of
      Some s \<Rightarrow> module_ok env \<and> me_suite env = Some (ts_def s) \<and> ts_hookable s = me_dynamic_ops env \<and>
        list_all2 test_for (sd_tests (ts_def s)) (ts_tests s) \<and>
        grown (suite_blocks s) (ld_heap ld) (ld_heap ld') \<and>
        ld_inits ld' = ld_inits ld + 1 \<and> ld_advices ld' = ld_advices ld + 1 \<and> ld_handles ld' = ld_handles ld + 1
    | None \<Rightarrow> (\<not> module_ok env \<or> hp_oks (ld_heap ld) \<noteq> []) \<and>
        (\<exists>leak. grown leak (ld_heap ld) (ld_heap ld') \<and> length leak \<le> 1) \<and>
        ld_inits ld' = ld_inits ld \<and> ld_advices ld' = ld_advices ld \<and> ld_handles ld' = ld_handles ld"
  using assms by (rule load_outcome)

theorem load_testsuite_outcome_witness:
  "\<exists>ld' s. ctest_load_testsuite CHR ''?''
      \<lparr>me_dlinit_ok = True, me_advise_ok = True, me_local_ok = True, me_open_ok = True,
       me_suite = Some \<lparr>sd_magic = 0x72db2d, sd_version = 0, sd_name = ''s'',
         sd_tests = [\<lparr>td_name = ''t'', td_caller = (\<lambda>_. []), td_fixture_provider = None, td_data_provider = None\<rparr>]\<rparr>,
       me_dynamic_ops = True, me_dlerror = []\<rparr>
      \<lparr>ld_heap = \<lparr>hp_next = 0, hp_live = {}, hp_oks = [], hp_bad = False\<rparr>, ld_inits = 0, ld_advices = 0, ld_handles = 0,
       ld_stderr = []\<rparr> = (ld', Some s) \<and> length (ts_tests s) = 1 \<and> ld_handles ld' = 1"
    (is "\<exists>ld' s. ctest_load_testsuite ?junk ?env ?ld = _ \<and> _")
proof -
  obtain ld' res where load: "ctest_load_testsuite ?junk ?env ?ld = (ld', res)" by (meson surj_pair)
  have "heap_ok (ld_heap ?ld)" by (simp add: heap_ok_def)
  note outcome = load_testsuite_outcome [OF this load]
  have "module_ok ?env" by (simp add: module_ok_def CTEST_SUITE_MAGIC_def CTEST_SUITE_VERSION_def)
  with outcome obtain s where s: "res = Some s" by (cases res) auto
  have "length (sd_tests (ts_def s)) = length (ts_tests s)" using outcome s by (auto dest: list_all2_lengthD)
  moreover have "length (sd_tests (the (me_suite ?env))) = 1" by simp
  moreover have "the (me_suite ?env) = ts_def s" using outcome s by (simp only: option.case) auto
  ultimately have "length (ts_tests s) = 1" by metis
  with outcome load s show ?thesis by auto
qed

text \<open>
  The test cases of a loaded test. For every datum of its data provider there is one test case, in order
  and with a pointer to that datum; it is called like the test, followed by the datum's text in
  brackets unless that is empty.
\<close>

lemma load_testcase_names:
  assumes "heap_ok (ld_heap ld)" and "ctest_load_testsuite junk env ld = (ld', Some s)"
    and "list_all names_ok (sd_tests (ts_def s))"
  shows "list_all2 (\<lambda>def t. te_def t = def \<and>
      map tc_name (te_testcases t) = map (testcase_name def (provider_of def)) [0..<dp_count (provider_of def)] \<and>
      map tc_data (te_testcases t) = map (data_ptr (provider_of def)) [0..<dp_count (provider_of def)])
    (sd_tests (ts_def s)) (ts_tests s)"
proof -
  have "list_all2 test_for (sd_tests (ts_def s)) (ts_tests s)" using load_outcome [OF assms(1,2)] by simp
  moreover have "map tc_name cs = map (testcase_name def p) is \<and> map tc_data cs = map (data_ptr p) is"
    if "list_all2 (testcase_for def p) is cs" "names_ok def" "p = provider_of def" for def p "is" cs
    using that by (induction rule: list_all2_induct) (auto simp: testcase_for_def names_ok_def)
  ultimately show ?thesis
    using assms(3) by (fastforce simp: list_all2_conv_all_nth list_all_length test_for_def)
qed

text \<open>
  C14: Destroying a loaded suite gives back everything but one thing: every block that loading allocated is
  released, none twice, the handle is closed and the library left; the advice that was made to open the
  module is never released.
\<close>

theorem load_then_destroy:
  assumes "heap_ok (ld_heap ld)" and "ctest_load_testsuite junk env ld = (ld', Some s)"
  shows "let ld'' = testsuite_op_destroy s ld' in
    hp_live (ld_heap ld'') = hp_live (ld_heap ld) \<and> hp_bad (ld_heap ld'') = hp_bad (ld_heap ld) \<and>
    ld_handles ld'' = ld_handles ld \<and> ld_inits ld'' = ld_inits ld \<and> ld_advices ld'' = ld_advices ld + 1"
proof -
  from load_outcome [OF assms] have g: "grown (suite_blocks s) (ld_heap ld) (ld_heap ld')"
    and counts: "ld_inits ld' = ld_inits ld + 1" "ld_advices ld' = ld_advices ld + 1" "ld_handles ld' = ld_handles ld + 1"
    by simp_all
  from suite_destroy_shrunk [OF grown_live [OF g] grown_distinct [OF g]]
  have "grown [] (ld_heap ld) (ld_heap (testsuite_op_destroy s ld'))"
    by (rule grown_shrunk [OF assms(1), rotated]) (simp add: g)
  with counts show ?thesis by (simp add: grown_def testsuite_op_destroy_def Let_def)
qed

theorem load_then_destroy_witness:
  "\<exists>ld' s. ctest_load_testsuite CHR ''?''
      \<lparr>me_dlinit_ok = True, me_advise_ok = True, me_local_ok = True, me_open_ok = True,
       me_suite = Some \<lparr>sd_magic = 0x72db2d, sd_version = 0, sd_name = ''s'',
         sd_tests = [\<lparr>td_name = ''t'', td_caller = (\<lambda>_. []), td_fixture_provider = None, td_data_provider = None\<rparr>]\<rparr>,
       me_dynamic_ops = True, me_dlerror = []\<rparr>
      \<lparr>ld_heap = \<lparr>hp_next = 0, hp_live = {}, hp_oks = [], hp_bad = False\<rparr>, ld_inits = 0, ld_advices = 0, ld_handles = 0,
       ld_stderr = []\<rparr> = (ld', Some s) \<and>
    hp_live (ld_heap (testsuite_op_destroy s ld')) = {} \<and> ld_advices (testsuite_op_destroy s ld') = 1"
    (is "\<exists>ld' s. ctest_load_testsuite ?junk ?env ?ld = _ \<and> _")
proof -
  obtain ld' res where load: "ctest_load_testsuite ?junk ?env ?ld = (ld', res)" by (meson surj_pair)
  have ok: "heap_ok (ld_heap ?ld)" by (simp add: heap_ok_def)
  have "module_ok ?env" by (simp add: module_ok_def CTEST_SUITE_MAGIC_def CTEST_SUITE_VERSION_def)
  with load_outcome [OF ok load] obtain s where s: "res = Some s" by (cases res) auto
  from load_then_destroy [OF ok load [unfolded s]] load s show ?thesis by (auto simp: Let_def)
qed

text \<open>
  C39: When the suite and its array of tests can be allocated but a test then cannot be created, the array
  is left behind: exactly one block more is live than before.
\<close>

theorem load_leaks_array:
  assumes "heap_ok (ld_heap ld)" and "module_ok env" and "me_suite env = Some def" and "sd_tests def \<noteq> []"
    and "hp_oks (ld_heap ld) = True # True # oks" and "ctest_load_testsuite junk env ld = (ld', None)"
  shows "hp_live (ld_heap ld') = insert (Suc (hp_next (ld_heap ld))) (hp_live (ld_heap ld)) \<and>
    Suc (hp_next (ld_heap ld)) \<notin> hp_live (ld_heap ld)"
proof -
  let ?h = "ld_heap ld" and ?n = "hp_next (ld_heap ld)"
  obtain h1 where a1: "alloc_block ?h = (h1, Some ?n)" "hp_oks h1 = True # oks" "hp_next h1 = Suc ?n"
    using assms(5) by (auto simp: alloc_block_def)
  obtain h2 where a2: "alloc_block h1 = (h2, Some (Suc ?n))" using a1 by (auto simp: alloc_block_def)
  have g2: "grown [?n, Suc ?n] ?h h2" using grown_trans [OF alloc_grown(1) [OF a1(1)] alloc_grown(1) [OF a2]] by simp
  obtain h3 ts where a3: "create_all (test_create junk) test_release [] (sd_tests def) h2 = (h3, ts)" by (meson surj_pair)
  from load_good_module [OF assms(2), of junk ld] assms(3,4,6) a1 a2 a3 have "ts = None" "ld_heap ld' = free_block ?n h3"
    by (auto simp: suite_create_def split: option.splits)
  moreover have "grown [] h2 h3"
    using tsl.create_all_outcome [OF grown_ok [OF assms(1) g2] _ a3] \<open>ts = None\<close> by simp
  ultimately have "grown [Suc ?n] ?h (ld_heap ld')"
    using free_one [OF assms(1), of ?n "[Suc ?n]" h3] grown_trans [OF g2, of "[]" h3] by simp
  moreover have "Suc ?n \<notin> hp_live ?h" using assms(1) unfolding heap_ok_def by fastforce
  ultimately show ?thesis by (simp add: grown_def)
qed

theorem load_leaks_array_witness:
  "\<exists>ld'. ctest_load_testsuite CHR ''?''
      \<lparr>me_dlinit_ok = True, me_advise_ok = True, me_local_ok = True, me_open_ok = True,
       me_suite = Some \<lparr>sd_magic = 0x72db2d, sd_version = 0, sd_name = ''s'',
         sd_tests = [\<lparr>td_name = ''t'', td_caller = (\<lambda>_. []), td_fixture_provider = None, td_data_provider = None\<rparr>]\<rparr>,
       me_dynamic_ops = True, me_dlerror = []\<rparr>
      \<lparr>ld_heap = \<lparr>hp_next = 0, hp_live = {}, hp_oks = [True, True, False], hp_bad = False\<rparr>, ld_inits = 0,
       ld_advices = 0, ld_handles = 0, ld_stderr = []\<rparr> = (ld', None) \<and> hp_live (ld_heap ld') = {1}"
    (is "\<exists>ld'. ctest_load_testsuite ?junk ?env ?ld = _ \<and> _")
proof -
  have ok: "heap_ok (ld_heap ?ld)" by (simp add: heap_ok_def)
  have mod: "module_ok ?env" by (simp add: module_ok_def CTEST_SUITE_MAGIC_def CTEST_SUITE_VERSION_def)
  have "snd (ctest_load_testsuite ?junk ?env ?ld) = None"
    by (simp add: ctest_load_testsuite_def suite_create_def alloc_block_def test_create_def CTEST_SUITE_MAGIC_def
        CTEST_SUITE_VERSION_def)
  then obtain ld' where load: "ctest_load_testsuite ?junk ?env ?ld = (ld', None)"
    by (cases "ctest_load_testsuite ?junk ?env ?ld") auto
  from load_leaks_array [OF ok mod _ _ _ load] load show ?thesis by auto
qed


end
