(* ===== verification/Console_Reporter.thy ===== *)
theory Console_Reporter
  imports Reporter_Simulation Text_Format Descriptors
begin

text \<open>
  \<^verbatim>\<open>src/exec/console_reporter.c\<close>: the reporter that prints the results. Its four objects nest and share
  the stream, so one state holds the stream and the object open at each level. Runs with it are shown to
  follow the recorded runs of \<^verbatim>\<open>Runner_Utils\<close>, from which the text it prints is known.
\<close>

section \<open>Definitions\<close>

abbreviation NL :: char where
  "NL \<equiv> CHR 0x0A"

text \<open>The text a call of \<^verbatim>\<open>wrap_output__\<close> prints: every line behind the prefix.\<close>

function wrap_output :: "string \<Rightarrow> string \<Rightarrow> string" where
  "wrap_output prefix str =
     (if NL \<in> set str
      then prefix @ takeWhile (\<lambda>c. c \<noteq> NL) str @ [NL] @ wrap_output prefix (tl (dropWhile (\<lambda>c. c \<noteq> NL) str))
      else if str \<noteq> [] then prefix @ str @ [NL] else [])"
  by pat_completeness auto
termination
proof (relation "measure (length \<circ> snd)")
  fix str :: string
  assume "NL \<in> set str"
  then have "dropWhile (\<lambda>c. c \<noteq> NL) str \<noteq> []" by (simp add: dropWhile_eq_Nil_conv)
  then show "((prefix, tl (dropWhile (\<lambda>c. c \<noteq> NL) str)), prefix, str) \<in> measure (length \<circ> snd)" for prefix
    using length_dropWhile_le [of "\<lambda>c. c \<noteq> NL" str]
    by (cases "dropWhile (\<lambda>c. c \<noteq> NL) str") auto
qed simp

declare wrap_output.simps [simp del]

subsection \<open>The stream\<close>

datatype access_mode = O_RDONLY | O_RDWR | O_WRONLY | O_OTHER

text \<open>
  What the calls of \<^verbatim>\<open>dup__\<close> give: the descriptor of the stream and the new one (negative on error), its mode
  (\<open>None\<close> when it cannot be told), and whether the last two calls succeed.
\<close>

record dup_env =
  du_fileno :: int
  du_mode :: "access_mode option"
  du_dup :: int
  du_cloexec_ok :: bool
  du_fdopen_ok :: bool

text \<open>The new stream with its mode, and the descriptors that \<^verbatim>\<open>dup__\<close> has opened and left open.\<close>

definition dup_stream :: "dup_env \<Rightarrow> (int \<times> string) option \<times> int list" where
  "dup_stream env =
     (if du_fileno env < 0 then (None, [])
      else case du_mode env of
             None \<Rightarrow> (None, [])
           | Some mode \<Rightarrow>
               if mode = O_OTHER then (None, [])
               else let str_mode = (if mode = O_RDONLY then ''r'' else if mode = O_RDWR then ''r+'' else ''w'');
                        dupfd = du_dup env
                    in if dupfd < 0 then (None, [])
                       else let opened = [dupfd]
                            in if \<not> du_cloexec_ok env then (None, removeAll dupfd opened)
                               else if \<not> du_fdopen_ok env then (None, removeAll dupfd opened)
                               else (Some (dupfd, str_mode), opened))"

subsection \<open>Reporters\<close>

datatype testcase_state =
    CONSOLE_TESTCASE_PENDING
  | CONSOLE_TESTCASE_RUNNING
  | CONSOLE_TESTCASE_COMPLETED

text \<open>
  The text written to the stream so far; the suite, test and test case whose reporters exist; the
  outcomes of the next allocations (all succeed once the list is used up); what \<^verbatim>\<open>ctest_result_destroy\<close> has
  released; and whether a null pointer has been read.
\<close>

record ('s, 't, 'c) console =
  con_out :: string
  con_testsuite :: "'s option"
  con_test :: "'t option"
  con_testcase :: "('c \<times> testcase_state) option"
  con_allocs :: "bool list"
  con_freed :: "heap_object list"
  con_crashed :: bool

record ('s, 'c) name_ops =
  get_testsuite_name :: "'s \<Rightarrow> string"
  get_testcase_name :: "'c \<Rightarrow> string"

definition con_calloc :: "('s, 't, 'c) console \<Rightarrow> ('s, 't, 'c) console \<times> bool" where
  "con_calloc con = (case con_allocs con of [] \<Rightarrow> (con, True) | ok # oks \<Rightarrow> (con\<lparr>con_allocs := oks\<rparr>, ok))"

definition con_print :: "string \<Rightarrow> ('s, 't, 'c) console \<Rightarrow> ('s, 't, 'c) console" where
  "con_print text con = con\<lparr>con_out := con_out con @ text\<rparr>"

text \<open>\<^verbatim>\<open>%s\<close> of a null pointer prints as the C library has it.\<close>

definition show_str :: "string option \<Rightarrow> string" where
  "show_str s = (case s of Some x \<Rightarrow> x | None \<Rightarrow> ''(null)'')"

definition stackframe_text :: "ctest_stackframe \<Rightarrow> string" where
  "stackframe_text frame =
     ''      - '' @ show_ptr (fr_addr frame) @
     (case fr_filename frame of
        None \<Rightarrow> []
      | Some filename \<Rightarrow> '' '' @ filename @
          (if 0 < sint (fr_line frame) then '':'' @ show_int (sint (fr_line frame)) else [])) @ [NL]"

text \<open>\<open>None\<close>: the description is a null pointer, which \<^verbatim>\<open>wrap_output__\<close> reads.\<close>

definition failure_text :: "ctest_failure \<Rightarrow> string option" where
  "failure_text failure =
     (case fl_description failure of
        None \<Rightarrow> None
      | Some description \<Rightarrow> Some (
          (case fl_location failure of
             None \<Rightarrow> []
           | Some loc \<Rightarrow> ''Location: '' @ show_str (loc_filename loc) @ '':'' @ show_int (sint (loc_line loc)) @ [NL]) @
          ''Reason:'' @ [NL] @ wrap_output ''    '' description @
          (case fl_stacktrace failure of
             None \<Rightarrow> []
           | Some stacktrace \<Rightarrow>
               if length (st_frames stacktrace) > 0
               then ''Stacktrace:'' @ [NL] @ concat (map stackframe_text (st_frames stacktrace)) else [])))"

text \<open>The data is printed as a C string, that is, up to its first NUL.\<close>

definition output_text :: "ctest_output \<Rightarrow> string" where
  "output_text out =
     (if out_length out > 0
      then ''Output:'' @ [NL] @ wrap_output ''    '' (takeWhile (\<lambda>c. c \<noteq> NUL) (out_data out)) else [])"

definition console_testcase_start :: "('s, 't, 'c) console \<Rightarrow> ('s, 't, 'c) console" where
  "console_testcase_start con =
     (case con_testcase con of
        Some (testcase, CONSOLE_TESTCASE_PENDING) \<Rightarrow> con\<lparr>con_testcase := Some (testcase, CONSOLE_TESTCASE_RUNNING)\<rparr>
      | _ \<Rightarrow> con)"

text \<open>The word printed for a result, and whether failure and output follow.\<close>

definition result_text :: "ctest_result \<Rightarrow> string \<times> bool" where
  "result_text result =
     (case res_type result of
        CTEST_RESULT_PASS \<Rightarrow> (''OK'' @ [NL], False)
      | CTEST_RESULT_FAIL \<Rightarrow>
          (let stage = (case res_failure result of Some f \<Rightarrow> fl_stage f | None \<Rightarrow> CTEST_STAGE_EXECUTION)
           in (if stage = CTEST_STAGE_SETUP then ''SETUP FAILED'' @ [NL]
               else if stage = CTEST_STAGE_EXECUTION then ''FAILED'' @ [NL]
               else if stage = CTEST_STAGE_TEARDOWN then ''TEARDOWN FAILED'' @ [NL]
               else ''FAILED (unknown stage '' @ show_int (sint stage) @ '')'' @ [NL], True))
      | CTEST_RESULT_SKIPPED \<Rightarrow> (''SKIPPED'' @ [NL], False)
      | CTEST_RESULT_ERROR \<Rightarrow> (''INTERNAL ERROR'' @ [NL], True))"

definition console_testcase_complete ::
  "('s, 't, 'c) suite_ops \<Rightarrow> ('s, 'c) name_ops \<Rightarrow> ('s, 't, 'c) console \<Rightarrow> ctest_result \<Rightarrow> ('s, 't, 'c) console" where
  "console_testcase_complete sops names con result =
     (case con_testcase con of
        Some (testcase, CONSOLE_TESTCASE_RUNNING) \<Rightarrow>
          (let testsuite = get_testsuite sops (get_test sops testcase);
               con = con_print (get_testsuite_name names testsuite @ '':'' @ get_testcase_name names testcase @ '' ... '') con;
               con = con\<lparr>con_testcase := Some (testcase, CONSOLE_TESTCASE_COMPLETED)\<rparr>;
               (word, fail) = result_text result;
               con = con_print word con;
               con = (if \<not> fail then con
                      else let con = (case res_failure result of
                                        None \<Rightarrow> con
                                      | Some failure \<Rightarrow>
                                          (case failure_text failure of
                                             None \<Rightarrow> con\<lparr>con_crashed := True\<rparr>
                                           | Some text \<Rightarrow> con_print text con))
                           in case res_output result of
                                None \<Rightarrow> con
                              | Some out \<Rightarrow> con_print (output_text out) con)
           in con\<lparr>con_freed := con_freed con @ ctest_result_destroy result\<rparr>)
      | _ \<Rightarrow> con)"

definition console_testcase_destroy :: "('s, 't, 'c) console \<Rightarrow> ('s, 't, 'c) console" where
  "console_testcase_destroy con = con\<lparr>con_testcase := None\<rparr>"

text \<open>The \<^verbatim>\<open>report_*\<close> operations: a reporter is created unless its parent does not match.\<close>

definition testcase_reporter_create :: "('s, 't, 'c) console \<Rightarrow> 'c \<Rightarrow> ('s, 't, 'c) console \<times> bool" where
  "testcase_reporter_create con testcase =
     (let (con, ok) = con_calloc con
      in if \<not> ok then (con, False) else (con\<lparr>con_testcase := Some (testcase, CONSOLE_TESTCASE_PENDING)\<rparr>, True))"

definition console_report_testcase ::
  "('s, 't, 'c) suite_ops \<Rightarrow> ('s, 't, 'c) console \<Rightarrow> 'c \<Rightarrow> ('s, 't, 'c) console \<times> bool" where
  "console_report_testcase sops con testcase =
     (if Some (get_test sops testcase) \<noteq> con_test con then (con, False) else testcase_reporter_create con testcase)"

definition console_test_destroy :: "('s, 't, 'c) console \<Rightarrow> ('s, 't, 'c) console" where
  "console_test_destroy con = con\<lparr>con_test := None\<rparr>"

definition test_reporter_create :: "('s, 't, 'c) console \<Rightarrow> 't \<Rightarrow> ('s, 't, 'c) console \<times> bool" where
  "test_reporter_create con test =
     (let (con, ok) = con_calloc con in if \<not> ok then (con, False) else (con\<lparr>con_test := Some test\<rparr>, True))"

definition console_report_test ::
  "('s, 't, 'c) suite_ops \<Rightarrow> ('s, 't, 'c) console \<Rightarrow> 't \<Rightarrow> ('s, 't, 'c) console \<times> bool" where
  "console_report_test sops con test =
     (if Some (get_testsuite sops test) \<noteq> con_testsuite con then (con, False) else test_reporter_create con test)"

definition console_testsuite_destroy :: "('s, 't, 'c) console \<Rightarrow> ('s, 't, 'c) console" where
  "console_testsuite_destroy con = con\<lparr>con_testsuite := None\<rparr>"

definition testsuite_reporter_create :: "('s, 't, 'c) console \<Rightarrow> 's \<Rightarrow> ('s, 't, 'c) console \<times> bool" where
  "testsuite_reporter_create con testsuite =
     (let (con, ok) = con_calloc con
      in if \<not> ok then (con, False) else (con\<lparr>con_testsuite := Some testsuite\<rparr>, True))"

definition console_report_testsuite ::
  "('s, 't, 'c) console \<Rightarrow> 's \<Rightarrow> ('s, 't, 'c) console \<times> bool" where
  "console_report_testsuite con testsuite = testsuite_reporter_create con testsuite"

lemmas reporter_create_defs = testcase_reporter_create_def test_reporter_create_def testsuite_reporter_create_def con_calloc_def

definition console_ops ::
  "('s, 't, 'c) suite_ops \<Rightarrow> ('s, 'c) name_ops \<Rightarrow> (('s, 't, 'c) console, 's, 't, 'c) reporter_ops" where
  "console_ops sops names =
     \<lparr>report_testsuite = console_report_testsuite, testsuite_destroy = console_testsuite_destroy,
      report_test = console_report_test sops, test_destroy = console_test_destroy,
      report_testcase = console_report_testcase sops, testcase_start = console_testcase_start,
      testcase_complete = console_testcase_complete sops names, testcase_destroy = console_testcase_destroy\<rparr>"

text \<open>
  The reporter with the descriptor of its stream, or \<open>None\<close> when it cannot be made; then the descriptors
  left open, and what is written to standard error. \<open>alloc_ok\<close> says whether the reporter can be allocated and
  \<open>allocs\<close> which of the reporters below it.
\<close>

definition ctest_create_console_reporter ::
  "bool \<Rightarrow> dup_env \<Rightarrow> bool list \<Rightarrow> (('s, 't, 'c) console \<times> int) option \<times> int list \<times> string" where
  "ctest_create_console_reporter alloc_ok env allocs =
     (if \<not> alloc_ok then (None, [], [])
      else case dup_stream env of
             (None, opened) \<Rightarrow> (None, opened, ''dup__ failed'' @ [NL])
           | (Some (fd, mode), opened) \<Rightarrow>
               (Some (\<lparr>con_out = [], con_testsuite = None, con_test = None, con_testcase = None,
                       con_allocs = allocs, con_freed = [], con_crashed = False\<rparr>, fd), opened, []))"

text \<open>Destroying the reporter closes its stream.\<close>

definition reporter_op_destroy :: "int \<Rightarrow> fd_table \<Rightarrow> fd_table" where
  "reporter_op_destroy fd fds = sys_close fd fds"

section \<open>Lines\<close>

text \<open>The lines of a text; a newline ends a line, so a final one does not start another.\<close>

fun text_lines :: "string \<Rightarrow> string list" where
  "text_lines [] = []"
| "text_lines (c # cs) =
     (if c = NL then [] # text_lines cs
      else case text_lines cs of [] \<Rightarrow> [[c]] | l # ls \<Rightarrow> (c # l) # ls)"

lemma text_lines_split:
  "NL \<in> set str \<Longrightarrow>
    text_lines str = takeWhile (\<lambda>c. c \<noteq> NL) str # text_lines (tl (dropWhile (\<lambda>c. c \<noteq> NL) str))"
  by (induction str) auto

lemma text_lines_single: "NL \<notin> set str \<Longrightarrow> str \<noteq> [] \<Longrightarrow> text_lines str = [str]"
proof (induction str)
  case (Cons c cs)
  then show ?case by (cases cs) auto
qed simp

lemma wrap_output_eq: "wrap_output prefix str = concat (map (\<lambda>l. prefix @ l @ [NL]) (text_lines str))"
proof (induction prefix str rule: wrap_output.induct)
  case (1 prefix str)
  show ?case
  proof (cases "NL \<in> set str")
    case True
    with 1 show ?thesis by (simp add: wrap_output.simps [of prefix str] text_lines_split)
  next
    case False
    then show ?thesis
      by (cases "str = []") (simp_all add: wrap_output.simps [of prefix str] wrap_output.simps [of prefix "[]"] text_lines_single)
  qed
qed

lemma text_lines_joined:
  "concat (map (\<lambda>l. l @ [NL]) (text_lines str)) = str @ (if str = [] \<or> last str = NL then [] else [NL])"
proof (induction str)
  case (Cons c cs)
  show ?case
  proof (cases "text_lines cs")
    case Nil
    then have "cs = []" by (cases cs) (auto split: if_splits list.splits)
    with Nil show ?thesis by simp
  next
    case (Cons l ls)
    with Cons.IH show ?thesis by (cases "cs = []") auto
  qed
qed simp

section \<open>Runs with the console reporter\<close>

text \<open>What is printed for a test case, and whether printing it reads a null pointer.\<close>

definition testcase_text ::
  "('s, 't, 'c) suite_ops \<Rightarrow> ('s, 'c) name_ops \<Rightarrow> 'c \<Rightarrow> ctest_result \<Rightarrow> string" where
  "testcase_text sops names c result =
     get_testsuite_name names (get_testsuite sops (get_test sops c)) @ '':'' @ get_testcase_name names c @ '' ... '' @
     fst (result_text result) @
     (if snd (result_text result)
      then (case res_failure result of
              None \<Rightarrow> [] | Some failure \<Rightarrow> (case failure_text failure of None \<Rightarrow> [] | Some text \<Rightarrow> text)) @
           (case res_output result of None \<Rightarrow> [] | Some out \<Rightarrow> output_text out)
      else [])"

definition testcase_crashes :: "ctest_result \<Rightarrow> bool" where
  "testcase_crashes result \<longleftrightarrow> snd (result_text result) \<and>
     (case res_failure result of None \<Rightarrow> False | Some failure \<Rightarrow> failure_text failure = None)"

lemma complete_started:
  assumes "con_testcase con = Some (c, CONSOLE_TESTCASE_PENDING)"
  shows "console_testcase_complete sops names (console_testcase_start con) result
    = con\<lparr>con_out := con_out con @ testcase_text sops names c result,
          con_testcase := Some (c, CONSOLE_TESTCASE_COMPLETED),
          con_freed := con_freed con @ ctest_result_destroy result,
          con_crashed := con_crashed con \<or> testcase_crashes result\<rparr>"
  using assms
  by (auto simp: console_testcase_complete_def console_testcase_start_def testcase_text_def testcase_crashes_def
      con_print_def Let_def split: option.split prod.split)

interpretation con: reporter_contract "console_ops sops names" "run_reporting (console_ops sops names) outcome"
  "\<lambda>con. con_testsuite con = None \<and> con_test con = None \<and> con_testcase con = None"
  "\<lambda>con. con_testsuite con \<noteq> None \<and> con_test con = None \<and> con_testcase con = None"
  "\<lambda>con. con_testsuite con \<noteq> None \<and> con_test con \<noteq> None \<and> con_testcase con = None"
  "\<lambda>con. con_testsuite con \<noteq> None \<and> con_test con \<noteq> None \<and> con_testcase con \<noteq> None"
  for sops :: "('s, 't, 'c) suite_ops" and names :: "('s, 'c) name_ops" and outcome :: "'c \<Rightarrow> ctest_result \<times> int"
proof (unfold_locales, goal_cases)
  case (7 r c)
  have "con_testsuite (console_testcase_complete sops names (console_testcase_start r) x) = con_testsuite r \<and>
      con_test (console_testcase_complete sops names (console_testcase_start r) x) = con_test r \<and>
      (con_testcase (console_testcase_complete sops names (console_testcase_start r) x) = None \<longleftrightarrow> con_testcase r = None)" for x
    by (auto simp: console_testcase_complete_def console_testcase_start_def con_print_def Let_def
        split: option.splits prod.splits testcase_state.splits)
  with 7 show ?case by (simp add: run_reporting_def console_ops_def)
qed (auto simp: console_ops_def console_report_testsuite_def console_report_test_def console_report_testcase_def
    console_testsuite_destroy_def console_test_destroy_def console_testcase_destroy_def reporter_create_defs Let_def
    split: list.splits if_splits)


text \<open>
  A console and a recorder that have seen the same calls: the same allocations are left, and the console
  has printed and released what belongs to the recorded test cases.
\<close>

definition console_follows ::
  "('s, 't, 'c) suite_ops \<Rightarrow> ('s, 'c) name_ops \<Rightarrow> ('c \<Rightarrow> ctest_result \<times> int)
   \<Rightarrow> ('s, 't, 'c) console \<Rightarrow> ('s, 't, 'c) recorder \<Rightarrow> bool" where
  "console_follows sops names outcome con st \<longleftrightarrow>
     con_allocs con = rec_replies st \<and>
     con_out con = concat (map (\<lambda>c. testcase_text sops names c (fst (outcome c))) (runs_of (rec_log st))) \<and>
     con_freed con = concat (map (\<lambda>c. ctest_result_destroy (fst (outcome c))) (runs_of (rec_log st))) \<and>
     con_crashed con = list_ex (\<lambda>c. testcase_crashes (fst (outcome c))) (runs_of (rec_log st))"

definition console_level ::
  "('s, 't, 'c) console \<Rightarrow> 's option \<Rightarrow> 't option \<Rightarrow> ('c \<times> testcase_state) option \<Rightarrow> bool" where
  "console_level con s t c \<longleftrightarrow> con_testsuite con = s \<and> con_test con = t \<and> con_testcase con = c"

interpretation csim: reporter_simulation sops "console_ops sops names" "run_reporting (console_ops sops names) outcome"
  recorder_ops "recorder_run (\<lambda>c. snd (outcome c))"
  "\<lambda>con st. console_follows sops names outcome con st \<and> console_level con None None None"
  "\<lambda>s con st. console_follows sops names outcome con st \<and> console_level con (Some s) None None"
  "\<lambda>t con st. console_follows sops names outcome con st \<and> console_level con (Some (get_testsuite sops t)) (Some t) None"
  "\<lambda>c con st. console_follows sops names outcome con st \<and>
     console_level con (Some (get_testsuite sops (get_test sops c))) (Some (get_test sops c)) (Some (c, CONSOLE_TESTCASE_PENDING))"
  "\<lambda>c con st. console_follows sops names outcome con st \<and>
     console_level con (Some (get_testsuite sops (get_test sops c))) (Some (get_test sops c)) (Some (c, CONSOLE_TESTCASE_COMPLETED))"
  for sops :: "('s, 't, 'c) suite_ops" and names :: "('s, 'c) name_ops" and outcome :: "'c \<Rightarrow> ctest_result \<times> int"
proof (unfold_locales, goal_cases)
  case (6 c a b)
  then show ?case
    by (auto simp: run_reporting_def console_ops_def complete_started recorder_run_def console_follows_def console_level_def)
qed (auto simp: console_follows_def console_level_def same_reply_def console_ops_def recorder_ops_def rec_report_def
    console_report_testsuite_def console_report_test_def console_report_testcase_def console_testsuite_destroy_def
    console_test_destroy_def console_testcase_destroy_def reporter_create_defs rec_call_def Let_def split: list.splits)

lemma console_starts:
  assumes "ctest_create_console_reporter True env [] = (Some (con, fd), opened, err)"
  shows "console_follows sops names outcome con \<lparr>rec_log = [], rec_replies = []\<rparr> \<and> console_level con None None None"
  using assms
  by (auto simp: ctest_create_console_reporter_def console_follows_def console_level_def split: prod.splits option.splits)

lemma followed_run:
  assumes "same_result (\<lambda>con st. console_follows sops names outcome con st \<and> console_level con None None None) x (st, rc)"
    and "runs_of (rec_log st) = cs"
  shows "con_out (fst x) = concat (map (\<lambda>c. testcase_text sops names c (fst (outcome c))) cs) \<and>
    con_freed (fst x) = concat (map (\<lambda>c. ctest_result_destroy (fst (outcome c))) cs) \<and>
    con_crashed (fst x) = list_ex (\<lambda>c. testcase_crashes (fst (outcome c))) cs \<and> snd x = rc"
  using assms by (cases x) (auto simp: console_follows_def)

section \<open>Properties\<close>

text \<open>
  A multi-line text is printed line by line: what \<^verbatim>\<open>wrap_output__\<close> prints is each line of the text
  behind the prefix and ended by a newline, whether or not the last line had one; without the prefixes it
  is the text itself.
\<close>

lemma wrap_output_lines:
  "wrap_output prefix str = concat (map (\<lambda>l. prefix @ l @ [NL]) (text_lines str)) \<and>
   wrap_output [] str = str @ (if str = [] \<or> last str = NL then [] else [NL])"
  by (simp add: wrap_output_eq text_lines_joined)

text \<open>
  C18: What a run of test cases prints on the console. With memory available, the text is the report of
  every test case that ran, in the grouped order and nothing else: its suite and name, the word for its
  result and, for a failed one, location, reason, stack trace and output. Every result is released exactly
  once. The run returns the number of test cases whose runner returned a positive value, or -1 if one
  returned a negative value, which ends the run.
\<close>

theorem console_run:
  assumes "ctest_create_console_reporter True env [] = (Some (con, fd), opened, err)"
  shows "case runner_run_testcases True sops (console_ops sops names) (run_reporting (console_ops sops names) outcome) con cs of
    (con', rc) \<Rightarrow>
      let ran = upto_error (\<lambda>c. snd (outcome c)) (group_testcases (get_test sops) (get_testsuite sops) cs)
      in con_out con' = concat (map (\<lambda>c. testcase_text sops names c (fst (outcome c))) ran) \<and>
         con_freed con' = concat (map (\<lambda>c. ctest_result_destroy (fst (outcome c))) ran) \<and>
         rc = (if any_error (\<lambda>c. snd (outcome c)) cs then -1 else failed_count (\<lambda>c. snd (outcome c)) cs)"
proof -
  let ?rcf = "\<lambda>c. snd (outcome c)" and ?st = "\<lparr>rec_log = [], rec_replies = []\<rparr>"
  obtain st rc where run: "runner_run_testcases True sops recorder_ops (recorder_run ?rcf) ?st cs = (st, rc)"
    by (meson surj_pair)
  note rec = run_testcases_recorded [where sops = sops and rcf = ?rcf and testcases = cs]
  from followed_run [OF _ refl, of sops names outcome
      "runner_run_testcases True sops (console_ops sops names) (run_reporting (console_ops sops names) outcome) con cs" st rc]
    csim.sim_testcases [OF console_starts [OF assms, of sops names outcome], of True cs] rec run
  show ?thesis by (auto simp: Let_def split: prod.split)
qed


theorem console_run_witness:
  "\<exists>con. ctest_create_console_reporter True
      \<lparr>du_fileno = 1, du_mode = Some O_WRONLY, du_dup = 5, du_cloexec_ok = True, du_fdopen_ok = True\<rparr> []
      = (Some (con :: (nat, nat, nat) console, 5), [5], []) \<and>
    (case runner_run_testcases True
        \<lparr>get_testsuite = (\<lambda>t. 0), get_test = (\<lambda>c. 0), get_tests = (\<lambda>s. [0]), get_testcases = (\<lambda>t. [1, 2])\<rparr>
        (console_ops \<lparr>get_testsuite = (\<lambda>t. 0), get_test = (\<lambda>c. 0), get_tests = (\<lambda>s. [0]), get_testcases = (\<lambda>t. [1, 2])\<rparr>
          \<lparr>get_testsuite_name = (\<lambda>s. ''s''), get_testcase_name = (\<lambda>c. ''t'')\<rparr>)
        (run_reporting (console_ops
          \<lparr>get_testsuite = (\<lambda>t. 0), get_test = (\<lambda>c. 0), get_tests = (\<lambda>s. [0]), get_testcases = (\<lambda>t. [1, 2])\<rparr>
          \<lparr>get_testsuite_name = (\<lambda>s. ''s''), get_testcase_name = (\<lambda>c. ''t'')\<rparr>)
          (\<lambda>c. (\<lparr>res_type = CTEST_RESULT_PASS, res_output = None, res_failure = None\<rparr>, 0))) con [1] of
      (con', rc) \<Rightarrow> con_out con' = ''s:t ... OK'' @ [NL] \<and> rc = 0)"
proof -
  let ?env = "\<lparr>du_fileno = 1, du_mode = Some O_WRONLY, du_dup = 5, du_cloexec_ok = True, du_fdopen_ok = True\<rparr>"
  let ?sops = "\<lparr>get_testsuite = (\<lambda>t. 0), get_test = (\<lambda>c. 0), get_tests = (\<lambda>s. [0]), get_testcases = (\<lambda>t. [1, 2])\<rparr>
    :: (nat, nat, nat) suite_ops"
  let ?names = "\<lparr>get_testsuite_name = (\<lambda>s. ''s''), get_testcase_name = (\<lambda>c. ''t'')\<rparr> :: (nat, nat) name_ops"
  let ?outcome = "\<lambda>c. (\<lparr>res_type = CTEST_RESULT_PASS, res_output = None, res_failure = None\<rparr>, 0)"
  obtain con :: "(nat, nat, nat) console" where
    con: "ctest_create_console_reporter True ?env [] = (Some (con, 5), [5], [])"
    by (auto simp: ctest_create_console_reporter_def dup_stream_def)
  have "group_testcases (get_test ?sops) (get_testsuite ?sops) [1] = [1]" by code_simp
  with console_run [OF con, where sops = ?sops and names = ?names and outcome = ?outcome and cs = "[1]"] have
    run: "case runner_run_testcases True ?sops (console_ops ?sops ?names) (run_reporting (console_ops ?sops ?names) ?outcome) con [1] of
      (con', rc) \<Rightarrow> con_out con' = ''s:t ... OK'' @ [NL] \<and> rc = 0"
    by (auto simp: testcase_text_def result_text_def any_error_def)
  show ?thesis by (intro exI [of _ con] conjI) (rule con run)+
qed

lemma dup_stream_descriptors:
  "case dup_stream env of
     (None, opened) \<Rightarrow> opened = []
   | (Some (fd, mode), opened) \<Rightarrow> fd = du_dup env \<and> opened = [du_dup env] \<and> 0 \<le> du_dup env \<and>
         (mode = ''r'' \<longleftrightarrow> du_mode env = Some O_RDONLY) \<and> (mode = ''r+'' \<longleftrightarrow> du_mode env = Some O_RDWR) \<and>
         (mode = ''w'' \<longleftrightarrow> du_mode env = Some O_WRONLY)"
  by (cases "du_mode env"; cases "the (du_mode env)") (auto simp: dup_stream_def Let_def)

text \<open>
  The stream the reporter prints to is its own: \<^verbatim>\<open>ctest_create_console_reporter\<close> either gives a reporter
  and one new descriptor, opened in the mode of the standard output and closed when the reporter is
  destroyed, or leaves no descriptor open.
\<close>

lemma console_create_descriptors:
  "case ctest_create_console_reporter alloc_ok env allocs of
     (None, opened, err) \<Rightarrow> opened = []
   | (Some (con, fd), opened, err) \<Rightarrow> fd = du_dup env \<and> opened = [fd] \<and> 0 \<le> fd \<and>
       (\<forall>fds. fds fd = None \<longrightarrow> reporter_op_destroy fd (sys_dup (du_fileno env) fd fds) = fds) \<and>
       (\<exists>mode. dup_stream env = (Some (du_dup env, mode), opened) \<and>
         (mode = ''r'' \<longleftrightarrow> du_mode env = Some O_RDONLY) \<and> (mode = ''r+'' \<longleftrightarrow> du_mode env = Some O_RDWR) \<and>
         (mode = ''w'' \<longleftrightarrow> du_mode env = Some O_WRONLY))"
  using dup_stream_descriptors [of env]
  by (auto simp: ctest_create_console_reporter_def reporter_op_destroy_def fd_ops split: option.splits prod.splits)

text \<open>
  Completing a test case that was not started is ignored, and with it the result: it is neither printed
  nor released, although the caller has handed it over.
\<close>

lemma console_unstarted_leaks:
  assumes "con_testcase con = Some (c, state)" and "state \<noteq> CONSOLE_TESTCASE_RUNNING"
  shows "console_testcase_complete sops names con result = con"
  using assms by (cases state) (simp_all add: console_testcase_complete_def)

end
