(* ===== verification/Cli.thy ===== *)
theory Cli
  imports Loader Console_Reporter Runner
begin

text \<open>
  \<^verbatim>\<open>src/cli/main.c\<close>: the command line program with its commands \<^verbatim>\<open>run\<close> and \<^verbatim>\<open>ls\<close>. The modules named on
  the command line are a parameter, and so are the two functions that make a runner, for which \<open>ctest_exec\<close> has those
  of \<^verbatim>\<open>Runner\<close>; the text written, the exit code, the descriptors and everything that is allocated are modelled.
\<close>

section \<open>Definitions\<close>

definition EX_OK :: int where
  "EX_OK = 0"

definition EX_USAGE :: int where
  "EX_USAGE = 64"

definition EX_UNAVAILABLE :: int where
  "EX_UNAVAILABLE = 69"

definition EX_SOFTWARE :: int where
  "EX_SOFTWARE = 70"

text \<open>
  \<^verbatim>\<open>getopt\<close> with an option string that starts with a plus: the options it gives for the arguments (a
  question mark for an unknown one), and the operands, which start at the first argument that is no option
  or after two dashes. The message that \<^verbatim>\<open>getopt\<close> itself writes for an unknown option is not part of the model.
\<close>

fun getopt_all :: "char list \<Rightarrow> string list \<Rightarrow> char list \<times> string list" where
  "getopt_all known [] = ([], [])"
| "getopt_all known (arg # args) =
     (if arg = ''--'' then ([], args)
      else if length arg > 1 \<and> hd arg = CHR ''-''
      then let (opts, operands) = getopt_all known args
           in (map (\<lambda>c. if c \<in> set known then c else CHR ''?'') (tl arg) @ opts, operands)
      else ([], arg # args))"

definition skip_prefix :: "string \<Rightarrow> string \<Rightarrow> string" where
  "skip_prefix name prefix =
     (if take (length prefix) name = prefix then drop (length prefix) name else name)"

definition cli_testsuite_name :: "testsuite \<Rightarrow> string" where
  "cli_testsuite_name s = skip_prefix (sd_name (ts_def s)) ''testsuite_''"

definition cli_test_name :: "test \<Rightarrow> string" where
  "cli_test_name t = skip_prefix (td_name (te_def t)) ''test_''"

text \<open>
  What the program runs in: the name it was called by, the text of \<open>errno\<close>, what uninitialised bytes hold,
  the modules, how its standard output can be duplicated, and which reporters below the first one can be
  allocated.
\<close>

record cli_env =
  ce_self :: string
  ce_strerror :: string
  ce_junk :: char
  ce_modules :: "string \<Rightarrow> module_env"
  ce_dup :: dup_env
  ce_allocs :: "bool list"

text \<open>The loader with the heap, the process with its descriptors and signals, and what has been written.\<close>

record cli =
  cl_ld :: loader
  cl_proc :: process
  cl_out :: string
  cl_err :: string

definition cli_print :: "string \<Rightarrow> cli \<Rightarrow> cli" where
  "cli_print text cl = cl\<lparr>cl_out := cl_out cl @ text\<rparr>"

definition cli_error :: "string \<Rightarrow> cli \<Rightarrow> cli" where
  "cli_error text cl = cl\<lparr>cl_err := cl_err cl @ text\<rparr>"

definition cli_heap :: "(block_heap \<Rightarrow> block_heap) \<Rightarrow> cli \<Rightarrow> cli" where
  "cli_heap f cl = cl\<lparr>cl_ld := (cl_ld cl)\<lparr>ld_heap := f (ld_heap (cl_ld cl))\<rparr>\<rparr>"

subsection \<open>Loading the suites\<close>

record testsuite_collection =
  co_block :: nat
  co_array :: "nat option"
  co_testsuites :: "testsuite list"

text \<open>The loading loop: the suites, or the ones loaded so far and the file that failed.\<close>

fun load_loop ::
  "char \<Rightarrow> (string \<Rightarrow> module_env) \<Rightarrow> testsuite list \<Rightarrow> string list \<Rightarrow> loader
   \<Rightarrow> loader \<times> (testsuite list \<times> string + testsuite list)" where
  "load_loop junk modules made [] ld = (ld, Inr made)"
| "load_loop junk modules made (arg # args) ld =
     (case ctest_load_testsuite junk (modules arg) ld of
        (ld, None) \<Rightarrow> (ld, Inl (made, arg))
      | (ld, Some s) \<Rightarrow> load_loop junk modules (made @ [s]) args ld)"

definition load_testsuites :: "cli_env \<Rightarrow> string list \<Rightarrow> cli \<Rightarrow> cli \<times> testsuite_collection option" where
  "load_testsuites env args cl =
     (case alloc_block (ld_heap (cl_ld cl)) of
        (h, None) \<Rightarrow>
          (cli_error (ce_self env @ '': error allocating memory for test suite collection: '' @ ce_strerror env @ [NL])
             (cli_heap (\<lambda>_. h) cl), None)
      | (h, Some result) \<Rightarrow>
          (case (if length args > 0
                 then (case alloc_block h of (h, None) \<Rightarrow> (h, None) | (h, Some array) \<Rightarrow> (h, Some (Some array)))
                 else (h, Some None)) of
             (h, None) \<Rightarrow>
               (cli_error (ce_self env @ '': error allocating memory for suites: '' @ ce_strerror env @ [NL])
                  (cli_heap (\<lambda>_. free_block result h) cl), None)
           | (h, Some array) \<Rightarrow>
               (case load_loop (ce_junk env) (ce_modules env) [] args ((cl_ld cl)\<lparr>ld_heap := h\<rparr>) of
                  (ld, Inl (made, arg)) \<Rightarrow>
                    (let ld = fold testsuite_op_destroy made ld;
                         cl = cli_error (ce_self env @ '': error loading suite from '' @ arg @ [NL]) (cl\<lparr>cl_ld := ld\<rparr>);
                         cl = (case array of Some b \<Rightarrow> cli_heap (free_block b) cl | None \<Rightarrow> cl)
                     in (cli_heap (free_block result) cl, None))
                | (ld, Inr testsuites) \<Rightarrow>
                    (cl\<lparr>cl_ld := ld\<rparr>, Some \<lparr>co_block = result, co_array = array, co_testsuites = testsuites\<rparr>))))"

definition destroy_testsuite_collection :: "testsuite_collection \<Rightarrow> cli \<Rightarrow> cli" where
  "destroy_testsuite_collection collection cl =
     (let cl = cl\<lparr>cl_ld := fold testsuite_op_destroy (co_testsuites collection) (cl_ld cl)\<rparr>;
          cl = (case co_array collection of Some b \<Rightarrow> cli_heap (free_block b) cl | None \<Rightarrow> cl)
      in cli_heap (free_block (co_block collection)) cl)"

subsection \<open>The run command\<close>

definition run_usage :: "string \<Rightarrow> string" where
  "run_usage self =
     ''usage: '' @ self @ '' run [-n] suite [suite [...]]'' @ [NL] @
     ''       '' @ self @ '' run -h'' @ [NL]"

definition run_help :: "string \<Rightarrow> string" where
  "run_help self =
     run_usage self @ [NL] @
     ''Summary:'' @ [NL] @
     ''    Run unit tests associated with each unit test suite.'' @ [NL] @ [NL] @
     ''    Where <suite> is the module file containing the suite.'' @ [NL] @ [NL] @
     ''    For a list of available tests within a suite, see the ls command.'' @ [NL] @ [NL] @
     ''Options:'' @ [NL] @
     ''    -n          Do not fork child processes to run the test. This is generally'' @ [NL] @
     ''                much faster, but may result in a failed tests impacting other'' @ [NL] @
     ''                tests. This is useful when running the tests in a debugger or'' @ [NL] @
     ''                memory leak detector.'' @ [NL] @
     ''    -h          Print this help message.'' @ [NL] @ [NL]"

text \<open>The option loop: \<open>Inr\<close> whether tests are isolated, or \<open>Inl\<close> whether help was asked for.\<close>

fun run_options :: "char list \<Rightarrow> bool \<Rightarrow> bool + bool" where
  "run_options [] run_isolated = Inr run_isolated"
| "run_options (c # cs) run_isolated =
     (if c = CHR ''n'' then run_options cs False else Inl (c = CHR ''h''))"

definition loaded_testsuite_name :: "testsuite \<Rightarrow> string" where
  [simp]: "loaded_testsuite_name = (\<lambda>s. sd_name (ts_def s))"

definition loaded_testcase_name :: "testsuite \<times> test \<times> testcase \<Rightarrow> string" where
  [simp]: "loaded_testcase_name = (\<lambda>(s, t, c). tc_name c)"

definition loader_names :: "(testsuite, testsuite \<times> test \<times> testcase) name_ops" where
  "loader_names = \<lparr>get_testsuite_name = loaded_testsuite_name, get_testcase_name = loaded_testcase_name\<rparr>"

text \<open>
  The objects of the run: the reporter with its block, its state and the descriptor of its stream, and the runner.
\<close>

definition create_reporter ::
  "cli_env \<Rightarrow> cli \<Rightarrow> cli \<times> (nat \<times> (testsuite, testsuite \<times> test, testsuite \<times> test \<times> testcase) console \<times> int) option" where
  "create_reporter env cl =
     (case alloc_block (ld_heap (cl_ld cl)) of (h, reporter) \<Rightarrow>
      case ctest_create_console_reporter (reporter \<noteq> None) (ce_dup env) (ce_allocs env) of (made, opened, err) \<Rightarrow>
        (let cl = cli_error err (cli_heap (\<lambda>_. h) cl);
             cl = cl\<lparr>cl_proc := (cl_proc cl)\<lparr>pr_fds := fold (sys_dup (du_fileno (ce_dup env))) opened (pr_fds (cl_proc cl))\<rparr>\<rparr>
         in case (reporter, made) of
              (Some b, Some (con, fd)) \<Rightarrow> (cl, Some (b, con, fd))
            | (Some b, None) \<Rightarrow> (cli_heap (free_block b) cl, None)
            | (None, _) \<Rightarrow> (cl, None)))"

definition destroy_reporter :: "nat \<Rightarrow> int \<Rightarrow> cli \<Rightarrow> cli" where
  "destroy_reporter b fd cl =
     (cli_heap (free_block b) cl)\<lparr>cl_proc := (cl_proc cl)\<lparr>pr_fds := reporter_op_destroy fd (pr_fds (cl_proc cl))\<rparr>\<rparr>"

text \<open>The two functions of the library that make a runner, and the ones there are.\<close>

type_synonym loaded_case = "testsuite \<times> test \<times> testcase"
type_synonym loaded_console = "(testsuite, testsuite \<times> test, loaded_case) console"
type_synonym loaded_runner = "(loaded_console, testsuite, testsuite \<times> test, loaded_case) ctest_runner"

record exec_lib =
  lib_create_forking_runner :: "block_heap \<Rightarrow> block_heap \<times> loaded_runner option"
  lib_create_direct_runner :: "block_heap \<Rightarrow> block_heap \<times> loaded_runner option"

definition ctest_exec :: "loaded_case surroundings \<Rightarrow> exec_lib" where
  "ctest_exec su =
     \<lparr>lib_create_forking_runner = ctest_create_forking_runner su loader_suite_ops,
      lib_create_direct_runner = ctest_create_direct_runner su loader_suite_ops\<rparr>"

definition create_runner :: "exec_lib \<Rightarrow> bool \<Rightarrow> cli \<Rightarrow> cli \<times> loaded_runner option" where
  "create_runner lib run_isolated cl =
     (case (if run_isolated then lib_create_forking_runner lib (ld_heap (cl_ld cl))
            else lib_create_direct_runner lib (ld_heap (cl_ld cl))) of
        (h, runner) \<Rightarrow> (cli_heap (\<lambda>_. h) cl, runner))"

text \<open>The run command; the process may crash or wait for ever while the runner runs.\<close>

definition run_command :: "cli_env \<Rightarrow> exec_lib \<Rightarrow> string list \<Rightarrow> cli \<Rightarrow> (cli \<times> int) run" where
  "run_command env lib argv cl =
     (let (opts, args) = getopt_all ''nh'' (tl argv)
      in case run_options opts True of
           Inl True \<Rightarrow> Done (cli_print (run_help (ce_self env)) cl, EX_OK)
         | Inl False \<Rightarrow> Done (cli_error (run_usage (ce_self env)) cl, EX_USAGE)
         | Inr run_isolated \<Rightarrow>
             (case load_testsuites env args cl of
                (cl, None) \<Rightarrow> Done (cli_error (''Error loading test suites: '' @ ce_strerror env @ [NL]) cl, EX_UNAVAILABLE)
              | (cl, Some collection) \<Rightarrow>
                  (case create_reporter env cl of
                     (cl, None) \<Rightarrow>
                       Done (destroy_testsuite_collection collection
                          (cli_error (''Error creating reporter: '' @ ce_strerror env @ [NL]) cl), EX_UNAVAILABLE)
                   | (cl, Some (reporter, con, fd)) \<Rightarrow>
                       (case create_runner lib run_isolated cl of
                          (cl, None) \<Rightarrow>
                            Done (destroy_testsuite_collection collection (destroy_reporter reporter fd
                               (cli_error (''Error creating runner: '' @ ce_strerror env @ [NL]) cl)), EX_UNAVAILABLE)
                        | (cl, Some runner) \<Rightarrow>
                            (case ctest_runner_run_testsuites runner (console_ops loader_suite_ops loader_names)
                                    (Done (cl_proc cl, con)) (co_testsuites collection) of
                               (Crash, _) \<Rightarrow> Crash
                             | (Waiting, _) \<Rightarrow> Waiting
                             | (Done (proc, con), failure_count) \<Rightarrow>
                                 (let cl = (cli_print (con_out con) cl)\<lparr>cl_proc := proc\<rparr>;
                                      cl = (if failure_count < 0
                                            then cli_error (''Error running testsuite: '' @ ce_strerror env @ [NL]) cl else cl)
                                  in Done (destroy_testsuite_collection collection
                                         (destroy_reporter reporter fd (cli_heap (ctest_runner_destroy runner) cl)),
                                       if failure_count = 0 then EX_OK else EX_UNAVAILABLE)))))))"

subsection \<open>The ls command\<close>

definition ls_usage :: "string \<Rightarrow> string" where
  "ls_usage self =
     ''usage: '' @ self @ '' ls <suite> [<suite> [...]]'' @ [NL] @
     ''       '' @ self @ '' ls -h'' @ [NL]"

definition ls_help :: "string \<Rightarrow> string" where
  "ls_help self =
     ls_usage self @ [NL] @
     ''Summary:'' @ [NL] @
     ''    List suites and the associated tests associated with the supplied specs.'' @ [NL] @ [NL] @
     ''    Where <suite> is the module file containing the suite.'' @ [NL] @ [NL] @
     ''Options:'' @ [NL] @
     ''    -h           Print this help message.'' @ [NL] @ [NL]"

definition ls_text :: "testsuite \<Rightarrow> string" where
  "ls_text s = concat (map (\<lambda>t. cli_testsuite_name s @ '':'' @ cli_test_name t @ [NL]) (ts_tests s))"

definition ls_command :: "cli_env \<Rightarrow> string list \<Rightarrow> cli \<Rightarrow> (cli \<times> int) run" where
  "ls_command env argv cl =
     (let (opts, args) = getopt_all ''h'' (tl argv)
      in case opts of
           c # cs \<Rightarrow> if c = CHR ''h'' then Done (cli_print (ls_help (ce_self env)) cl, 0)
                      else Done (cli_error (ls_usage (ce_self env)) cl, 1)
         | [] \<Rightarrow>
             (case load_testsuites env args cl of
                (cl, None) \<Rightarrow> Done (cli_error (''Error loading test suites: '' @ ce_strerror env @ [NL]) cl, 1)
              | (cl, Some collection) \<Rightarrow>
                  Done (destroy_testsuite_collection collection
                     (cli_print (concat (map ls_text (co_testsuites collection))) cl), 0)))"

subsection \<open>The program\<close>

definition commands :: "(string \<times> string) list" where
  "commands = [(''run'', ''Run unit tests.''), (''ls'', ''List available unit tests.'')]"

definition print_usage :: "string \<Rightarrow> string" where
  "print_usage self =
     ''usage: '' @ self @ '' [options] cmd ...'' @ [NL] @
     ''       '' @ self @ '' cmd -h'' @ [NL] @
     ''       '' @ self @ '' -h'' @ [NL]"

text \<open>\<^verbatim>\<open>%-*s\<close>: at least that many characters, padded on the right.\<close>

definition pad_right :: "nat \<Rightarrow> string \<Rightarrow> string" where
  "pad_right n s = s @ replicate (n - length s) (CHR '' '')"

definition print_help :: "string \<Rightarrow> string" where
  "print_help self =
     (let longest = fold (\<lambda>(name, description) longest. if length name > longest then length name else longest) commands 0;
          longest = ((longest + 4) div 4) * 4;
          longest = (if longest < 8 then 8 else longest)
      in print_usage self @ [NL] @ ''Commands:'' @ [NL] @
         concat (map (\<lambda>(name, description). ''    '' @ pad_right longest name @ description @ [NL]) commands) @ [NL] @
         ''Options:'' @ [NL] @ ''    -h           Print this help message.'' @ [NL] @ [NL])"

definition cli_main :: "cli_env \<Rightarrow> exec_lib \<Rightarrow> string list \<Rightarrow> cli \<Rightarrow> (cli \<times> int) run" where
  "cli_main env lib argv cl =
     (let env = env\<lparr>ce_self := hd argv\<rparr>; (opts, args) = getopt_all ''h'' (tl argv)
      in case opts of
           c # cs \<Rightarrow> if c = CHR ''h'' then Done (cli_print (print_help (ce_self env)) cl, EX_OK)
                      else Done (cli_error (print_usage (ce_self env)) cl, EX_USAGE)
         | [] \<Rightarrow>
             (case args of
                [] \<Rightarrow> run_command env lib [fst (hd commands)] cl
              | cmd # rest \<Rightarrow>
                  if cmd = ''run'' then run_command env lib args cl
                  else if cmd = ''ls'' then ls_command env args cl
                  else Done (cli_error (''unknown command: '' @ cmd @ [NL] @ print_usage (ce_self env)) cl, EX_SOFTWARE)))"

section \<open>Suites of a command line\<close>

definition loaded :: "loader \<Rightarrow> testsuite list \<Rightarrow> loader \<Rightarrow> bool" where
  "loaded ld0 suites ld \<longleftrightarrow>
     grown (concat (map suite_blocks suites)) (ld_heap ld0) (ld_heap ld) \<and>
     ld_inits ld = ld_inits ld0 + length suites \<and> ld_handles ld = ld_handles ld0 + length suites"

definition suite_for :: "module_env \<Rightarrow> testsuite \<Rightarrow> bool" where
  "suite_for env s \<longleftrightarrow> me_suite env = Some (ts_def s) \<and> list_all2 test_for (sd_tests (ts_def s)) (ts_tests s)"

lemma load_loop_total:
  assumes "heap_ok (ld_heap ld0)" and "loaded ld0 made ld" and "hp_oks (ld_heap ld) = []"
    and "list_all (\<lambda>arg. module_ok (modules arg)) args"
  shows "\<exists>ld' suites. load_loop junk modules made args ld = (ld', Inr (made @ suites)) \<and>
    loaded ld0 (made @ suites) ld' \<and> hp_oks (ld_heap ld') = [] \<and> list_all2 (\<lambda>arg. suite_for (modules arg)) args suites"
  using assms(2-4)
proof (induction args arbitrary: made ld)
  case (Cons arg args)
  from load_total [of "modules arg" ld junk] Cons.prems obtain ld1 s where
    s: "ctest_load_testsuite junk (modules arg) ld = (ld1, Some s)" "hp_oks (ld_heap ld1) = []" by auto
  have "heap_ok (ld_heap ld)" using Cons.prems(1) grown_ok [OF assms(1)] by (auto simp: loaded_def)
  from load_outcome [OF this s(1)] have
    out: "suite_for (modules arg) s" "grown (suite_blocks s) (ld_heap ld) (ld_heap ld1)"
      "ld_inits ld1 = ld_inits ld + 1" "ld_handles ld1 = ld_handles ld + 1" by (simp_all add: suite_for_def)
  then have "loaded ld0 (made @ [s]) ld1" using Cons.prems(1) grown_trans by (auto simp: loaded_def)
  from Cons.IH [OF this s(2)] Cons.prems(3) obtain ld' suites where
    "load_loop junk modules (made @ [s]) args ld1 = (ld', Inr ((made @ [s]) @ suites))"
    "loaded ld0 ((made @ [s]) @ suites) ld'" "hp_oks (ld_heap ld') = []"
    "list_all2 (\<lambda>arg. suite_for (modules arg)) args suites" by auto
  with s(1) out(1) show ?case by (intro exI [of _ ld'] exI [of _ "s # suites"]) simp
qed simp

lemma destroy_all_suites:
  assumes "set (concat (map suite_blocks suites)) \<subseteq> hp_live (ld_heap ld)" and "distinct (concat (map suite_blocks suites))"
  shows "shrunk (concat (map suite_blocks suites)) (ld_heap ld) (ld_heap (fold testsuite_op_destroy suites ld)) \<and>
    ld_inits (fold testsuite_op_destroy suites ld) = ld_inits ld - length suites \<and>
    ld_handles (fold testsuite_op_destroy suites ld) = ld_handles ld - length suites"
  using assms
proof (induction suites arbitrary: ld)
  case (Cons s suites)
  let ?ld = "testsuite_op_destroy s ld"
  have first: "shrunk (suite_blocks s) (ld_heap ld) (ld_heap ?ld)"
    using Cons.prems by (intro suite_destroy_shrunk) auto
  moreover from this Cons.prems have "set (concat (map suite_blocks suites)) \<subseteq> hp_live (ld_heap ?ld)"
    by (auto simp: shrunk_def)
  moreover have "ld_inits ?ld = ld_inits ld - 1" "ld_handles ?ld = ld_handles ld - 1"
    by (simp_all add: testsuite_op_destroy_def Let_def)
  ultimately show ?case using Cons.IH [of ?ld] Cons.prems by (auto intro: shrunk_trans)
qed simp

text \<open>What the program gives back at its end.\<close>

definition gives_back :: "cli \<Rightarrow> cli \<Rightarrow> bool" where
  "gives_back cl cl' \<longleftrightarrow>
     cl_proc cl' = cl_proc cl \<and> hp_live (ld_heap (cl_ld cl')) = hp_live (ld_heap (cl_ld cl)) \<and> hp_bad (ld_heap (cl_ld cl')) = hp_bad (ld_heap (cl_ld cl)) \<and>
     ld_inits (cl_ld cl') = ld_inits (cl_ld cl) \<and> ld_handles (cl_ld cl') = ld_handles (cl_ld cl)"

text \<open>A collection that was loaded by \<open>cl\<close> and is still whole.\<close>

definition collected :: "cli \<Rightarrow> testsuite_collection \<Rightarrow> cli \<Rightarrow> bool" where
  "collected cl collection cl' \<longleftrightarrow> cl_proc cl' = cl_proc cl \<and>
     grown (co_block collection # (case co_array collection of Some b \<Rightarrow> [b] | None \<Rightarrow> []) @
       concat (map suite_blocks (co_testsuites collection))) (ld_heap (cl_ld cl)) (ld_heap (cl_ld cl')) \<and>
     ld_inits (cl_ld cl') = ld_inits (cl_ld cl) + length (co_testsuites collection) \<and>
     ld_handles (cl_ld cl') = ld_handles (cl_ld cl) + length (co_testsuites collection)"

lemma collected_text [simp]:
  "collected cl collection (cli_print text cl') = collected cl collection cl'"
  "collected cl collection (cli_error text cl') = collected cl collection cl'"
  by (simp_all add: collected_def cli_print_def cli_error_def)

lemma load_testsuites_total:
  assumes "heap_ok (ld_heap (cl_ld cl))" and "hp_oks (ld_heap (cl_ld cl)) = []"
    and "list_all (\<lambda>arg. module_ok (ce_modules env arg)) args"
  shows "\<exists>cl' collection. load_testsuites env args cl = (cl', Some collection) \<and> collected cl collection cl' \<and>
    list_all2 (\<lambda>arg. suite_for (ce_modules env arg)) args (co_testsuites collection) \<and>
    cl_out cl' = cl_out cl \<and> cl_err cl' = cl_err cl \<and> hp_oks (ld_heap (cl_ld cl')) = []"
proof -
  let ?h = "ld_heap (cl_ld cl)"
  obtain h1 p where a1: "alloc_block ?h = (h1, Some p)" "hp_oks h1 = []" using alloc_total [OF assms(2)] by blast
  obtain h2 q where a2: "alloc_block h1 = (h2, Some q)" "hp_oks h2 = []" using alloc_total [OF a1(2)] by blast
  define h3 array where "h3 = (if args = [] then h1 else h2)" and "array = (if args = [] then None else Some q)"
  let ?as = "case array of Some b \<Rightarrow> [b] | None \<Rightarrow> []" and ?ld = "(cl_ld cl)\<lparr>ld_heap := h3\<rparr>"
  have g1: "grown [p] ?h h1" using alloc_grown(1) [OF a1(1)] .
  then have g: "grown (p # ?as) ?h h3"
    using grown_trans [OF g1 alloc_grown(1) [OF a2(1)]] by (auto simp: h3_def array_def)
  have ok: "heap_ok (ld_heap ?ld)" using grown_ok [OF assms(1) g] by simp
  have oks: "hp_oks (ld_heap ?ld) = []" using a1 a2 by (simp add: h3_def)
  have "loaded ?ld [] ?ld" by (simp add: loaded_def)
  from load_loop_total [OF ok this oks assms(3), of "ce_junk env"] obtain ld' suites where
    l: "load_loop (ce_junk env) (ce_modules env) [] args ?ld = (ld', Inr suites)" "loaded ?ld suites ld'"
       "list_all2 (\<lambda>arg. suite_for (ce_modules env arg)) args suites" "hp_oks (ld_heap ld') = []" by auto
  let ?co = "\<lparr>co_block = p, co_array = array, co_testsuites = suites\<rparr>"
  have "collected cl ?co (cl\<lparr>cl_ld := ld'\<rparr>)"
    using l(2) grown_trans [OF g, of "concat (map suite_blocks suites)"] by (auto simp: collected_def loaded_def)
  moreover have "load_testsuites env args cl = (cl\<lparr>cl_ld := ld'\<rparr>, Some ?co)"
    using a1 a2 l(1) by (auto simp: load_testsuites_def h3_def array_def)
  ultimately show ?thesis using l(3,4) by auto
qed

text \<open>The process while the runner works: the reporter has a descriptor of its own.\<close>

definition reporting_process :: "cli_env \<Rightarrow> cli \<Rightarrow> process" where
  "reporting_process env cl =
     (cl_proc cl)\<lparr>pr_fds := sys_dup (du_fileno (ce_dup env)) (du_dup (ce_dup env)) (pr_fds (cl_proc cl))\<rparr>"

definition runner_maker :: "exec_lib \<Rightarrow> bool \<Rightarrow> block_heap \<Rightarrow> block_heap \<times> loaded_runner option" where
  "runner_maker lib isolated = (if isolated then lib_create_forking_runner lib else lib_create_direct_runner lib)"

lemma create_objects:
  assumes "hp_oks (ld_heap (cl_ld cl)) = []" and "dup_stream (ce_dup env) = (Some (fd, mode), opened)" and "ce_allocs env = []"
    and "makes_runner (runner_maker lib isolated) loader_suite_ops C outcome (reporting_process env cl) ops"
  shows "\<exists>cl1 h reporter con runner.
    create_reporter env cl = (cl1, Some (reporter, con, fd)) \<and>
    create_runner lib isolated cl1 =
      (cl\<lparr>cl_ld := (cl_ld cl)\<lparr>ld_heap := h\<rparr>, cl_proc := reporting_process env cl\<rparr>, Some runner) \<and>
    ctest_create_console_reporter True (ce_dup env) [] = (Some (con, fd), opened, []) \<and>
    grown [reporter, rn_block runner] (ld_heap (cl_ld cl)) h \<and> op_destroy (rn_ops runner) = free_block \<and>
    runs_as runner loader_suite_ops C outcome (reporting_process env cl) ops"
proof -
  obtain h1 p where a1: "alloc_block (ld_heap (cl_ld cl)) = (h1, Some p)" "hp_oks h1 = []" using alloc_total [OF assms(1)] by blast
  obtain h2 q where a2: "alloc_block h1 = (h2, Some q)" using alloc_total [OF a1(2)] by blast
  from assms(4) [unfolded makes_runner_def, THEN spec [of _ h1]] a2 obtain runner where
    r: "runner_maker lib isolated h1 = (h2, Some runner)" "rn_block runner = q" "op_destroy (rn_ops runner) = free_block"
       "runs_as runner loader_suite_ops C outcome (reporting_process env cl) ops"
    by auto
  have opened: "opened = [du_dup (ce_dup env)]" "fd = du_dup (ce_dup env)"
    using dup_stream_descriptors [of "ce_dup env"] assms(2) by simp_all
  from grown_trans [OF alloc_grown(1) [OF a1(1)] alloc_grown(1) [OF a2]] a1 r assms(2,3) opened show ?thesis
    by (cases cl) (auto simp: create_reporter_def create_runner_def runner_maker_def reporting_process_def
        ctest_create_console_reporter_def cli_heap_def cli_error_def Let_def)
qed

lemma destroy_objects:
  assumes "heap_ok (ld_heap (cl_ld cl0))" and "collected cl0 collection cl"
    and "grown [reporter, rn_block runner] (ld_heap (cl_ld cl)) h" and "op_destroy (rn_ops runner) = free_block"
    and "pr_fds (cl_proc cl0) (du_dup (ce_dup env)) = None" and "0 \<le> du_dup (ce_dup env)"
    and "cl_ld cl' = (cl_ld cl)\<lparr>ld_heap := h\<rparr>" and "cl_proc cl' = reporting_process env cl"
  shows "collected cl0 collection
    (destroy_reporter reporter (du_dup (ce_dup env)) (cli_heap (ctest_runner_destroy (runner :: loaded_runner)) cl'))"
proof -
  let ?bs = "co_block collection # (case co_array collection of Some b \<Rightarrow> [b] | None \<Rightarrow> []) @
      concat (map suite_blocks (co_testsuites collection))" and ?b = "rn_block runner"
  have c: "grown ?bs (ld_heap (cl_ld cl0)) (ld_heap (cl_ld cl))" "cl_proc cl = cl_proc cl0" using assms(2) by (simp_all add: collected_def)
  have "grown (?bs @ [reporter, ?b]) (ld_heap (cl_ld cl0)) h" by (rule grown_trans [OF c(1) assms(3)])
  then have "grown (?b # reporter # ?bs) (ld_heap (cl_ld cl0)) h" by (rule grown_perm) (use grown_distinct [OF grown_trans [OF c(1) assms(3)]] in auto)
  from free_one [OF assms(1) free_one [OF assms(1) this]]
  have "grown ?bs (ld_heap (cl_ld cl0)) (free_block reporter (free_block ?b h))" .
  moreover have "reporter_op_destroy (du_dup (ce_dup env)) (sys_dup (du_fileno (ce_dup env)) (du_dup (ce_dup env)) (pr_fds (cl_proc cl0)))
      = pr_fds (cl_proc cl0)"
    using assms(5,6) by (auto simp: reporter_op_destroy_def fd_ops)
  ultimately show ?thesis
    using assms(2,4,7,8) c(2)
    by (simp add: collected_def destroy_reporter_def ctest_runner_destroy_def cli_heap_def reporting_process_def)
qed

lemma destroy_collection:
  assumes "heap_ok (ld_heap (cl_ld cl))" and "collected cl collection cl'"
  shows "gives_back cl (destroy_testsuite_collection collection cl') \<and>
    cl_out (destroy_testsuite_collection collection cl') = cl_out cl' \<and>
    cl_err (destroy_testsuite_collection collection cl') = cl_err cl'"
proof -
  let ?bs = "concat (map suite_blocks (co_testsuites collection))"
  let ?as = "case co_array collection of Some b \<Rightarrow> [b] | None \<Rightarrow> []" and ?p = "co_block collection"
  let ?ld = "fold testsuite_op_destroy (co_testsuites collection) (cl_ld cl')"
  let ?h = "case co_array collection of Some b \<Rightarrow> free_block b (ld_heap ?ld) | None \<Rightarrow> ld_heap ?ld"
  have g: "grown (?p # ?as @ ?bs) (ld_heap (cl_ld cl)) (ld_heap (cl_ld cl'))" using assms(2) by (simp add: collected_def)
  have "set ?bs \<subseteq> hp_live (ld_heap (cl_ld cl'))" "distinct ?bs"
    using grown_live [OF g] grown_distinct [OF g] by auto
  note d = destroy_all_suites [OF this]
  then have s1: "shrunk ?bs (ld_heap (cl_ld cl')) (ld_heap ?ld)" by simp
  then have "set ?as \<subseteq> hp_live (ld_heap ?ld)"
    using g by (auto simp: grown_def shrunk_def split: option.splits)
  then have s2: "shrunk ?as (ld_heap ?ld) ?h" using free_shrunk by (auto split: option.split)
  with s1 have "?p \<in> hp_live ?h" using g by (auto simp: grown_def shrunk_def)
  from shrunk_trans [OF shrunk_trans [OF s1 s2] free_shrunk [OF this]]
  have "grown [] (ld_heap (cl_ld cl)) (free_block ?p ?h)"
    by (rule grown_shrunk [OF assms(1), rotated]) (use g in \<open>auto simp: grown_def\<close>)
  with d assms(2) show ?thesis
    by (auto simp: gives_back_def grown_def destroy_testsuite_collection_def cli_heap_def collected_def Let_def split: option.split)
qed


lemma main_run: "cli_main env lib (self # ''run'' # argv) cl
    = run_command (env\<lparr>ce_self := self\<rparr>) lib (''run'' # argv) cl"
  and main_ls: "cli_main env lib (self # ''ls'' # argv) cl
    = ls_command (env\<lparr>ce_self := self\<rparr>) (''ls'' # argv) cl"
  by (simp_all add: cli_main_def)

section \<open>Properties\<close>

definition testcases_of :: "testsuite list \<Rightarrow> (testsuite \<times> test \<times> testcase) list" where
  "testcases_of suites =
     concat (map (\<lambda>s. concat (map (\<lambda>t. map (\<lambda>c. (s, t, c)) (te_testcases t)) (ts_tests s))) suites)"

lemma testcases_of_ops:
  "testcases_of suites = concat (map (get_testcases loader_suite_ops) (concat (map (get_tests loader_suite_ops) suites)))"
  by (induction suites) (simp_all add: testcases_of_def loader_suite_ops_def comp_def)

lemma runs_loaded:
  assumes "runs_as runner loader_suite_ops (set (testcases_of suites)) outcome proc ops"
  shows "ctest_runner_run_testsuites runner ops (Done (proc, r)) suites =
    in_process proc (runner_run_testsuites loader_suite_ops ops (run_reporting ops outcome) r suites 0)"
  using assms by (simp add: runs_as_def suite_testcases_def testcases_of_ops)

text \<open>What a console that runs the loops with these outcomes has printed, and what the loops return.\<close>

lemma console_printed:
  assumes "ctest_create_console_reporter True env [] = (Some (con, fd), opened, [])"
    and "runner_run_testsuites loader_suite_ops (console_ops loader_suite_ops loader_names)
      (run_reporting (console_ops loader_suite_ops loader_names) outcome) con suites 0 = (con', rc)"
  shows "con_out con' = concat (map (\<lambda>c. testcase_text loader_suite_ops loader_names c (fst (outcome c)))
      (upto_error (\<lambda>c. snd (outcome c)) (testcases_of suites)))"
    and "rc = 0 \<longleftrightarrow> \<not> list_ex (\<lambda>c. snd (outcome c) \<noteq> 0) (testcases_of suites)"
proof -
  let ?rcf = "\<lambda>c. snd (outcome c)" and ?st = "\<lparr>rec_log = [], rec_replies = []\<rparr>" and ?cs = "testcases_of suites"
  obtain st rc' where rec: "runner_run_testsuites loader_suite_ops recorder_ops (recorder_run ?rcf) ?st suites 0 = (st, rc')"
    by (meson surj_pair)
  have recorded: "runs_of (rec_log st) = upto_error ?rcf ?cs" "rc' = (if any_error ?rcf ?cs then -1 else failed_count ?rcf ?cs)"
    using run_tests_recorded [where sops = loader_suite_ops and rcf = ?rcf and testsuites = suites] rec
    by (simp_all add: testcases_of_ops Let_def)
  have "same_result (\<lambda>con st. console_follows loader_suite_ops loader_names outcome con st \<and>
      console_level con None None None) (con', rc) (st, rc')"
    unfolding assms(2) [symmetric] rec [symmetric]
    by (rule csim.sim_testsuites [OF console_starts [OF assms(1)] suite_wf_loader])
  note followed = followed_run [OF this recorded(1)]
  then show "con_out con' = concat (map (\<lambda>c. testcase_text loader_suite_ops loader_names c (fst (outcome c))) (upto_error ?rcf ?cs))"
    by simp
  have "failed_count ?rcf ?cs = 0 \<longleftrightarrow> \<not> list_ex (\<lambda>c. 0 < ?rcf c) ?cs"
    by (simp add: failed_count_def filter_empty_conv list_ex_iff)
  then show "rc = 0 \<longleftrightarrow> \<not> list_ex (\<lambda>c. ?rcf c \<noteq> 0) ?cs"
    using followed recorded(2) by (auto simp: any_error_def list_ex_iff) (metis less_irrefl not_less_iff_gr_or_eq)+
qed

lemma run_reports:
  assumes "heap_ok (ld_heap (cl_ld cl))" and "hp_oks (ld_heap (cl_ld cl)) = []"
    and "getopt_all ''nh'' argv = (opts, args)" and "run_options opts True = Inr isolated"
    and "list_all (\<lambda>arg. module_ok (ce_modules env arg)) args"
    and "dup_stream (ce_dup env) = (Some (fd, mode), opened)" and "pr_fds (cl_proc cl) fd = None" and "ce_allocs env = []"
    and "\<forall>suites. list_all2 (\<lambda>arg. suite_for (ce_modules env arg)) args suites \<longrightarrow>
      makes_runner (runner_maker lib isolated) loader_suite_ops (set (testcases_of suites)) outcome
        (reporting_process env cl) (console_ops loader_suite_ops loader_names)"
  shows "\<exists>suites. list_all2 (\<lambda>arg. suite_for (ce_modules env arg)) args suites \<and>
    (case cli_main env lib (self # ''run'' # argv) cl of
       Done (cl', code) \<Rightarrow>
         let cs = testcases_of suites; rcf = (\<lambda>c. snd (outcome c))
         in cl_out cl' = cl_out cl @ concat (map (\<lambda>c. testcase_text loader_suite_ops loader_names c (fst (outcome c)))
              (upto_error rcf cs)) \<and>
            code = (if list_ex (\<lambda>c. rcf c \<noteq> 0) cs then EX_UNAVAILABLE else EX_OK) \<and> gives_back cl cl'
     | _ \<Rightarrow> False)"
proof -
  let ?ops = "console_ops loader_suite_ops loader_names" and ?env = "env\<lparr>ce_self := self\<rparr>"
  obtain cl1 collection where l: "load_testsuites ?env args cl = (cl1, Some collection)" "collected cl collection cl1"
      "list_all2 (\<lambda>arg. suite_for (ce_modules env arg)) args (co_testsuites collection)"
      "cl_out cl1 = cl_out cl" "hp_oks (ld_heap (cl_ld cl1)) = []"
    using load_testsuites_total [OF assms(1,2), of ?env args] assms(5) by auto
  let ?ss = "co_testsuites collection"
  have proc: "reporting_process ?env cl1 = reporting_process env cl"
    using l(2) by (simp add: reporting_process_def collected_def)
  have fd: "fd = du_dup (ce_dup env)" "0 \<le> du_dup (ce_dup env)"
    using dup_stream_descriptors [of "ce_dup env"] assms(6) by simp_all
  obtain cl1r h reporter con and runner :: loaded_runner where
    obj: "create_reporter ?env cl1 = (cl1r, Some (reporter, con, fd))"
      "create_runner lib isolated cl1r =
        (cl1\<lparr>cl_ld := (cl_ld cl1)\<lparr>ld_heap := h\<rparr>, cl_proc := reporting_process env cl\<rparr>, Some runner)"
      "grown [reporter, rn_block runner] (ld_heap (cl_ld cl1)) h" "op_destroy (rn_ops runner) = free_block"
      "runs_as runner loader_suite_ops (set (testcases_of ?ss)) outcome (reporting_process env cl) ?ops"
    and con: "ctest_create_console_reporter True (ce_dup env) [] = (Some (con, fd), opened, [])"
    using create_objects [OF l(5), of ?env fd mode opened lib isolated "set (testcases_of ?ss)" outcome ?ops] assms(6,8,9) l(3) proc
    by auto
  obtain con' rc where run: "runner_run_testsuites loader_suite_ops ?ops (run_reporting ?ops outcome) con ?ss 0 = (con', rc)"
    by (meson surj_pair)
  note printed = console_printed [OF con run]
  have ran: "ctest_runner_run_testsuites runner ?ops (Done (reporting_process env cl, con)) ?ss = (Done (reporting_process env cl, con'), rc)"
    using runs_loaded [OF obj(5), of con] run by (simp add: in_process_def)
  let ?clo = "cl1\<lparr>cl_ld := (cl_ld cl1)\<lparr>ld_heap := h\<rparr>, cl_proc := reporting_process env cl\<rparr>"
  define cl2 where "cl2 = (let cl = (cli_print (con_out con') ?clo)\<lparr>cl_proc := reporting_process env cl\<rparr> in
    if rc < 0 then cli_error (''Error running testsuite: '' @ ce_strerror env @ [NL]) cl else cl)"
  let ?cl3 = "destroy_reporter reporter fd (cli_heap (ctest_runner_destroy runner) cl2)"
  have "cl_ld cl2 = (cl_ld cl1)\<lparr>ld_heap := h\<rparr>" "cl_proc cl2 = reporting_process env cl1"
      "cl_out cl2 = cl_out cl @ con_out con'"
    using l(4) proc by (simp_all add: cl2_def Let_def cli_print_def cli_error_def reporting_process_def)
  with destroy_objects [OF assms(1) l(2) obj(3,4), of env cl2] assms(7) fd
  have "collected cl collection ?cl3" "cl_out ?cl3 = cl_out cl @ con_out con'"
    by (simp_all add: destroy_reporter_def cli_heap_def)
  moreover have "cli_main env lib (self # ''run'' # argv) cl
      = Done (destroy_testsuite_collection collection ?cl3, if rc = 0 then EX_OK else EX_UNAVAILABLE)"
    using assms(3,4) l(1) obj(1,2) ran by (simp add: main_run run_command_def cl2_def Let_def)
  ultimately show ?thesis
    using destroy_collection [OF assms(1), of collection ?cl3] l(3) printed by (auto simp: Let_def)
qed

text \<open>
  C6: The run command. For modules that can be loaded, it makes the runner that its options ask for (the forking one
  unless they have \<^verbatim>\<open>-n\<close>) and prints the report of every test case of every suite, with what this runner makes of it,
  in the order of the command line and up to the first one whose runner fails, and nothing else; its exit
  code is 0 exactly when no runner returned anything but 0, and 69 otherwise; and the memory of
  the suites, the reporter and the runner, the module handles and the descriptors are given back.
\<close>

theorem cli_run:
  assumes "heap_ok (ld_heap (cl_ld cl))" and "hp_oks (ld_heap (cl_ld cl)) = []"
    and "getopt_all ''nh'' argv = (opts, args)" and "run_options opts True = Inr isolated"
    and "list_all (\<lambda>arg. module_ok (ce_modules env arg)) args"
    and "dup_stream (ce_dup env) = (Some (fd, mode), opened)" and "pr_fds (cl_proc cl) fd = None" and "ce_allocs env = []"
    and "\<forall>suites. list_all2 (\<lambda>arg. suite_for (ce_modules env arg)) args suites \<longrightarrow>
      makes_runner (runner_maker lib isolated) loader_suite_ops (set (testcases_of suites)) outcome
        (reporting_process env cl) (console_ops loader_suite_ops loader_names)"
  shows "\<exists>suites. list_all2 (\<lambda>arg. suite_for (ce_modules env arg)) args suites \<and>
    (case cli_main env lib (self # ''run'' # argv) cl of
       Done (cl', code) \<Rightarrow>
         let cs = testcases_of suites; rcf = (\<lambda>c. snd (outcome c))
         in cl_out cl' = cl_out cl @ concat (map (\<lambda>c. testcase_text loader_suite_ops loader_names c (fst (outcome c)))
              (upto_error rcf cs)) \<and>
            code = (if list_ex (\<lambda>c. rcf c \<noteq> 0) cs then EX_UNAVAILABLE else EX_OK) \<and> gives_back cl cl'
     | _ \<Rightarrow> False)"
  by (rule run_reports [OF assms])

text \<open>
  C25: The ls command prints one line per test of every suite, in order, each with the suite's and the test's
  name without their prefixes, and gives everything back.
\<close>

theorem cli_ls:
  assumes "heap_ok (ld_heap (cl_ld cl))" and "hp_oks (ld_heap (cl_ld cl)) = []"
    and "getopt_all ''h'' argv = ([], args)" and "list_all (\<lambda>arg. module_ok (ce_modules env arg)) args"
  shows "case cli_main env lib (self # ''ls'' # argv) cl of Done (cl', code) \<Rightarrow>
    cl_out cl' = cl_out cl @ concat (map (\<lambda>arg. let def = the (me_suite (ce_modules env arg)) in
      concat (map (\<lambda>t. skip_prefix (sd_name def) ''testsuite_'' @ '':'' @ skip_prefix (td_name t) ''test_'' @ [NL]) (sd_tests def)))
      args) \<and>
    code = 0 \<and> gives_back cl cl' | _ \<Rightarrow> False"
proof -
  obtain cl1 collection where l: "load_testsuites (env\<lparr>ce_self := self\<rparr>) args cl = (cl1, Some collection)" "collected cl collection cl1"
      "list_all2 (\<lambda>arg. suite_for (ce_modules env arg)) args (co_testsuites collection)" "cl_out cl1 = cl_out cl"
    using load_testsuites_total [OF assms(1,2), of "env\<lparr>ce_self := self\<rparr>" args] assms(4) by auto
  have tests: "map te_def ts = defs" if "list_all2 test_for defs ts" for defs ts
    using that by (induction rule: list_all2_induct) (auto simp: test_for_def)
  have suite: "ls_text s = (let def = the (me_suite m) in
      concat (map (\<lambda>t. skip_prefix (sd_name def) ''testsuite_'' @ '':'' @ skip_prefix (td_name t) ''test_'' @ [NL]) (sd_tests def)))"
    if "suite_for m s" for m s
  proof -
    have "me_suite m = Some (ts_def s)" "sd_tests (ts_def s) = map te_def (ts_tests s)"
      using that tests by (auto simp: suite_for_def)
    then show ?thesis by (simp add: ls_text_def cli_testsuite_name_def cli_test_name_def comp_def)
  qed
  have "map ls_text (co_testsuites collection) = map (\<lambda>arg. let def = the (me_suite (ce_modules env arg)) in
      concat (map (\<lambda>t. skip_prefix (sd_name def) ''testsuite_'' @ '':'' @ skip_prefix (td_name t) ''test_'' @ [NL]) (sd_tests def))) args"
    using l(3) by (induction rule: list_all2_induct) (simp_all add: suite)
  with destroy_collection [OF assms(1), of collection "cli_print (concat (map ls_text (co_testsuites collection))) cl1"] l assms(3)
  show ?thesis by (simp add: main_ls ls_command_def) (simp add: cli_print_def)
qed


subsection \<open>A sample command line\<close>

section \<open>A module that cannot be loaded\<close>

lemma load_loop_append:
  "load_loop junk modules made (xs @ ys) ld =
     (case load_loop junk modules made xs ld of
        (ld, Inl failed) \<Rightarrow> (ld, Inl failed)
      | (ld, Inr made) \<Rightarrow> load_loop junk modules made ys ld)"
  by (induction junk modules made xs ld rule: load_loop.induct) (auto split: prod.split option.split)

text \<open>
  The loop that meets a bad module has taken nothing for it, and what \<^verbatim>\<open>load_testsuites\<close> then does to the suites before
  it is what destroying their collection does.
\<close>

lemma load_testsuites_bad:
  assumes "heap_ok (ld_heap (cl_ld cl))" and "hp_oks (ld_heap (cl_ld cl)) = []"
    and "list_all (\<lambda>arg. module_ok (ce_modules env arg)) good" and "\<not> module_ok (ce_modules env bad)"
  shows "\<exists>cl'. load_testsuites env (good @ bad # rest) cl = (cl', None) \<and> gives_back cl cl' \<and> cl_out cl' = cl_out cl \<and>
    cl_err cl' = cl_err cl @ ce_self env @ '': error loading suite from '' @ bad @ [NL]"
proof -
  let ?h = "ld_heap (cl_ld cl)"
  obtain h1 p where a1: "alloc_block ?h = (h1, Some p)" "hp_oks h1 = []"
    using alloc_total [OF assms(2)] by blast
  obtain h2 q where a2: "alloc_block h1 = (h2, Some q)" "hp_oks h2 = []"
    using alloc_total [OF a1(2)] by blast
  let ?ld = "(cl_ld cl)\<lparr>ld_heap := h2\<rparr>"
  have g: "grown [p, q] ?h h2"
    using grown_trans [OF alloc_grown(1) [OF a1(1)] alloc_grown(1) [OF a2(1)]] by simp
  then have "heap_ok (ld_heap ?ld)" "loaded ?ld [] ?ld" "hp_oks (ld_heap ?ld) = []"
    using grown_ok [OF assms(1) g] a2 by (simp_all add: loaded_def)
  from load_loop_total [OF this assms(3), of "ce_junk env"] obtain ld1 suites where
    l: "load_loop (ce_junk env) (ce_modules env) [] good ?ld = (ld1, Inr suites)" "loaded ?ld suites ld1"
    by auto
  obtain complaint where "ctest_load_testsuite (ce_junk env) (ce_modules env bad) ld1 = (complain complaint ld1, None)"
    using load_bad_module [OF assms(4)] by blast
  with l(1) have loop: "load_loop (ce_junk env) (ce_modules env) [] (good @ bad # rest) ?ld
      = (complain complaint ld1, Inl (suites, bad))"
    by (simp add: load_loop_append)
  let ?co = "\<lparr>co_block = p, co_array = Some q, co_testsuites = suites\<rparr>"
  let ?cl = "cli_error (ce_self env @ '': error loading suite from '' @ bad @ [NL]) (cl\<lparr>cl_ld := complain complaint ld1\<rparr>)"
  have "load_testsuites env (good @ bad # rest) cl = (destroy_testsuite_collection ?co ?cl, None)"
    using a1(1) a2(1) loop
    by (simp add: load_testsuites_def destroy_testsuite_collection_def cli_heap_def cli_error_def Let_def)
  moreover have "collected cl ?co ?cl"
    using l(2) grown_trans [OF g, of "concat (map suite_blocks suites)"]
    by (auto simp: collected_def loaded_def complain_def cli_error_def)
  ultimately show ?thesis
    using destroy_collection [OF assms(1), of ?co ?cl] by (simp add: cli_error_def)
qed

lemma first_bad:
  assumes "list_ex (\<lambda>arg. \<not> P arg) args"
  shows "\<exists>good bad rest. args = good @ bad # rest \<and> list_all P good \<and> \<not> P bad"
  using assms split_list_first_prop [of args "\<lambda>arg. \<not> P arg"] by (auto simp: list_ex_iff list_all_iff)

text \<open>
  C26: A module that cannot be loaded. When one of the files of the run command is not a usable module, no test is
  run and nothing is printed to the standard output; the first such file is named on the standard error, the exit
  code is 69, and the suites loaded before it are given back with their memory and handles.
\<close>

theorem cli_load_failure:
  assumes "heap_ok (ld_heap (cl_ld cl))" and "hp_oks (ld_heap (cl_ld cl)) = []"
    and "getopt_all ''nh'' argv = (opts, args)" and "run_options opts True = Inr isolated"
    and "list_ex (\<lambda>arg. \<not> module_ok (ce_modules env arg)) args"
  shows "\<exists>good bad rest. args = good @ bad # rest \<and> list_all (\<lambda>arg. module_ok (ce_modules env arg)) good \<and>
    \<not> module_ok (ce_modules env bad) \<and>
    (case cli_main env lib (self # ''run'' # argv) cl of Done (cl', code) \<Rightarrow>
       code = EX_UNAVAILABLE \<and> cl_out cl' = cl_out cl \<and> gives_back cl cl' \<and>
       cl_err cl' = cl_err cl @ self @ '': error loading suite from '' @ bad @ [NL] @
         ''Error loading test suites: '' @ ce_strerror env @ [NL] | _ \<Rightarrow> False)"
proof -
  obtain good bad rest where args: "args = good @ bad # rest" "list_all (\<lambda>arg. module_ok (ce_modules env arg)) good"
    "\<not> module_ok (ce_modules env bad)"
    using first_bad [OF assms(5)] by blast
  define env' where "env' = env\<lparr>ce_self := self\<rparr>"
  then have modules: "ce_modules env' = ce_modules env" "ce_self env' = self"
    by simp_all
  obtain cl' where l: "load_testsuites env' args cl = (cl', None)" "gives_back cl cl'" "cl_out cl' = cl_out cl"
    "cl_err cl' = cl_err cl @ self @ '': error loading suite from '' @ bad @ [NL]"
    using load_testsuites_bad [OF assms(1,2), of env' good bad rest] args(2,3)
    unfolding modules args(1) by blast
  have "cli_main env lib (self # ''run'' # argv) cl =
      Done (cli_error (''Error loading test suites: '' @ ce_strerror env @ [NL]) cl', EX_UNAVAILABLE)"
    using assms(3,4) l(1) [unfolded env'_def] by (simp add: main_run run_command_def)
  then have "case cli_main env lib (self # ''run'' # argv) cl of Done (cl', code) \<Rightarrow>
       code = EX_UNAVAILABLE \<and> cl_out cl' = cl_out cl \<and> gives_back cl cl' \<and>
       cl_err cl' = cl_err cl @ self @ '': error loading suite from '' @ bad @ [NL] @
         ''Error loading test suites: '' @ ce_strerror env @ [NL] | _ \<Rightarrow> False"
    using l(2-4) by (simp add: cli_error_def gives_back_def)
  with args show ?thesis
    by (intro exI [of _ good] exI [of _ bad] exI [of _ rest] conjI)
qed

definition sample_module :: "action list \<Rightarrow> module_env" where
  "sample_module acts =
     \<lparr>me_dlinit_ok = True, me_advise_ok = True, me_local_ok = True, me_open_ok = True,
      me_suite = Some \<lparr>sd_magic = 0x72db2d, sd_version = 0, sd_name = ''testsuite_s'',
        sd_tests = [\<lparr>td_name = ''test_t'', td_caller = (\<lambda>_. acts), td_fixture_provider = None, td_data_provider = None\<rparr>]\<rparr>,
      me_dynamic_ops = True, me_dlerror = []\<rparr>"

definition sample_env :: "action list \<Rightarrow> cli_env" where
  "sample_env acts =
     \<lparr>ce_self = [], ce_strerror = ''Success'', ce_junk = CHR ''?'', ce_modules = (\<lambda>_. sample_module acts),
      ce_dup = \<lparr>du_fileno = 1, du_mode = Some O_WRONLY, du_dup = 5, du_cloexec_ok = True, du_fdopen_ok = True\<rparr>,
      ce_allocs = []\<rparr>"

definition sample_cli :: cli where
  "sample_cli =
     \<lparr>cl_ld = \<lparr>ld_heap = \<lparr>hp_next = 0, hp_live = {}, hp_oks = [], hp_bad = False\<rparr>, ld_inits = 0, ld_advices = 0,
        ld_handles = 0, ld_stderr = []\<rparr>,
      cl_proc = \<lparr>pr_fds = (\<lambda>fd. if fd \<in> {0, 1, 2} then Some (Inherited (nat fd)) else None),
        pr_sigs = sig_initial (\<lambda>_. Disp_Default)\<rparr>, cl_out = [], cl_err = []\<rparr>"

lemma sample_ok:
  "heap_ok (ld_heap (cl_ld sample_cli))" "hp_oks (ld_heap (cl_ld sample_cli)) = []" "cl_out sample_cli = []"
  "ce_modules (sample_env acts) arg = (sample_module acts)" "module_ok (sample_module acts)"
  "dup_stream (ce_dup (sample_env acts)) = (Some (5, ''w''), [5])"
  "pr_fds (cl_proc sample_cli) 5 = None" "ce_allocs (sample_env acts) = []"
  by (simp_all add: sample_cli_def sample_env_def sample_module_def heap_ok_def dup_stream_def module_ok_def
      CTEST_SUITE_MAGIC_def CTEST_SUITE_VERSION_def)

lemma sample_suite:
  assumes "suite_for (sample_module acts) s"
  shows "\<exists>t c. ts_tests s = [t] \<and> te_testcases t = [c] \<and> sd_name (ts_def s) = ''testsuite_s'' \<and>
    te_def t = \<lparr>td_name = ''test_t'', td_caller = (\<lambda>_. acts), td_fixture_provider = None, td_data_provider = None\<rparr> \<and>
    tc_name c = ''test_t''"
proof -
  let ?def = "\<lparr>td_name = ''test_t'', td_caller = (\<lambda>_. acts), td_fixture_provider = None, td_data_provider = None\<rparr>"
  have def: "the (me_suite (sample_module acts)) = ts_def s"
      "list_all2 test_for (sd_tests (the (me_suite (sample_module acts)))) (ts_tests s)"
    using assms by (simp_all add: suite_for_def)
  from def(2) have "list_all2 test_for [?def] (ts_tests s)" by (simp add: sample_module_def)
  then obtain t where t: "ts_tests s = [t]" "test_for ?def t" by (auto simp: list_all2_Cons1)
  from t(2) obtain c where c: "te_testcases t = [c]" "testcase_for ?def null_data_provider 0 c" "te_def t = ?def"
    by (auto simp: test_for_def provider_of_def null_data_provider_def list_all2_Cons1)
  then have "tc_name c = ''test_t''"
    by (simp add: testcase_for_def testcase_name_def null_data_provider_def cstring_def)
  moreover have "sd_name (the (me_suite (sample_module acts))) = ''testsuite_s''" by (simp add: sample_module_def)
  ultimately show ?thesis using t c def(1) by metis
qed

text \<open>A library whose runners run the loops with given outcomes.\<close>

definition outcome_step ::
  "(loaded_case \<Rightarrow> ctest_result \<times> int) \<Rightarrow> ('r, testsuite, testsuite \<times> test, loaded_case) reporter_ops
   \<Rightarrow> 'r running \<Rightarrow> loaded_case \<Rightarrow> 'r running \<times> int" where
  "outcome_step outcome ops x c =
     (case x of Done (proc, r) \<Rightarrow> in_process proc (run_reporting ops outcome r c) | _ \<Rightarrow> (x, 0))"

definition create_outcome_runner ::
  "(loaded_case \<Rightarrow> ctest_result \<times> int) \<Rightarrow> block_heap \<Rightarrow> block_heap \<times> loaded_runner option" where
  "create_outcome_runner outcome h =
     (case alloc_block h of
        (h, None) \<Rightarrow> (h, None)
      | (h, Some b) \<Rightarrow> (h, Some \<lparr>rn_block = b, rn_ops =
          \<lparr>op_run_testsuites = (\<lambda>ops x ss. runner_run_testsuites loader_suite_ops (process_ops ops) (outcome_step outcome ops) x ss 0),
           op_run_tests = (\<lambda>ops. runner_run_tests True loader_suite_ops (process_ops ops) (outcome_step outcome ops)),
           op_run_testcases = (\<lambda>ops. runner_run_testcases True loader_suite_ops (process_ops ops) (outcome_step outcome ops)),
           op_destroy = free_block\<rparr>\<rparr>))"

lemma outcome_runner_made: "makes_runner (create_outcome_runner outcome) loader_suite_ops C outcome proc ops"
proof (rule makes_runnerI)
  fix h h' and runner :: loaded_runner
  assume "create_outcome_runner outcome h = (h', Some runner)"
  then show "runs_as runner loader_suite_ops C outcome proc ops"
    by (intro loops_run_as [OF suite_wf_loader, where step = "outcome_step outcome ops"])
      (auto simp: create_outcome_runner_def outcome_step_def split: prod.splits option.splits)
qed (auto simp: create_outcome_runner_def)

definition sample_lib :: "(bool \<Rightarrow> loaded_case \<Rightarrow> ctest_result \<times> int) \<Rightarrow> exec_lib" where
  "sample_lib outcome =
     \<lparr>lib_create_forking_runner = create_outcome_runner (outcome True),
      lib_create_direct_runner = create_outcome_runner (outcome False)\<rparr>"

lemma sample_lib_made:
  "makes_runner (runner_maker (sample_lib outcome) isolated) loader_suite_ops C (outcome isolated) proc ops"
  using outcome_runner_made by (cases isolated) (simp_all add: runner_maker_def sample_lib_def)

text \<open>With \<^verbatim>\<open>-n\<close> it is the direct runner that decides: here the one for which every test case fails.\<close>

definition sample_outcome :: "bool \<Rightarrow> loaded_case \<Rightarrow> ctest_result \<times> int" where
  "sample_outcome isolated c =
     (if isolated then (\<lparr>res_type = CTEST_RESULT_PASS, res_output = None, res_failure = None\<rparr>, 0)
      else (\<lparr>res_type = CTEST_RESULT_FAIL, res_output = None, res_failure = None\<rparr>, 1))"

theorem cli_run_witness:
  "case cli_main (sample_env []) (sample_lib sample_outcome) [''ctest'', ''run'', ''-n'', ''a.so''] sample_cli of
     Done (cl', code) \<Rightarrow> code = 69 \<and> gives_back sample_cli cl' | _ \<Rightarrow> False"
proof -
  let ?main = "cli_main (sample_env []) (sample_lib sample_outcome) [''ctest'', ''run'', ''-n'', ''a.so''] sample_cli"
  have opts: "getopt_all ''nh'' [''-n'', ''a.so''] = (''n'', [''a.so''])" "run_options ''n'' True = Inr False"
    "list_all (\<lambda>arg. module_ok (ce_modules (sample_env []) arg)) [''a.so'']"
    by (simp_all add: sample_ok)
  have made: "\<forall>suites. list_all2 (\<lambda>arg. suite_for (ce_modules (sample_env []) arg)) [''a.so''] suites \<longrightarrow>
      makes_runner (runner_maker (sample_lib sample_outcome) False) loader_suite_ops (set (testcases_of suites)) (sample_outcome False)
        (reporting_process (sample_env []) sample_cli) (console_ops loader_suite_ops loader_names)"
    by (simp add: sample_lib_made)
  from cli_run [OF sample_ok(1,2) opts sample_ok(6-8) made, where self = "''ctest''"]
  obtain suites where s: "list_all2 (\<lambda>arg. suite_for (ce_modules (sample_env []) arg)) [''a.so''] suites"
    "case ?main of Done (cl', code) \<Rightarrow>
       let cs = testcases_of suites; rcf = (\<lambda>c. snd (sample_outcome False c))
       in cl_out cl' = cl_out sample_cli @ concat (map (\<lambda>c. testcase_text loader_suite_ops loader_names c (fst (sample_outcome False c)))
              (upto_error rcf cs)) \<and>
            code = (if list_ex (\<lambda>c. rcf c \<noteq> 0) cs then EX_UNAVAILABLE else EX_OK) \<and> gives_back sample_cli cl'
     | _ \<Rightarrow> False"
    by (elim exE conjE) (rule that)
  then obtain x where "suites = [x]" "suite_for (sample_module []) x" by (auto simp: sample_ok list_all2_Cons1)
  with sample_suite [of "[]" x] have "list_ex (\<lambda>c. snd (sample_outcome False c) \<noteq> 0) (testcases_of suites)"
    by (auto simp: testcases_of_def sample_outcome_def)
  with s(2) show ?thesis by (auto simp: EX_UNAVAILABLE_def Let_def split: run.splits)
qed

theorem cli_ls_witness:
  "case cli_main (sample_env []) (sample_lib sample_outcome) [''ctest'', ''ls'', ''a.so'', ''b.so''] sample_cli of
    Done (cl', code) \<Rightarrow> cl_out cl' = ''s:t'' @ [NL] @ ''s:t'' @ [NL] \<and> code = 0 \<and> gives_back sample_cli cl' | _ \<Rightarrow> False"
  using cli_ls [OF sample_ok(1,2), of "[''a.so'', ''b.so'']" "[''a.so'', ''b.so'']" "sample_env []" "sample_lib sample_outcome" "''ctest''"]
  by (simp add: sample_ok split: run.splits prod.splits) (simp add: sample_module_def skip_prefix_def)

theorem cli_load_failure_witness:
  "case cli_main ((sample_env [])\<lparr>ce_modules := \<lambda>arg. (sample_module [])\<lparr>me_open_ok := arg = ''a.so''\<rparr>\<rparr>)
      (sample_lib sample_outcome) [''ctest'', ''run'', ''a.so'', ''b.so''] sample_cli of
    Done (cl', code) \<Rightarrow> code = EX_UNAVAILABLE \<and> cl_out cl' = [] \<and> gives_back sample_cli cl' \<and>
      cl_err cl' = ''ctest: error loading suite from b.so'' @ [NL] @ ''Error loading test suites: Success'' @ [NL]
  | _ \<Rightarrow> False"
proof -
  let ?env = "(sample_env [])\<lparr>ce_modules := \<lambda>arg. (sample_module [])\<lparr>me_open_ok := arg = ''a.so''\<rparr>\<rparr>"
  let ?lib = "sample_lib sample_outcome"
  have ok: "module_ok (ce_modules ?env arg) \<longleftrightarrow> arg = ''a.so''" for arg
    using sample_ok(5) [of "[]"] by (auto simp: module_ok_def sample_module_def CTEST_SUITE_MAGIC_def CTEST_SUITE_VERSION_def)
  have "getopt_all ''nh'' [''a.so'', ''b.so''] = ([], [''a.so'', ''b.so''])" "run_options [] True = Inr True"
    "list_ex (\<lambda>arg. \<not> module_ok (ce_modules ?env arg)) [''a.so'', ''b.so'']"
    unfolding ok by simp_all
  from cli_load_failure [OF sample_ok(1,2) this, where lib = ?lib and self = "''ctest''"]
  obtain good bad rest where *: "[''a.so'', ''b.so''] = good @ bad # rest" "list_all (\<lambda>arg. arg = ''a.so'') good"
    "bad \<noteq> ''a.so''"
    "case cli_main ?env ?lib [''ctest'', ''run'', ''a.so'', ''b.so''] sample_cli of Done (cl', code) \<Rightarrow>
       code = EX_UNAVAILABLE \<and> cl_out cl' = cl_out sample_cli \<and> gives_back sample_cli cl' \<and>
       cl_err cl' = cl_err sample_cli @ ''ctest'' @ '': error loading suite from '' @ bad @ [NL] @
         ''Error loading test suites: '' @ ce_strerror ?env @ [NL] | _ \<Rightarrow> False"
    unfolding ok by (elim exE conjE) (rule that)
  from *(1-3) have "bad = ''b.so''"
    by (auto simp: Cons_eq_append_conv)
  with *(4) show ?thesis
    by (simp add: sample_cli_def sample_env_def split: prod.splits run.splits)
qed

end
