(* ===== verification/Asserts.thy ===== *)
theory Asserts
  imports Test_Execution Text_Format "HOL-Library.Char_ord" "HOL-Library.List_Lexorder"
begin

text \<open>
  The assertion macros of \<^verbatim>\<open>include/ctest/tests/assert.h\<close>. An assertion in a test does nothing when it holds
  and otherwise calls \<^verbatim>\<open>ctest_fail\<close> with a text that shows both operands: an action of \<open>Test_Execution\<close>.
  Operands are converted to the type of the macro first, and one definition stands for the macros that only
  differ in the comparison.
\<close>

section \<open>Definitions\<close>

datatype comparison = EQ | NE | LT | LE | GT | GE

fun ctest_operator :: "comparison \<Rightarrow> 'a :: linorder \<Rightarrow> 'a \<Rightarrow> bool" where
  "ctest_operator EQ a b = (a = b)"
| "ctest_operator NE a b = (a \<noteq> b)"
| "ctest_operator LT a b = (a < b)"
| "ctest_operator LE a b = (a \<le> b)"
| "ctest_operator GT a b = (a > b)"
| "ctest_operator GE a b = (a \<ge> b)"

fun operator_str :: "comparison \<Rightarrow> string" where
  "operator_str EQ = ''be ''"
| "operator_str NE = ''be different from ''"
| "operator_str LT = ''be less than ''"
| "operator_str LE = ''be no greater than ''"
| "operator_str GT = ''be greater than ''"
| "operator_str GE = ''be no less than ''"

text \<open>\<^verbatim>\<open>strcmp\<close> and, in the C locale, \<^verbatim>\<open>strcasecmp\<close>: bytes are compared as unsigned characters.\<close>

definition byte_int :: "char \<Rightarrow> int" where
  "byte_int c = int (of_char c)"

fun strcmp :: "string \<Rightarrow> string \<Rightarrow> int" where
  "strcmp [] [] = 0"
| "strcmp [] (b # bs) = (if b = NUL then 0 else - byte_int b)"
| "strcmp (a # as) [] = byte_int a"
| "strcmp (a # as) (b # bs) =
     (if a \<noteq> b then byte_int a - byte_int b else if a = NUL then 0 else strcmp as bs)"

definition tolower :: "char \<Rightarrow> char" where
  "tolower c = (if 65 \<le> (of_char c :: nat) \<and> (of_char c :: nat) \<le> 90 then char_of ((of_char c :: nat) + 32) else c)"

definition strcasecmp :: "string \<Rightarrow> string \<Rightarrow> int" where
  "strcasecmp a b = strcmp (map tolower a) (map tolower b)"

definition ctest_operator_str :: "comparison \<Rightarrow> string \<Rightarrow> string \<Rightarrow> bool" where
  "ctest_operator_str c a b = ctest_operator c (strcmp a b) 0"

fun operator_str_str :: "comparison \<Rightarrow> string" where
  "operator_str_str EQ = operator_str EQ"
| "operator_str_str NE = operator_str NE"
| "operator_str_str LT = ''lexicographically preceded ''"
| "operator_str_str LE = ''not lexicographically follow ''"
| "operator_str_str GT = ''lexicographically follow ''"
| "operator_str_str GE = ''not lexicographically precede ''"

definition ctest_operator_istr :: "comparison \<Rightarrow> string \<Rightarrow> string \<Rightarrow> bool" where
  "ctest_operator_istr c a b = ctest_operator c (strcasecmp a b) 0"

definition operator_istr_str :: "comparison \<Rightarrow> string" where
  "operator_istr_str c = operator_str_str c @ ''(ignoring case) ''"

definition ctest_operator_booleq :: "cint \<Rightarrow> cint \<Rightarrow> bool" where
  "ctest_operator_booleq a b \<longleftrightarrow> (a = 0) = (b = 0)"

definition ctest_operator_boolne :: "cint \<Rightarrow> cint \<Rightarrow> bool" where
  "ctest_operator_boolne a b \<longleftrightarrow> (a = 0) \<noteq> (b = 0)"

text \<open>
  Where an assertion stands: file and line, the text of its operand, and the format string with its
  parameters, of which the text they give is what matters.
\<close>

record place =
  pl_file :: string
  pl_line :: cint
  pl_actual :: string
  pl_fmt :: string
  pl_message :: string

definition ctest_assert :: "place \<Rightarrow> bool \<Rightarrow> string \<Rightarrow> action list" where
  "ctest_assert pl holds description = (if \<not> holds then [Act_Fail (pl_file pl) (pl_line pl) description] else [])"

definition ctest_assert_cmp ::
  "place \<Rightarrow> 'a \<Rightarrow> 'a \<Rightarrow> ('a \<Rightarrow> 'a \<Rightarrow> bool) \<Rightarrow> string \<Rightarrow> ('a \<Rightarrow> string) \<Rightarrow> action list" where
  "ctest_assert_cmp pl actual expect op op_str show =
     (let description = pl_actual pl @ '' evaluated to '' @ show actual @ '' but should '' @ op_str @ show expect
      in if length (pl_fmt pl) > 0
         then ctest_assert pl (op actual expect) (description @ '': '' @ pl_message pl)
         else ctest_assert pl (op actual expect) description)"

definition show_ju :: "64 word \<Rightarrow> string" where
  "show_ju w = show_nat (unat w)"

definition show_quoted :: "string \<Rightarrow> string" where
  "show_quoted s = [CHR 0x22] @ takeWhile (\<lambda>c. c \<noteq> NUL) s @ [CHR 0x22]"

definition show_bool :: "cint \<Rightarrow> string" where
  "show_bool x = (if x \<noteq> 0 then ''true'' else ''false'')"

definition CT_FAIL :: "place \<Rightarrow> action list" where
  "CT_FAIL pl = [Act_Fail (pl_file pl) (pl_line pl) (pl_message pl)]"

definition CT_ASSERT :: "place \<Rightarrow> bool \<Rightarrow> action list" where
  "CT_ASSERT pl expr = ctest_assert pl expr (pl_actual pl @ '' failed'' @ pl_message pl)"

definition CT_ASSERT_UINT :: "place \<Rightarrow> comparison \<Rightarrow> 64 word \<Rightarrow> 64 word \<Rightarrow> action list" where
  "CT_ASSERT_UINT pl c actual expect = ctest_assert_cmp pl actual expect (ctest_operator c) (operator_str c) show_ju"

definition CT_ASSERT_INT :: "place \<Rightarrow> comparison \<Rightarrow> 64 word \<Rightarrow> 64 word \<Rightarrow> action list" where
  "CT_ASSERT_INT pl c actual expect =
     ctest_assert_cmp pl actual expect (\<lambda>a b. ctest_operator c (sint a) (sint b)) (operator_str c) show_ju"

definition CT_ASSERT_STR :: "place \<Rightarrow> comparison \<Rightarrow> string \<Rightarrow> string \<Rightarrow> action list" where
  "CT_ASSERT_STR pl c actual expect =
     ctest_assert_cmp pl actual expect (ctest_operator_str c) (operator_str_str c) show_quoted"

definition CT_ASSERT_ISTR :: "place \<Rightarrow> comparison \<Rightarrow> string \<Rightarrow> string \<Rightarrow> action list" where
  "CT_ASSERT_ISTR pl c actual expect =
     ctest_assert_cmp pl actual expect (ctest_operator_istr c) (operator_istr_str c) show_quoted"

definition CT_ASSERT_PTR_EQ :: "place \<Rightarrow> addr \<Rightarrow> addr \<Rightarrow> action list" where
  "CT_ASSERT_PTR_EQ pl actual expect = ctest_assert_cmp pl actual expect (ctest_operator EQ) (operator_str EQ) show_ptr"

definition CT_ASSERT_PTR_NE :: "place \<Rightarrow> addr \<Rightarrow> addr \<Rightarrow> action list" where
  "CT_ASSERT_PTR_NE pl actual expect = ctest_assert_cmp pl actual expect (ctest_operator NE) (operator_str NE) show_ptr"

definition CT_ASSERT_NULL :: "place \<Rightarrow> addr \<Rightarrow> action list" where
  "CT_ASSERT_NULL pl actual = ctest_assert_cmp pl actual NULL (ctest_operator EQ) (operator_str EQ) show_ptr"

definition CT_ASSERT_NONNULL :: "place \<Rightarrow> addr \<Rightarrow> action list" where
  "CT_ASSERT_NONNULL pl actual = ctest_assert_cmp pl actual NULL (ctest_operator EQ) (operator_str NE) show_ptr"

text \<open>The operands of the boolean assertions may be wider than the \<^verbatim>\<open>int\<close> they are converted to.\<close>

definition CT_ASSERT_BOOL_EQ :: "place \<Rightarrow> 64 word \<Rightarrow> 64 word \<Rightarrow> action list" where
  "CT_ASSERT_BOOL_EQ pl actual expect =
     ctest_assert_cmp pl (ucast actual) (ucast expect) ctest_operator_booleq (operator_str EQ) show_bool"

definition CT_ASSERT_BOOL_NE :: "place \<Rightarrow> 64 word \<Rightarrow> 64 word \<Rightarrow> action list" where
  "CT_ASSERT_BOOL_NE pl actual expect =
     ctest_assert_cmp pl (ucast actual) (ucast expect) ctest_operator_boolne (operator_str EQ) show_bool"

definition CT_ASSERT_TRUE :: "place \<Rightarrow> 64 word \<Rightarrow> action list" where
  "CT_ASSERT_TRUE pl actual = ctest_assert_cmp pl (ucast actual) 1 ctest_operator_booleq (operator_str EQ) show_bool"

definition CT_ASSERT_FALSE :: "place \<Rightarrow> 64 word \<Rightarrow> action list" where
  "CT_ASSERT_FALSE pl actual = ctest_assert_cmp pl (ucast actual) 0 ctest_operator_booleq (operator_str EQ) show_bool"

text \<open>An assertion of a test, and its expansion.\<close>

datatype assertion =
    Is_Fail
  | Is_Assert bool
  | Is_Uint comparison "64 word" "64 word"
  | Is_Int comparison "64 word" "64 word"
  | Is_Str comparison string string
  | Is_Istr comparison string string
  | Is_Ptr_Eq addr addr
  | Is_Ptr_Ne addr addr
  | Is_Null addr
  | Is_Nonnull addr
  | Is_Bool_Eq "64 word" "64 word"
  | Is_Bool_Ne "64 word" "64 word"
  | Is_True "64 word"
  | Is_False "64 word"

fun expand :: "place \<Rightarrow> assertion \<Rightarrow> action list" where
  "expand pl Is_Fail = CT_FAIL pl"
| "expand pl (Is_Assert expr) = CT_ASSERT pl expr"
| "expand pl (Is_Uint c actual expect) = CT_ASSERT_UINT pl c actual expect"
| "expand pl (Is_Int c actual expect) = CT_ASSERT_INT pl c actual expect"
| "expand pl (Is_Str c actual expect) = CT_ASSERT_STR pl c actual expect"
| "expand pl (Is_Istr c actual expect) = CT_ASSERT_ISTR pl c actual expect"
| "expand pl (Is_Ptr_Eq actual expect) = CT_ASSERT_PTR_EQ pl actual expect"
| "expand pl (Is_Ptr_Ne actual expect) = CT_ASSERT_PTR_NE pl actual expect"
| "expand pl (Is_Null actual) = CT_ASSERT_NULL pl actual"
| "expand pl (Is_Nonnull actual) = CT_ASSERT_NONNULL pl actual"
| "expand pl (Is_Bool_Eq actual expect) = CT_ASSERT_BOOL_EQ pl actual expect"
| "expand pl (Is_Bool_Ne actual expect) = CT_ASSERT_BOOL_NE pl actual expect"
| "expand pl (Is_True actual) = CT_ASSERT_TRUE pl actual"
| "expand pl (Is_False actual) = CT_ASSERT_FALSE pl actual"

section \<open>String comparison\<close>

lemma byte_int_less: "byte_int a - byte_int b < 0 \<longleftrightarrow> a < b" "byte_int a - byte_int b = 0 \<longleftrightarrow> a = b" "0 \<le> byte_int a"
  "byte_int a = 0 \<longleftrightarrow> a = NUL"
proof -
  note bi = byte_int_def
  show "byte_int a - byte_int b < 0 \<longleftrightarrow> a < b" by (simp add: bi less_char_def)
  show "byte_int a - byte_int b = 0 \<longleftrightarrow> a = b" by (simp add: bi)
  show "0 \<le> byte_int a" by (simp add: bi)
  have "of_char NUL = (0 :: nat)" by simp
  then show "byte_int a = 0 \<longleftrightarrow> a = NUL" unfolding bi by (metis of_char_eq_iff of_nat_0_eq_iff)
qed


lemma strcmp_order:
  assumes "cstring a" and "cstring b"
  shows "strcmp a b < 0 \<longleftrightarrow> a < b" "strcmp a b = 0 \<longleftrightarrow> a = b"
proof -
  have "(strcmp a b < 0 \<longleftrightarrow> a < b) \<and> (strcmp a b = 0 \<longleftrightarrow> a = b)"
    using assms
  proof (induction a b rule: strcmp.induct)
    case (2 b bs)
    then have "0 < byte_int b" using byte_int_less(3,4) [of b] by (auto simp: cstring_def)
    then show ?case using 2 by (auto simp: cstring_def)
  next
    case (3 a as)
    then have "0 < byte_int a" using byte_int_less(3,4) [of a] by (auto simp: cstring_def)
    then show ?case by simp
  next
    case (4 a as b bs)
    then show ?case using byte_int_less(1,2) [of a b] by (auto simp: cstring_def)
  qed simp
  then show "strcmp a b < 0 \<longleftrightarrow> a < b" "strcmp a b = 0 \<longleftrightarrow> a = b" by simp_all
qed

lemma tolower_NUL: "tolower c = NUL \<longleftrightarrow> c = NUL"
proof (cases "65 \<le> (of_char c :: nat) \<and> (of_char c :: nat) \<le> 90")
  case True
  then have "of_char (tolower c) = ((of_char c :: nat) + 32) mod 256" by (simp add: tolower_def)
  with True have "(of_char (tolower c) :: nat) \<noteq> 0" "(of_char c :: nat) \<noteq> 0" by auto
  then show ?thesis by auto
qed (auto simp: tolower_def)

lemma cstring_tolower: "cstring s \<Longrightarrow> cstring (map tolower s)"
  by (auto simp: cstring_def) (metis tolower_NUL)

lemma strcasecmp_order:
  assumes "cstring a" and "cstring b"
  shows "strcasecmp a b < 0 \<longleftrightarrow> map tolower a < map tolower b" "strcasecmp a b = 0 \<longleftrightarrow> map tolower a = map tolower b"
  using strcmp_order [OF cstring_tolower [OF assms(1)] cstring_tolower [OF assms(2)]] by (simp_all add: strcasecmp_def)

text \<open>An order is all there is to a comparison.\<close>

lemma operator_order:
  fixes x y :: "'a :: linorder" and x' y' :: "'b :: linorder"
  assumes "x < y \<longleftrightarrow> x' < y'" and "x = y \<longleftrightarrow> x' = y'"
  shows "ctest_operator c x y = ctest_operator c x' y'"
  using assms by (cases c) (auto simp: le_less not_le dest: antisym_conv3 less_not_sym)

section \<open>Properties\<close>

text \<open>What the documentation (\<^verbatim>\<open>docs/md/api.md\<close>) and the names of the macros say an assertion requires.\<close>

fun documented :: "assertion \<Rightarrow> bool" where
  "documented Is_Fail = False"
| "documented (Is_Assert expr) = expr"
| "documented (Is_Uint c actual expect) = ctest_operator c (uint actual) (uint expect)"
| "documented (Is_Int c actual expect) = ctest_operator c (sint actual) (sint expect)"
| "documented (Is_Str c actual expect) = ctest_operator c actual expect"
| "documented (Is_Istr c actual expect) = ctest_operator c (map tolower actual) (map tolower expect)"
| "documented (Is_Ptr_Eq actual expect) = (actual = expect)"
| "documented (Is_Ptr_Ne actual expect) = (actual \<noteq> expect)"
| "documented (Is_Null actual) = (actual = NULL)"
| "documented (Is_Nonnull actual) = (actual \<noteq> NULL)"
| "documented (Is_Bool_Eq actual expect) = ((actual = 0) = (expect = 0))"
| "documented (Is_Bool_Ne actual expect) = ((actual = 0) \<noteq> (expect = 0))"
| "documented (Is_True actual) = (actual \<noteq> 0)"
| "documented (Is_False actual) = (actual = 0)"

text \<open>A value that is not zero but whose conversion to \<^verbatim>\<open>int\<close> is.\<close>

definition lost :: "64 word \<Rightarrow> bool" where
  "lost w \<longleftrightarrow> w \<noteq> 0 \<and> (ucast w :: cint) = 0"

fun deviates :: "assertion \<Rightarrow> bool" where
  "deviates (Is_Nonnull actual) = True"
| "deviates (Is_Bool_Eq actual expect) = (lost actual \<noteq> lost expect)"
| "deviates (Is_Bool_Ne actual expect) = (lost actual \<noteq> lost expect)"
| "deviates (Is_True actual) = lost actual"
| "deviates (Is_False actual) = lost actual"
| "deviates _ = False"

fun strings_ok :: "assertion \<Rightarrow> bool" where
  "strings_ok (Is_Str c actual expect) = (cstring actual \<and> cstring expect)"
| "strings_ok (Is_Istr c actual expect) = (cstring actual \<and> cstring expect)"
| "strings_ok _ = True"

lemma ctest_assert_nil [simp]: "ctest_assert pl holds description = [] \<longleftrightarrow> holds"
  by (simp add: ctest_assert_def)

lemma ctest_assert_cmp_nil [simp]: "ctest_assert_cmp pl actual expect op op_str show = [] \<longleftrightarrow> op actual expect"
  by (simp add: ctest_assert_cmp_def Let_def)

lemmas assert_defs = CT_FAIL_def CT_ASSERT_def CT_ASSERT_UINT_def CT_ASSERT_INT_def CT_ASSERT_STR_def CT_ASSERT_ISTR_def
  CT_ASSERT_PTR_EQ_def CT_ASSERT_PTR_NE_def CT_ASSERT_NULL_def CT_ASSERT_NONNULL_def CT_ASSERT_BOOL_EQ_def
  CT_ASSERT_BOOL_NE_def CT_ASSERT_TRUE_def CT_ASSERT_FALSE_def

lemma expand_nil:
  assumes "strings_ok a"
  shows "expand pl a = [] \<longleftrightarrow> documented a \<noteq> deviates a"
proof (cases a)
  case (Is_Uint c x y)
  have "ctest_operator c x y = ctest_operator c (uint x) (uint y)"
    by (rule operator_order) (simp_all add: word_less_def word_uint_eq_iff)
  then show ?thesis using Is_Uint by (simp add: assert_defs)
next
  case (Is_Str c x y)
  have "ctest_operator c (strcmp x y) 0 = ctest_operator c x y"
    using assms Is_Str by (intro operator_order) (simp_all add: strcmp_order)
  then show ?thesis using Is_Str by (simp add: assert_defs ctest_operator_str_def)
next
  case (Is_Istr c x y)
  have "ctest_operator c (strcasecmp x y) 0 = ctest_operator c (map tolower x) (map tolower y)"
    using assms Is_Istr by (intro operator_order) (simp_all add: strcasecmp_order)
  then show ?thesis using Is_Istr by (simp add: assert_defs ctest_operator_istr_def)
qed (auto simp: assert_defs ctest_operator_booleq_def ctest_operator_boolne_def lost_def)


lemma expand_cases: "expand pl a = [] \<or> (\<exists>text. expand pl a = [Act_Fail (pl_file pl) (pl_line pl) text])"
  by (cases a) (simp_all add: assert_defs ctest_assert_cmp_def ctest_assert_def Let_def)

text \<open>The text an assertion fails with, and the failure it makes.\<close>

definition assert_text :: "place \<Rightarrow> assertion \<Rightarrow> string" where
  "assert_text pl a = (case expand pl a of Act_Fail file line text # _ \<Rightarrow> text | _ \<Rightarrow> [])"

definition assert_failure :: "place \<Rightarrow> assertion \<Rightarrow> ctest_failure option" where
  "assert_failure pl a = first_some (action_failure CTEST_STAGE_EXECUTION) (expand pl a)"

lemma expand_all_actions:
  fixes body :: "(place \<times> assertion) list"
  defines "acts \<equiv> concat (map (\<lambda>(pl, a). expand pl a) body)"
  shows "no_signal acts"
    and "first_some action_abort acts
      = (if list_all (\<lambda>(pl, a). expand pl a = []) body then None else Some CTEST_DYNAMIC_OPS_ABORT_FAIL)"
    and "first_some (action_failure CTEST_STAGE_EXECUTION) acts = first_some (\<lambda>(pl, a). assert_failure pl a) body"
proof -
  have "no_signal acts \<and> first_some action_abort acts
      = (if list_all (\<lambda>(pl, a). expand pl a = []) body then None else Some CTEST_DYNAMIC_OPS_ABORT_FAIL)"
    unfolding acts_def
  proof (induction body)
    case (Cons x body)
    obtain pl a where "x = (pl, a)" by (cases x)
    then show ?case using Cons expand_cases [of pl a] by (auto simp: no_signal_def)
  qed (simp add: no_signal_def)
  then show "no_signal acts" and "first_some action_abort acts
      = (if list_all (\<lambda>(pl, a). expand pl a = []) body then None else Some CTEST_DYNAMIC_OPS_ABORT_FAIL)" by simp_all
  show "first_some (action_failure CTEST_STAGE_EXECUTION) acts = first_some (\<lambda>(pl, a). assert_failure pl a) body"
    unfolding acts_def by (induction body) (auto simp: first_some_append assert_failure_def split: option.split)
qed

lemma execute_body:
  assumes "no_signal acts"
  shows "snd (testcase_op_execute hookable True fixture_ok oom None acts) =
    (case first_some action_abort acts of
       Some type \<Rightarrow> Some (end_of type (first_some (action_failure CTEST_STAGE_EXECUTION) acts))
     | None \<Rightarrow> map_option (\<lambda>x. On_Failure (Some x)) (first_some (action_failure CTEST_STAGE_EXECUTION) acts))"
  using execute_outcome [of default_fixture_provider fixture_ok acts hookable True oom] assms
    execute_default [of hookable True fixture_ok oom None acts]
  by (auto simp: default_fixture_provider_def acts_of_def verdict_unfold Let_def split: option.split)

text \<open>
  C22: The assertion macros. An assertion whose strings are proper C strings does nothing when it holds and
  otherwise fails the test at its place, and it holds exactly when its documentation says so, with two
  exceptions: \<^verbatim>\<open>CT_ASSERT_NONNULL\<close> always does the opposite, and a boolean operand that is not zero but whose
  lower 32 bits are is taken for false.
\<close>

theorem assert_documented:
  assumes "strings_ok a"
  shows "if documented a \<noteq> deviates a then expand pl a = []
    else \<exists>text. expand pl a = [Act_Fail (pl_file pl) (pl_line pl) text]"
  using expand_nil [OF assms, of pl] expand_cases [of pl a] by auto

definition sample_place :: place where
  "sample_place = \<lparr>pl_file = ''t.c'', pl_line = 7, pl_actual = ''p'', pl_fmt = [], pl_message = []\<rparr>"

theorem assert_documented_witness:
  "(\<exists>text. expand sample_place (Is_Nonnull 4096) = [Act_Fail ''t.c'' 7 text]) \<and>
   (\<exists>text. expand sample_place (Is_True (2 ^ 32)) = [Act_Fail ''t.c'' 7 text]) \<and>
   expand sample_place (Is_Istr LE ''aB'' ''Ab'') = []"
proof -
  have "lost (2 ^ 32)" by (simp add: lost_def)
  moreover have "map tolower ''aB'' = map tolower ''Ab''" by code_simp
  ultimately show ?thesis
    using assert_documented [of "Is_Nonnull 4096" sample_place] assert_documented [of "Is_True (2 ^ 32)" sample_place]
      assert_documented [of "Is_Istr LE ''aB'' ''Ab''" sample_place]
    by (simp add: sample_place_def cstring_def)
qed

text \<open>
  C23: A test without a fixture whose body is a list of assertions. The test case returns normally if none of
  them fails, and otherwise ends with the failure of the first that does: its text and place, in the
  execution stage.
\<close>

theorem asserts_verdict:
  "snd (testcase_op_execute hookable True fixture_ok oom None (concat (map (\<lambda>(pl, a). expand pl a) body))) =
    (case dropWhile (\<lambda>(pl, a). expand pl a = []) body of
       [] \<Rightarrow> None
     | (pl, a) # _ \<Rightarrow> Some (On_Failure (Some
         \<lparr>fl_stage = CTEST_STAGE_EXECUTION, fl_description = Some (assert_text pl a),
          fl_location = Some \<lparr>loc_filename = Some (pl_file pl), loc_line = pl_line pl\<rparr>, fl_stacktrace = None\<rparr>)))"
proof -
  have "first_some (\<lambda>(pl, a). assert_failure pl a) body = (case dropWhile (\<lambda>(pl, a). expand pl a = []) body of
       [] \<Rightarrow> None
     | (pl, a) # _ \<Rightarrow> Some \<lparr>fl_stage = CTEST_STAGE_EXECUTION, fl_description = Some (assert_text pl a),
          fl_location = Some \<lparr>loc_filename = Some (pl_file pl), loc_line = pl_line pl\<rparr>, fl_stacktrace = None\<rparr>)"
  proof (induction body)
    case (Cons x body)
    obtain pl a where "x = (pl, a)" by (cases x)
    then show ?case using Cons expand_cases [of pl a] by (auto simp: assert_failure_def assert_text_def)
  qed simp
  moreover have "list_all (\<lambda>(pl, a). expand pl a = []) body \<longleftrightarrow> dropWhile (\<lambda>(pl, a). expand pl a = []) body = []"
    by (simp only: list_all_iff dropWhile_eq_Nil_conv)
  ultimately show ?thesis
    using execute_body [OF expand_all_actions(1) [of body], of hookable fixture_ok oom]
    unfolding expand_all_actions(2,3)
    by (cases "dropWhile (\<lambda>(pl, a). expand pl a = []) body") (simp_all add: end_of_def del: dropWhile_eq_Nil_conv split: prod.split)
qed


end
