(* ===== verification/Testing_Testsuite.thy ===== *)
theory Testing_Testsuite
  imports Heap_Blocks Test_Execution Text_Format
begin

text \<open>
  \<^verbatim>\<open>src/exec/testing_testsuite.c\<close>: the suite that runners and reporters are tried out on. It has one test for
  every nonempty choice of the five kinds of test cases (success, skip, and a failure in each stage). All
  objects with their names and arrays are blocks of the heap, and any allocation may fail.
\<close>

unbundle bit_operations_syntax

section \<open>Definitions\<close>

text \<open>\<^verbatim>\<open>vsnprintfdup\<close>: the formatted text in a block of its own.\<close>

definition vsnprintfdup :: "string \<Rightarrow> block_heap \<Rightarrow> block_heap \<times> (nat \<times> string) option" where
  "vsnprintfdup text h = (case alloc_block h of (h, None) \<Rightarrow> (h, None) | (h, Some b) \<Rightarrow> (h, Some (b, text)))"

subsection \<open>Test cases\<close>

datatype self_ops = Success_Ops | Skip_Ops | Setup_Failure_Ops | Teardown_Failure_Ops | Failure_Ops

record self_testcase =
  sc_block :: nat
  sc_name :: "nat \<times> string"
  sc_ops :: self_ops

definition hook_failure :: "bool \<Rightarrow> ctest_stage_t \<Rightarrow> string \<Rightarrow> cint \<Rightarrow> string \<Rightarrow> ctest_failure option" where
  "hook_failure alloc_ok stage source line text =
     (if alloc_ok
      then Some \<lparr>fl_stage = stage, fl_description = Some text,
                 fl_location = Some \<lparr>loc_filename = Some source, loc_line = line\<rparr>, fl_stacktrace = None\<rparr>
      else None)"

definition numbered_lines :: "string \<Rightarrow> string" where
  "numbered_lines text = concat (map (\<lambda>n. text @ n @ [CHR 0x0A]) [''1'', ''2'', ''3''])"

text \<open>
  Running a test case: what it writes to standard output and to standard error, and how it ends. \<open>source\<close>
  is the name of the source file and \<open>alloc_ok\<close> whether memory for the failure is available.
\<close>

fun self_op_execute :: "string \<Rightarrow> bool \<Rightarrow> self_ops \<Rightarrow> string \<Rightarrow> string \<times> string \<times> ending option" where
  "self_op_execute source alloc_ok Success_Ops name = ([], [], None)"
| "self_op_execute source alloc_ok Skip_Ops name =
     ([], [], Some (On_Skip (hook_failure alloc_ok CTEST_STAGE_SETUP source 85 ''skip test'')))"
| "self_op_execute source alloc_ok Setup_Failure_Ops name =
     (numbered_lines ''STDOUT: setup failure line '', numbered_lines ''STDERR: setup failure line '',
      Some (On_Failure (hook_failure alloc_ok CTEST_STAGE_SETUP source 96
        (''failed to set up '' @ [CHR 0x22] @ name @ [CHR 0x22]))))"
| "self_op_execute source alloc_ok Teardown_Failure_Ops name =
     (numbered_lines ''STDOUT: teardown failure line '', numbered_lines ''STDERR: teardown failure line '',
      Some (On_Failure (hook_failure alloc_ok CTEST_STAGE_TEARDOWN source 107
        (''failed to tear down '' @ [CHR 0x22] @ name @ [CHR 0x22]))))"
| "self_op_execute source alloc_ok Failure_Ops name =
     (numbered_lines ''STDOUT: failure line '', numbered_lines ''STDERR: failure line '',
      Some (On_Failure (hook_failure alloc_ok CTEST_STAGE_EXECUTION source 118
        (''failed to execute '' @ [CHR 0x22] @ name @ [CHR 0x22]))))"

definition self_testcase_destroy :: "self_testcase \<Rightarrow> block_heap \<Rightarrow> block_heap" where
  "self_testcase_destroy c h = free_block (sc_block c) (free_block (fst (sc_name c)) h)"

definition self_testcase_create :: "self_ops \<Rightarrow> string \<Rightarrow> block_heap \<Rightarrow> block_heap \<times> self_testcase option" where
  "self_testcase_create ops text h =
     (case vsnprintfdup text h of
        (h, None) \<Rightarrow> (h, None)
      | (h, Some name) \<Rightarrow>
          (case alloc_block h of
             (h, None) \<Rightarrow> (free_block (fst name) h, None)
           | (h, Some b) \<Rightarrow> (h, Some \<lparr>sc_block = b, sc_name = name, sc_ops = ops\<rparr>)))"

subsection \<open>Tests and suites\<close>

text \<open>A test and a suite are alike: a name, an array, and what has been put into the array so far.\<close>

record 'o self_node =
  sn_block :: nat
  sn_name :: "nat \<times> string"
  sn_array :: nat
  sn_elements :: "'o list"

definition self_node_create :: "string \<Rightarrow> block_heap \<Rightarrow> block_heap \<times> 'o self_node option" where
  "self_node_create text h =
     (case vsnprintfdup text h of
        (h, None) \<Rightarrow> (h, None)
      | (h, Some name) \<Rightarrow>
          (case alloc_block h of
             (h, None) \<Rightarrow> (free_block (fst name) h, None)
           | (h, Some array) \<Rightarrow>
               (case alloc_block h of
                  (h, None) \<Rightarrow> (free_block (fst name) (free_block array h), None)
                | (h, Some b) \<Rightarrow> (h, Some \<lparr>sn_block = b, sn_name = name, sn_array = array, sn_elements = []\<rparr>))))"

definition self_node_destroy :: "('o \<Rightarrow> block_heap \<Rightarrow> block_heap) \<Rightarrow> 'o self_node \<Rightarrow> block_heap \<Rightarrow> block_heap" where
  "self_node_destroy destroy n h =
     (let h = fold destroy (sn_elements n) h;
          h = free_block (sn_array n) h;
          h = free_block (fst (sn_name n)) h
      in free_block (sn_block n) h)"

type_synonym self_test = "self_testcase self_node"
type_synonym self_suite = "self_test self_node"

definition self_test_destroy :: "self_test \<Rightarrow> block_heap \<Rightarrow> block_heap" where
  "self_test_destroy = self_node_destroy self_testcase_destroy"

definition self_suite_destroy :: "self_suite \<Rightarrow> block_heap \<Rightarrow> block_heap" where
  "self_suite_destroy = self_node_destroy self_test_destroy"

definition self_test_create :: "string \<Rightarrow> block_heap \<Rightarrow> block_heap \<times> self_test option" where
  "self_test_create = self_node_create"

definition self_suite_create :: "string \<Rightarrow> block_heap \<Rightarrow> block_heap \<times> self_suite option" where
  "self_suite_create = self_node_create"

definition add_element :: "'o \<Rightarrow> 'o self_node \<Rightarrow> 'o self_node" where
  "add_element x n = n\<lparr>sn_elements := sn_elements n @ [x]\<rparr>"

subsection \<open>Building the suite\<close>

definition self_kinds :: "(string \<times> self_ops) list" where
  "self_kinds = [(''success'', Success_Ops), (''skip'', Skip_Ops), (''setup_failure'', Setup_Failure_Ops),
     (''teardown_failure'', Teardown_Failure_Ops), (''failure'', Failure_Ops)]"

definition test_count :: nat where
  "test_count = push_bit (length self_kinds) 1 - 1"

definition self_testcase_name :: "string \<Rightarrow> nat \<Rightarrow> string \<Rightarrow> string" where
  "self_testcase_name name i kind = ''testcase_'' @ name @ ''_'' @ show_nat (i + 1) @ ''_'' @ kind"

definition self_test_name :: "string \<Rightarrow> nat \<Rightarrow> string" where
  "self_test_name name i = ''test_'' @ name @ ''_'' @ show_nat (i + 1)"

text \<open>
  The inner loop adds the test cases of test number \<open>i\<close>, the outer one the tests. A loop whose allocation
  fails stops with what there is (\<open>False\<close>); the suite is then destroyed as far as it has been built.
\<close>

fun add_testcases ::
  "string \<Rightarrow> nat \<Rightarrow> (nat \<times> string \<times> self_ops) list \<Rightarrow> self_test \<Rightarrow> block_heap \<Rightarrow> block_heap \<times> self_test \<times> bool" where
  "add_testcases name i [] t h = (h, t, True)"
| "add_testcases name i ((k, kind, ops) # ks) t h =
     (if (i + 1) AND push_bit k 1 = 0 then add_testcases name i ks t h
      else case self_testcase_create ops (self_testcase_name name i kind) h of
             (h, None) \<Rightarrow> (h, t, False)
           | (h, Some c) \<Rightarrow> add_testcases name i ks (add_element c t) h)"

fun add_tests :: "string \<Rightarrow> nat list \<Rightarrow> self_suite \<Rightarrow> block_heap \<Rightarrow> block_heap \<times> self_suite \<times> bool" where
  "add_tests name [] s h = (h, s, True)"
| "add_tests name (i # is) s h =
     (case self_test_create (self_test_name name i) h of
        (h, None) \<Rightarrow> (h, s, False)
      | (h, Some t) \<Rightarrow>
          (case add_testcases name i (enumerate 0 self_kinds) t h of
             (h, t, ok) \<Rightarrow> if ok then add_tests name is (add_element t s) h else (h, add_element t s, False)))"

definition ctest_create_testing_testsuite :: "string \<Rightarrow> block_heap \<Rightarrow> block_heap \<times> self_suite option" where
  "ctest_create_testing_testsuite name h =
     (case self_suite_create (''testsuite_'' @ name) h of
        (h, None) \<Rightarrow> (h, None)
      | (h, Some s) \<Rightarrow>
          (case add_tests name [0..<test_count] s h of
             (h, s, True) \<Rightarrow> (h, Some s)
           | (h, s, False) \<Rightarrow> (self_suite_destroy s h, None)))"

section \<open>Ownership\<close>

definition self_testcase_blocks :: "self_testcase \<Rightarrow> nat list" where
  "self_testcase_blocks c = [fst (sc_name c), sc_block c]"

definition node_blocks :: "('o \<Rightarrow> nat list) \<Rightarrow> 'o self_node \<Rightarrow> nat list" where
  "node_blocks blocks n = concat (map blocks (sn_elements n)) @ [sn_array n, fst (sn_name n), sn_block n]"

definition node_for :: "string \<Rightarrow> 'o self_node \<Rightarrow> bool" where
  "node_for text n \<longleftrightarrow> snd (sn_name n) = text \<and> sn_elements n = []"

definition self_testcase_for :: "self_ops \<times> string \<Rightarrow> self_testcase \<Rightarrow> bool" where
  "self_testcase_for k c \<longleftrightarrow> sc_ops c = fst k \<and> snd (sc_name c) = snd k"

lemma vsnprintfdup_grown:
  "vsnprintfdup text h = (h', Some name) \<Longrightarrow> grown [fst name] h h' \<and> snd name = text"
  "vsnprintfdup text h = (h', None) \<Longrightarrow> grown [] h h'"
  by (auto simp: vsnprintfdup_def alloc_grown split: prod.splits option.splits)

lemma vsnprintfdup_total: "hp_oks h = [] \<Longrightarrow> \<exists>h' name. vsnprintfdup text h = (h', Some name) \<and> hp_oks h' = []"
  using alloc_total [of h] by (auto simp: vsnprintfdup_def)

interpretation stc: lifecycle "\<lambda>(ops, text). self_testcase_create ops text" self_testcase_destroy
  self_testcase_blocks self_testcase_for
proof (unfold_locales, goal_cases)
  case (1 h k h' x)
  obtain ops label where k: "k = (ops, label)" by (cases k)
  then obtain h1 name b where "vsnprintfdup label h = (h1, Some name)" "alloc_block h1 = (h', Some b)"
      "x = \<lparr>sc_block = b, sc_name = name, sc_ops = ops\<rparr>"
    using 1(2) by (auto simp: self_testcase_create_def split: prod.splits option.splits)
  with vsnprintfdup_grown(1) [of label h h1 name] grown_trans [of "[fst name]" h h1 "[b]" h'] k show ?case
    by (auto simp: self_testcase_blocks_def self_testcase_for_def alloc_grown)
next
  case (2 h k h')
  obtain ops label where k: "k = (ops, label)" by (cases k)
  obtain h1 res where a: "vsnprintfdup label h = (h1, res)" by (meson surj_pair)
  show ?case
  proof (cases res)
    case (Some name)
    with a have g: "grown [fst name] h h1" using vsnprintfdup_grown(1) by blast
    from 2(2) a k Some obtain h2 where h2: "alloc_block h1 = (h2, None)" "h' = free_block (fst name) h2"
      by (auto simp: self_testcase_create_def split: prod.splits option.splits)
    with grown_trans [OF g alloc_grown(2) [OF h2(1)]] free_one [OF 2(1), of "fst name" "[]" h2] show ?thesis by simp
  qed (use 2 a k vsnprintfdup_grown(2) [of label h h1] in \<open>auto simp: self_testcase_create_def\<close>)
next
  case (3 h k)
  obtain ops label where k: "k = (ops, label)" by (cases k)
  from vsnprintfdup_total [OF 3, of label] obtain h1 name where a: "vsnprintfdup label h = (h1, Some name)" "hp_oks h1 = []" by auto
  with alloc_total [of h1] k show ?case by (auto simp: self_testcase_create_def)
next
  case (4 x h)
  with free_all_shrunk [of "self_testcase_blocks x" h] show ?case
    by (simp add: self_testcase_blocks_def self_testcase_destroy_def)
qed

lemma node_create_grown:
  assumes "heap_ok h" and "self_node_create text h = (h', res)"
  shows "case res of None \<Rightarrow> grown [] h h' | Some n \<Rightarrow> grown (node_blocks blocks n) h h' \<and> node_for text n"
proof -
  obtain h1 r1 where a1: "vsnprintfdup text h = (h1, r1)" by (meson surj_pair)
  obtain h2 r2 where a2: "alloc_block h1 = (h2, r2)" by (meson surj_pair)
  obtain h3 r3 where a3: "alloc_block h2 = (h3, r3)" by (meson surj_pair)
  show ?thesis
  proof (cases r1)
    case None
    with assms(2) a1 vsnprintfdup_grown(2) [of "text" h h1] show ?thesis by (auto simp: self_node_create_def)
  next
    case (Some name)
    with a1 have g1: "grown [fst name] h h1" "snd name = text" using vsnprintfdup_grown(1) by blast+
    note n = Some
    show ?thesis
    proof (cases r2)
      case None
      with grown_trans [OF g1(1) alloc_grown(2)] a2 have "grown [fst name] h h2" by fastforce
      from free_one [OF assms(1) this] assms(2) a1 a2 n None show ?thesis by (auto simp: self_node_create_def)
    next
      case (Some array)
      with grown_trans [OF g1(1) alloc_grown(1)] a2 have g2: "grown [fst name, array] h h2" by fastforce
      note m = Some
      show ?thesis
      proof (cases r3)
        case None
        with grown_trans [OF g2 alloc_grown(2)] a3 have "grown [fst name, array] h h3" by fastforce
        from free_two [OF assms(1) this] assms(2) a1 a2 a3 n m None show ?thesis by (auto simp: self_node_create_def)
      next
        case (Some b)
        with grown_trans [OF g2 alloc_grown(1)] a3 have "grown [fst name, array, b] h h3" by fastforce
        then have "grown [array, fst name, b] h h3" by (auto simp: grown_def)
        with assms(2) a1 a2 a3 n m g1(2) Some show ?thesis
          by (auto simp: self_node_create_def node_blocks_def node_for_def)
      qed
    qed
  qed
qed

lemma node_create_total: "hp_oks h = [] \<Longrightarrow> \<exists>h' n. self_node_create text h = (h', Some n) \<and> hp_oks h' = []"
proof -
  assume "hp_oks h = []"
  then obtain h1 name where "vsnprintfdup text h = (h1, Some name)" "hp_oks h1 = []" using vsnprintfdup_total by blast
  moreover then obtain h2 a where "alloc_block h1 = (h2, Some a)" "hp_oks h2 = []" using alloc_total by blast
  moreover then obtain h3 b where "alloc_block h2 = (h3, Some b)" "hp_oks h3 = []" using alloc_total by blast
  ultimately show ?thesis by (simp add: self_node_create_def)
qed

context lifecycle
begin

lemma node_destroy_shrunk:
  assumes "set (node_blocks blocks n) \<subseteq> hp_live h" and "distinct (node_blocks blocks n)"
  shows "shrunk (node_blocks blocks n) h (self_node_destroy destroy n h)"
proof -
  let ?ps = "[sn_array n, fst (sn_name n), sn_block n]" and ?h = "fold destroy (sn_elements n) h"
  have s: "shrunk (all_blocks (sn_elements n)) h ?h"
    using assms by (intro destroy_all_shrunk) (auto simp: node_blocks_def)
  then have "set ?ps \<subseteq> hp_live ?h" "distinct ?ps" using assms by (auto simp: shrunk_def node_blocks_def)
  from shrunk_trans [OF s free_all_shrunk [OF this]] show ?thesis
    by (simp add: self_node_destroy_def node_blocks_def)
qed

text \<open>Nodes over objects with a lifecycle have one.\<close>

lemma node_lifecycle: "lifecycle self_node_create (self_node_destroy destroy) (node_blocks blocks) node_for"
  by (unfold_locales) (use node_create_grown node_create_total node_destroy_shrunk in fastforce)+

lemma node_add_grown:
  assumes "grown (node_blocks blocks n) h0 h" and "grown (blocks x) h h'"
  shows "grown (node_blocks blocks (add_element x n)) h0 h'"
  by (rule grown_perm [OF grown_trans [OF assms]])
    (use grown_distinct [OF grown_trans [OF assms]] in \<open>auto simp: node_blocks_def add_element_def\<close>)

end

interpretation stt: lifecycle self_test_create self_test_destroy "node_blocks self_testcase_blocks" node_for
  unfolding self_test_create_def self_test_destroy_def by (rule stc.node_lifecycle)

interpretation sts: lifecycle self_suite_create self_suite_destroy "node_blocks (node_blocks self_testcase_blocks)" node_for
  unfolding self_suite_create_def self_suite_destroy_def by (rule stt.node_lifecycle)


section \<open>The suite that is built\<close>

abbreviation suite_blocks_of :: "self_suite \<Rightarrow> nat list" where
  "suite_blocks_of \<equiv> node_blocks (node_blocks self_testcase_blocks)"

definition testcase_view :: "self_testcase \<Rightarrow> string \<times> self_ops" where
  "testcase_view c = (snd (sc_name c), sc_ops c)"

definition test_view :: "self_test \<Rightarrow> string \<times> (string \<times> self_ops) list" where
  "test_view t = (snd (sn_name t), map testcase_view (sn_elements t))"

text \<open>The test cases of the test number \<open>i\<close>: those whose bit is set in its number.\<close>

definition chosen :: "string \<Rightarrow> nat \<Rightarrow> (nat \<times> string \<times> self_ops) list \<Rightarrow> (string \<times> self_ops) list" where
  "chosen name i ks =
     map (\<lambda>(k, kind, ops). (self_testcase_name name i kind, ops)) (filter (\<lambda>(k, kind, ops). bit (i + 1) k) ks)"

definition expected_test :: "string \<Rightarrow> nat \<Rightarrow> string \<times> (string \<times> self_ops) list" where
  "expected_test name i = (self_test_name name i, chosen name i (enumerate 0 self_kinds))"

lemma and_push_bit: "(n AND push_bit k 1 = 0) = (\<not> bit n k)" for n :: nat
proof -
  have "n AND push_bit k 1 = (if bit n k then 2 ^ k else 0)"
    by (rule bit_eqI) (auto simp: bit_and_iff bit_push_bit_iff bit_1_iff bit_exp_iff)
  then show ?thesis by simp
qed

lemma add_testcases_outcome:
  assumes "heap_ok h0" and "grown (node_blocks self_testcase_blocks t) h0 h"
    and "add_testcases name i ks t h = (h', t', ok)"
  shows "grown (node_blocks self_testcase_blocks t') h0 h' \<and> sn_name t' = sn_name t \<and>
    (ok \<longrightarrow> map testcase_view (sn_elements t') = map testcase_view (sn_elements t) @ chosen name i ks) \<and>
    (hp_oks h = [] \<longrightarrow> ok \<and> hp_oks h' = [])"
  using assms(2,3)
proof (induction ks arbitrary: t h)
  case (Cons x ks)
  obtain k kind ops where x: "x = (k, kind, ops)" by (cases x)
  let ?label = "self_testcase_name name i kind"
  show ?case
  proof (cases "bit (i + 1) k")
    case False
    then have "add_testcases name i ks t h = (h', t', ok)"
      using Cons.prems(2) and_push_bit [of "i + 1" k] by (simp add: x)
    from Cons.IH [OF Cons.prems(1) this] show ?thesis using False by (simp add: x chosen_def)
  next
    case True
    then have set: "(i + 1) AND push_bit k 1 \<noteq> 0" using and_push_bit [of "i + 1" k] by simp
    obtain h1 r where c: "self_testcase_create ops ?label h = (h1, r)" by (meson surj_pair)
    have ok: "heap_ok h" using grown_ok [OF assms(1) Cons.prems(1)] .
    show ?thesis
    proof (cases r)
      case None
      with stc.create_none [OF ok, of "(ops, ?label)" h1] c have "grown [] h h1" by simp
      with grown_trans [OF Cons.prems(1)] have "grown (node_blocks self_testcase_blocks t) h0 h1" by fastforce
      moreover have "hp_oks h \<noteq> []" using stc.create_total [of h "(ops, ?label)"] c None by auto
      ultimately show ?thesis using Cons.prems(2) set c None by (simp add: x)
    next
      case (Some y)
      with stc.create_some [OF ok, of "(ops, ?label)" h1 y] c
      have y: "grown (self_testcase_blocks y) h h1" "testcase_view y = (?label, ops)"
        by (auto simp: self_testcase_for_def testcase_view_def)
      have "add_testcases name i ks (add_element y t) h1 = (h', t', ok)" using Cons.prems(2) set c Some by (simp add: x)
      note IH = Cons.IH [OF stc.node_add_grown [OF Cons.prems(1) y(1)] this]
      moreover have "hp_oks h1 = []" if "hp_oks h = []" using stc.create_total [OF that, of "(ops, ?label)"] c by auto
      ultimately show ?thesis using True y(2) by (simp add: x chosen_def add_element_def)
    qed
  qed
qed (simp add: chosen_def)

lemma add_tests_outcome:
  assumes "heap_ok h0" and "grown (suite_blocks_of s) h0 h" and "add_tests name is s h = (h', s', ok)"
  shows "grown (suite_blocks_of s') h0 h' \<and> sn_name s' = sn_name s \<and>
    (ok \<longrightarrow> map test_view (sn_elements s') = map test_view (sn_elements s) @ map (expected_test name) is) \<and>
    (hp_oks h = [] \<longrightarrow> ok \<and> hp_oks h' = [])"
  using assms(2,3)
proof (induction "is" arbitrary: s h)
  case (Cons i ks)
  obtain h1 r where c: "self_test_create (self_test_name name i) h = (h1, r)" by (meson surj_pair)
  have okh: "heap_ok h" using grown_ok [OF assms(1) Cons.prems(1)] .
  show ?case
  proof (cases r)
    case None
    with stt.create_none [OF okh] c have "grown [] h h1" by blast
    with grown_trans [OF Cons.prems(1)] have "grown (suite_blocks_of s) h0 h1" by fastforce
    moreover have "hp_oks h \<noteq> []" using stt.create_total [of h "self_test_name name i"] c None by auto
    ultimately show ?thesis using Cons.prems(2) c None by simp
  next
    case (Some t)
    with stt.create_some [OF okh] c have t: "grown (node_blocks self_testcase_blocks t) h h1" "node_for (self_test_name name i) t"
      by blast+
    obtain h2 t' ok' where f: "add_testcases name i (enumerate 0 self_kinds) t h1 = (h2, t', ok')" by (metis surj_pair)
    note out = add_testcases_outcome [OF okh t(1) f]
    then have g: "grown (suite_blocks_of (add_element t' s)) h0 h2"
      by (intro stt.node_add_grown [OF Cons.prems(1)]) simp
    have total: "ok' \<and> hp_oks h2 = []" if "hp_oks h = []"
      using stt.create_total [OF that, of "self_test_name name i"] c out by auto
    show ?thesis
    proof (cases ok')
      case True
      then have "add_tests name ks (add_element t' s) h2 = (h', s', ok)" using Cons.prems(2) c Some f by simp
      moreover have "test_view t' = expected_test name i"
        using out t(2) True by (simp add: test_view_def expected_test_def node_for_def)
      ultimately show ?thesis using Cons.IH [OF g] total by (simp add: add_element_def)
    next
      case False
      with Cons.prems(2) c Some f have "h' = h2" "s' = add_element t' s" "\<not> ok" by simp_all
      with g total False show ?thesis by (auto simp: add_element_def)
    qed
  qed
qed simp


text \<open>The kinds of test cases that the tests of the suite have.\<close>

definition kinds_of :: "nat \<Rightarrow> self_ops list" where
  "kinds_of i = map (\<lambda>(k, kind, ops). ops) (filter (\<lambda>(k, kind, ops). bit (i + 1) k) (enumerate 0 self_kinds))"

lemma kinds_of_expected: "map snd (snd (expected_test name i)) = kinds_of i"
  by (simp add: expected_test_def chosen_def kinds_of_def comp_def case_prod_beta)

lemma kinds_of_all:
  "distinct (map kinds_of [0..<31])" "set (map kinds_of [0..<31]) = set (subseqs (map snd self_kinds)) - {[]}"
  by code_simp+

lemma test_count_31: "test_count = 31"
  by code_simp

lemma suite_given_back:
  assumes "heap_ok h" and "grown (suite_blocks_of s) h h'"
  shows "grown [] h (self_suite_destroy s h')"
  by (rule grown_shrunk [OF assms(1), rotated, OF sts.destroy_shrunk [OF grown_live [OF assms(2)] grown_distinct [OF assms(2)]]])
    (simp add: assms(2))

text \<open>What building the suite gives, with the blocks it takes.\<close>

lemma testing_testsuite_made:
  assumes "heap_ok h" and "ctest_create_testing_testsuite name h = (h', res)"
  shows "case res of
      None \<Rightarrow> hp_oks h \<noteq> [] \<and> grown [] h h'
    | Some s \<Rightarrow> snd (sn_name s) = ''testsuite_'' @ name \<and> map test_view (sn_elements s) = map (expected_test name) [0..<31] \<and>
        grown (suite_blocks_of s) h h'"
proof -
  obtain h1 r where c: "self_suite_create (''testsuite_'' @ name) h = (h1, r)" by (meson surj_pair)
  show ?thesis
  proof (cases r)
    case None
    with sts.create_none [OF assms(1)] sts.create_total [of h "''testsuite_'' @ name"] c assms(2)
    show ?thesis by (fastforce simp: ctest_create_testing_testsuite_def)
  next
    case (Some s0)
    with sts.create_some [OF assms(1)] c have s0: "grown (suite_blocks_of s0) h h1" "node_for (''testsuite_'' @ name) s0" by blast+
    obtain h2 s ok where a: "add_tests name [0..<31] s0 h1 = (h2, s, ok)" by (metis surj_pair)
    note out = add_tests_outcome [OF assms(1) s0(1) a]
    then have g: "grown (suite_blocks_of s) h h2" by simp
    note made = assms(2) [unfolded ctest_create_testing_testsuite_def c Some test_count_31 prod.case option.case a]
    show ?thesis
    proof (cases ok)
      case True
      with made out s0(2) g show ?thesis by (auto simp: node_for_def)
    next
      case False
      then have "hp_oks h \<noteq> []" using sts.create_total [of h "''testsuite_'' @ name"] c out by auto
      with made False suite_given_back [OF assms(1) g] show ?thesis by auto
    qed
  qed
qed

lemma test_view_kinds:
  "map test_view ts = map (expected_test name) is \<Longrightarrow> map (\<lambda>t. map sc_ops (sn_elements t)) ts = map kinds_of is"
proof -
  assume v: "map test_view ts = map (expected_test name) is"
  have "map (\<lambda>t. map sc_ops (sn_elements t)) ts = map (\<lambda>v. map snd (snd v)) (map test_view ts)"
    by (simp add: test_view_def testcase_view_def)
  also have "\<dots> = map kinds_of is" by (simp only: v map_map comp_def kinds_of_expected)
  finally show ?thesis .
qed

section \<open>Properties\<close>

text \<open>
  C24: The suite for trying out runners and reporters has 31 tests, one for every nonempty choice among the five
  kinds of test cases, each with its test cases in the order of the kinds and with the names the numbering
  gives them. If memory runs out at any point of building it, what has been built is released and nothing
  else; and destroying the suite releases every block of it exactly once.
\<close>

theorem testing_testsuite_lifecycle:
  assumes "heap_ok h" and "ctest_create_testing_testsuite name h = (h', res)"
  shows "case res of
      None \<Rightarrow> hp_oks h \<noteq> [] \<and> hp_live h' = hp_live h \<and> hp_bad h' = hp_bad h
    | Some s \<Rightarrow>
        snd (sn_name s) = ''testsuite_'' @ name \<and> map test_view (sn_elements s) = map (expected_test name) [0..<31] \<and>
        distinct (map (\<lambda>t. map sc_ops (sn_elements t)) (sn_elements s)) \<and>
        set (map (\<lambda>t. map sc_ops (sn_elements t)) (sn_elements s)) = set (subseqs (map snd self_kinds)) - {[]} \<and>
        hp_live (self_suite_destroy s h') = hp_live h \<and> hp_bad (self_suite_destroy s h') = hp_bad h"
proof (cases res)
  case None
  with testing_testsuite_made [OF assms] show ?thesis by (simp add: grown_def)
next
  case (Some s)
  with testing_testsuite_made [OF assms] have
    made: "snd (sn_name s) = ''testsuite_'' @ name" "map test_view (sn_elements s) = map (expected_test name) [0..<31]"
      "grown (suite_blocks_of s) h h'"
    by simp_all
  from suite_given_back [OF assms(1) made(3)]
  have "hp_live (self_suite_destroy s h') = hp_live h" "hp_bad (self_suite_destroy s h') = hp_bad h"
    by (simp_all add: grown_def)
  with made(1,2) test_view_kinds [OF made(2)] kinds_of_all Some show ?thesis
    by (simp only: option.case)
qed

theorem testing_testsuite_lifecycle_witness:
  "\<exists>h' s. ctest_create_testing_testsuite ''x'' \<lparr>hp_next = 0, hp_live = {}, hp_oks = [], hp_bad = False\<rparr> = (h', Some s) \<and>
     test_view (sn_elements s ! 4) = (''test_x_5'', [(''testcase_x_5_success'', Success_Ops), (''testcase_x_5_setup_failure'', Setup_Failure_Ops)])"
proof -
  let ?h = "\<lparr>hp_next = 0, hp_live = {}, hp_oks = [], hp_bad = False\<rparr>"
  obtain h' res where c: "ctest_create_testing_testsuite ''x'' ?h = (h', res)" by (meson surj_pair)
  have "heap_ok ?h" by (simp add: heap_ok_def)
  note life = testing_testsuite_lifecycle [OF this c]
  then obtain s where s: "res = Some s" "map test_view (sn_elements s) = map (expected_test ''x'') [0..<31]"
    by (cases res) auto
  then have "length (sn_elements s) = 31" by (metis length_map length_upt diff_zero)
  with arg_cong [OF s(2), of "\<lambda>xs. xs ! 4"] have "test_view (sn_elements s ! 4) = expected_test ''x'' 4" by (simp add: nth_map)
  moreover have "expected_test ''x'' 4 = (''test_x_5'', [(''testcase_x_5_success'', Success_Ops), (''testcase_x_5_setup_failure'', Setup_Failure_Ops)])"
    by code_simp
  ultimately show ?thesis using c s by auto
qed


end
