(* ===== verification/Self_Run.thy ===== *)
theory Self_Run
  imports Testing_Testsuite Runner Console_Reporter
begin

text \<open>
  The suite of \<^verbatim>\<open>testing_testsuite.c\<close> behind the interface of \<^verbatim>\<open>suite.h\<close>, run by the runners it is meant to try out:
  what each of them reports for every test case of it, and what the run returns.
\<close>

section \<open>Definitions\<close>

text \<open>A test points to its suite, and a test case to its test.\<close>

type_synonym self_test_object = "self_suite \<times> self_test"
type_synonym self_testcase_object = "self_suite \<times> self_test \<times> self_testcase"

definition test_op_get_testsuite :: "self_test_object \<Rightarrow> self_suite" where
  "test_op_get_testsuite = (\<lambda>(testsuite, test). testsuite)"

definition testcase_op_get_test :: "self_testcase_object \<Rightarrow> self_test_object" where
  "testcase_op_get_test = (\<lambda>(testsuite, test, testcase). (testsuite, test))"

definition testsuite_op_get_tests :: "self_suite \<Rightarrow> self_test_object list" where
  "testsuite_op_get_tests testsuite = map (Pair testsuite) (sn_elements testsuite)"

definition test_op_get_testcases :: "self_test_object \<Rightarrow> self_testcase_object list" where
  "test_op_get_testcases = (\<lambda>(testsuite, test). map (\<lambda>testcase. (testsuite, test, testcase)) (sn_elements test))"

definition self_suite_ops :: "(self_suite, self_test_object, self_testcase_object) suite_ops" where
  "self_suite_ops =
     \<lparr>get_testsuite = test_op_get_testsuite, get_test = testcase_op_get_test, get_tests = testsuite_op_get_tests,
      get_testcases = test_op_get_testcases\<rparr>"

definition testsuite_op_get_name :: "self_suite \<Rightarrow> string" where
  "testsuite_op_get_name testsuite = snd (sn_name testsuite)"

definition testcase_op_get_name :: "self_testcase_object \<Rightarrow> string" where
  "testcase_op_get_name = (\<lambda>(testsuite, test, testcase). snd (sc_name testcase))"

definition self_names :: "(self_suite, self_testcase_object) name_ops" where
  "self_names = \<lparr>get_testsuite_name = testsuite_op_get_name, get_testcase_name = testcase_op_get_name\<rparr>"

text \<open>
  What the runners see of a test case: the suite has no module, so none of the operations for modules is used, and it
  announces no stage. It writes to its output before it writes to its error stream.
\<close>

definition self_execute ::
  "string \<Rightarrow> bool \<Rightarrow> self_testcase_object \<Rightarrow> dynamic_ops \<times> ending option" where
  "self_execute source alloc_ok c =
     (case self_op_execute source alloc_ok (sc_ops (snd (snd c))) (testcase_op_get_name c) of
        (out, err, ending) \<Rightarrow>
          (\<lparr>dyn_hooked = False, dyn_failure = None, dyn_stage = CTEST_STAGE_SETUP, dyn_teardown = None,
            dyn_abort_type = CTEST_DYNAMIC_OPS_ABORT_NONE, dyn_free_fixture = False, dyn_alloc_ok = alloc_ok,
            dyn_calls = [], dyn_output = map (Pair Stdout) out @ map (Pair Stderr) err\<rparr>, ending))"

section \<open>The test cases of the suite\<close>

lemma suite_wf_self: "suite_wf self_suite_ops"
  by (auto simp: suite_wf_def self_suite_ops_def test_op_get_testsuite_def testcase_op_get_test_def testsuite_op_get_tests_def
      test_op_get_testcases_def)

lemma self_testcases_kinds:
  "map (\<lambda>c. sc_ops (snd (snd c))) (suite_testcases self_suite_ops [s]) =
   concat (map (\<lambda>t. map sc_ops (sn_elements t)) (sn_elements s))"
  by (simp add: suite_testcases_def self_suite_ops_def testsuite_op_get_tests_def test_op_get_testcases_def map_concat comp_def)

text \<open>The kinds of all test cases: each of the five occurs in sixteen tests.\<close>

definition kind_count :: "(self_ops \<Rightarrow> bool) \<Rightarrow> nat" where
  "kind_count P = length (filter P (concat (map kinds_of [0..<31])))"

lemma kind_counts:
  "kind_count (\<lambda>_. True) = 80" "kind_count (\<lambda>k. k \<notin> {Success_Ops, Skip_Ops}) = 48" "kind_count (\<lambda>k. k \<noteq> Success_Ops) = 64"
  by code_simp+

lemma self_testcases_count:
  assumes "heap_ok h" and "ctest_create_testing_testsuite name h = (h', Some s)"
  shows "length (filter (\<lambda>c. P (sc_ops (snd (snd c)))) (suite_testcases self_suite_ops [s])) = kind_count P"
proof -
  from testing_testsuite_made [OF assms] have "map test_view (sn_elements s) = map (expected_test name) [0..<31]" by simp
  from test_view_kinds [OF this]
  have "map (\<lambda>c. sc_ops (snd (snd c))) (suite_testcases self_suite_ops [s]) = concat (map kinds_of [0..<31])"
    by (simp only: self_testcases_kinds)
  then have "kind_count P = length (filter P (map (\<lambda>c. sc_ops (snd (snd c))) (suite_testcases self_suite_ops [s])))"
    by (simp only: kind_count_def)
  then show ?thesis
    by (simp add: filter_map comp_def)
qed

text \<open>What a kind of test case is meant to show: the type of its result and the stage of its failure.\<close>

fun self_expected :: "self_ops \<Rightarrow> ctest_result_type \<times> ctest_stage_t option" where
  "self_expected Success_Ops = (CTEST_RESULT_PASS, None)"
| "self_expected Skip_Ops = (CTEST_RESULT_SKIPPED, Some CTEST_STAGE_SETUP)"
| "self_expected Setup_Failure_Ops = (CTEST_RESULT_FAIL, Some CTEST_STAGE_SETUP)"
| "self_expected Teardown_Failure_Ops = (CTEST_RESULT_FAIL, Some CTEST_STAGE_TEARDOWN)"
| "self_expected Failure_Ops = (CTEST_RESULT_FAIL, Some CTEST_STAGE_EXECUTION)"

definition shows_kind :: "bool \<Rightarrow> self_ops \<Rightarrow> ctest_result \<Rightarrow> bool" where
  "shows_kind alloc_ok kind result \<longleftrightarrow>
     res_type result = fst (self_expected kind) \<and>
     map_option fl_stage (res_failure result) = (if alloc_ok then snd (self_expected kind) else None)"

lemma self_outcomes:
  assumes "exec = self_execute source alloc_ok"
  shows "shows_kind alloc_ok (sc_ops (snd (snd c))) (fst (isolated_outcome cenv penv exec c))"
    and "shows_kind alloc_ok (sc_ops (snd (snd c))) (fst (direct_outcome denv exec c))"
  by (cases "sc_ops (snd (snd c))";
      simp add: assms shows_kind_def isolated_outcome_def direct_outcome_def self_execute_def reported_result_def reported_type_def
        reported_failure_def child_status_of_def child_failure_def hook_failure_def direct_reported_def)+

lemma self_endings:
  "reported_type cenv (snd (self_execute source alloc_ok c)) = CTEST_RESULT_FAIL \<longleftrightarrow>
     sc_ops (snd (snd c)) \<notin> {Success_Ops, Skip_Ops}"
  "snd (self_execute source alloc_ok c) \<noteq> None \<longleftrightarrow> sc_ops (snd (snd c)) \<noteq> Success_Ops"
  by (cases "sc_ops (snd (snd c))"; simp add: self_execute_def reported_type_def)+


text \<open>The failures of the suite fit into an event, if the names of the source file and of the test case are short enough.\<close>

lemma cstring_append [simp]: "cstring (xs @ ys) \<longleftrightarrow> cstring xs \<and> cstring ys"
  by (auto simp: cstring_def)

lemma self_failures_fit:
  assumes "cstring source" and "cstring (testcase_op_get_name c)" and "length source + length (testcase_op_get_name c) < 60000"
  shows "opt_all (\<lambda>f. event_ok (Failure_Event f)) (child_failure cenv d (snd (self_execute source alloc_ok c)))"
  using assms
  by (cases "sc_ops (snd (snd c))")
    (auto simp: self_execute_def child_failure_def hook_failure_def failure_wf_def location_wf_def failure_bytes_def loc_end_def
      location_bytes_def loc_ofs_def desc_bytes_def align8_def cstring_def)

lemma self_testcase_names:
  assumes "heap_ok h" and "ctest_create_testing_testsuite name h = (h', Some s)"
  shows "map testcase_op_get_name (suite_testcases self_suite_ops [s]) =
    concat (map (\<lambda>i. map fst (snd (expected_test name i))) [0..<31])"
proof -
  from testing_testsuite_made [OF assms] have v: "map test_view (sn_elements s) = map (expected_test name) [0..<31]" by simp
  have "map testcase_op_get_name (suite_testcases self_suite_ops [s]) =
      concat (map (\<lambda>v. map fst (snd v)) (map test_view (sn_elements s)))"
    by (simp add: suite_testcases_def self_suite_ops_def testsuite_op_get_tests_def test_op_get_testcases_def map_concat comp_def
        test_view_def testcase_view_def testcase_op_get_name_def)
  also have "\<dots> = concat (map (\<lambda>i. map fst (snd (expected_test name i))) [0..<31])"
    by (simp only: v map_map comp_def)
  finally show ?thesis .
qed

text \<open>The numbers the runners return for the suite.\<close>

lemma self_suite_counts:
  assumes "heap_ok h" and "ctest_create_testing_testsuite name h = (h', Some s)" and "su_execute su = self_execute source alloc_ok"
    and "surroundings_ok su proc (set (suite_testcases self_suite_ops [s]))" and "always_replies ops"
  shows "ctest_create_forking_runner su self_suite_ops h1 = (h2, Some runner) \<Longrightarrow>
      snd (ctest_runner_run_testsuites runner ops (Done (proc, r)) [s]) = 48"
    and "ctest_create_direct_runner su self_suite_ops h1 = (h2, Some runner) \<Longrightarrow>
      snd (ctest_runner_run_testsuites runner ops (Done (proc, r)) [s]) = 64"
proof -
  note counts = self_testcases_count [OF assms(1,2), of "\<lambda>k. k \<notin> {Success_Ops, Skip_Ops}", unfolded kind_counts]
    self_testcases_count [OF assms(1,2), of "\<lambda>k. k \<noteq> Success_Ops", unfolded kind_counts]
  note returned = runners_count [OF suite_wf_self assms(4,5), unfolded returns_count_def Let_def assms(3) self_endings]
  show "ctest_create_forking_runner su self_suite_ops h1 = (h2, Some runner) \<Longrightarrow>
      snd (ctest_runner_run_testsuites runner ops (Done (proc, r)) [s]) = 48"
    using returned(1) [THEN conjunct1, rule_format, OF _ subset_refl, of h1 h2 runner r] counts(1) by simp
  show "ctest_create_direct_runner su self_suite_ops h1 = (h2, Some runner) \<Longrightarrow>
      snd (ctest_runner_run_testsuites runner ops (Done (proc, r)) [s]) = 64"
    using returned(2) [THEN conjunct1, rule_format, OF _ subset_refl, of h1 h2 runner r] counts(2) by simp
qed

end
