(* ===== verification/Tmpdir.thy ===== *)
theory Tmpdir
  imports Test_Execution "HOL-Library.Multiset" "HOL-Library.Sublist"
begin

text \<open>
  \<^verbatim>\<open>src/tests/fixtures/tmpdir.c\<close>: the fixture that gives a test a temporary directory and removes it with
  everything below it. A directory is the list of its entries; which system calls are refused, and in what
  order \<^verbatim>\<open>readdir\<close> delivers the names, is up to the kernel and a parameter. The loop of \<^verbatim>\<open>deltree\<close> runs until the
  directory is gone and need not end, so it has fuel; that the fuel suffices is proved.
\<close>

section \<open>Definitions\<close>

datatype node = Reg | Dir "(string \<times> node) list"

type_synonym directory = "(string \<times> node) list"

text \<open>
  The kernel, by path: whether a \<^verbatim>\<open>chmod\<close>, \<^verbatim>\<open>rmdir\<close>, \<^verbatim>\<open>opendir\<close> or \<^verbatim>\<open>unlink\<close> is allowed, the names \<^verbatim>\<open>readdir\<close> delivers
  for a directory with these names and the error it ends with, and whether it fills in \<^verbatim>\<open>d_type\<close>.
\<close>

record kernel =
  kn_chmod :: "string \<Rightarrow> bool"
  kn_rmdir :: "string \<Rightarrow> bool"
  kn_opendir :: "string \<Rightarrow> bool"
  kn_unlink :: "string \<Rightarrow> bool"
  kn_readdir :: "string \<Rightarrow> string list \<Rightarrow> string list \<times> int"
  kn_d_type :: bool

definition EPERM :: int where
  "EPERM = 1"

definition ENOENT :: int where
  "ENOENT = 2"

definition EACCES :: int where
  "EACCES = 13"

definition EISDIR :: int where
  "EISDIR = 21"

definition ENOTEMPTY :: int where
  "ENOTEMPTY = 39"

definition sys_rmdir :: "kernel \<Rightarrow> string \<Rightarrow> directory \<Rightarrow> int" where
  "sys_rmdir kn dirname es =
     (if \<not> kn_rmdir kn dirname then EACCES else if es \<noteq> [] then ENOTEMPTY else 0)"

definition remove_entry :: "string \<Rightarrow> directory \<Rightarrow> directory" where
  "remove_entry name es = filter (\<lambda>e. fst e \<noteq> name) es"

definition replace_entry :: "string \<Rightarrow> node \<Rightarrow> directory \<Rightarrow> directory" where
  "replace_entry name x es = map (\<lambda>e. if fst e = name then (name, x) else e) es"

text \<open>
  What a path from a directory through a name leads to: an entry of the directory, the directory itself or the one
  above it, or nothing.
\<close>

datatype found = Entry node | Above | No_Entry

definition lookup_entry :: "string \<Rightarrow> directory \<Rightarrow> found" where
  "lookup_entry name es =
     (if name = ''.'' \<or> name = ''..'' then Above
      else case map_of es name of Some x \<Rightarrow> Entry x | None \<Rightarrow> No_Entry)"

lemma lookup_entry_simps [simp]:
  "name \<noteq> ''.'' \<Longrightarrow> name \<noteq> ''..'' \<Longrightarrow>
    lookup_entry name es = (case map_of es name of Some x \<Rightarrow> Entry x | None \<Rightarrow> No_Entry)"
  by (simp add: lookup_entry_def)

text \<open>
  How a removal goes: the fuel runs out, it goes astray (it starts to remove a directory that is not below the one it
  was given), or it ends with a value.
\<close>

datatype 'a removal = Out_Of_Fuel | Astray | Ended 'a

fun and_then :: "'a removal \<Rightarrow> ('a \<Rightarrow> 'b removal) \<Rightarrow> 'b removal" where
  "and_then Out_Of_Fuel f = Out_Of_Fuel"
| "and_then Astray f = Astray"
| "and_then (Ended x) f = f x"

lemma and_then_Ended: "and_then x f = Ended y \<longleftrightarrow> (\<exists>z. x = Ended z \<and> f z = Ended y)"
  by (cases x) simp_all

text \<open>
  \<^verbatim>\<open>deltree\<close>, the loop that repeats until the directory is gone, and the loop over a directory stream with the names
  still to come. The value is what is left of the directory (\<open>None\<close>: it is gone), the result and \<open>errno\<close>; the fuel is
  the first argument. The names \<^verbatim>\<open>.\<close> and \<^verbatim>\<open>..\<close> are not in the list of entries but they can be looked up: they are
  directories, the directory itself and the one above it, which \<^verbatim>\<open>unlink\<close> refuses and where a recursive call goes
  astray.
\<close>

function deltree ::
  "nat \<Rightarrow> kernel \<Rightarrow> string \<Rightarrow> directory \<Rightarrow> int \<Rightarrow> (directory option \<times> int \<times> int) removal"
  and deltree_while :: "nat \<Rightarrow> kernel \<Rightarrow> string \<Rightarrow> directory \<Rightarrow> int \<Rightarrow> (directory option \<times> int \<times> int) removal"
  and deltree_entries ::
  "nat \<Rightarrow> kernel \<Rightarrow> string \<Rightarrow> string list \<Rightarrow> directory \<Rightarrow> int \<Rightarrow> int \<Rightarrow> (directory \<times> int \<times> int) removal" where
  "deltree n kn dirname es errno =
     deltree_while n kn dirname es (if kn_chmod kn dirname then errno else EPERM)"
| "deltree_while 0 kn dirname es errno = Out_Of_Fuel"
| "deltree_while (Suc n) kn dirname es errno =
     (let rc = sys_rmdir kn dirname es
      in if rc = 0 then Ended (None, 0, errno)
         else if rc \<noteq> ENOTEMPTY then Ended (Some es, -1, rc)
         else if \<not> kn_opendir kn dirname then Ended (Some es, -1, EACCES)
         else let (names, readdir_errno) = kn_readdir kn dirname (map fst es)
              in and_then (deltree_entries n kn dirname names es 0 0) (\<lambda>(es, result, errno).
                   let errno = (if readdir_errno \<noteq> 0 then readdir_errno else errno);
                       result = (if errno \<noteq> 0 then -1 else result)
                   in if result = 0 then deltree_while n kn dirname es errno else Ended (Some es, result, errno)))"
| "deltree_entries n kn dirname [] es result errno = Ended (es, result, errno)"
| "deltree_entries n kn dirname (name # names) es result errno =
     (if name = ''.'' \<or> name = ''..'' then deltree_entries n kn dirname names es result errno
      else let path = dirname @ ''/'' @ name
           in case lookup_entry name es of
                Entry (Dir sub) \<Rightarrow>
                  if kn_d_type kn
                  then and_then (deltree n kn path sub errno) (\<lambda>(rest, rc, errno).
                         deltree_entries n kn dirname names
                           (case rest of None \<Rightarrow> remove_entry name es | Some sub \<Rightarrow> replace_entry name (Dir sub) es)
                           (if rc \<noteq> 0 then -1 else result) errno)
                  else deltree_entries n kn dirname names es (-1) EISDIR
              | Entry Reg \<Rightarrow>
                  if kn_unlink kn path then deltree_entries n kn dirname names (remove_entry name es) result errno
                  else deltree_entries n kn dirname names es (-1) EACCES
              | Above \<Rightarrow>
                  if kn_d_type kn then Astray else deltree_entries n kn dirname names es (-1) EISDIR
              | No_Entry \<Rightarrow> deltree_entries n kn dirname names es (-1) ENOENT)"
  by pat_completeness auto
termination
  by (relation "measures [\<lambda>x. case x of Inl (n, _) \<Rightarrow> n | Inr (Inl (n, _)) \<Rightarrow> n | Inr (Inr (n, _)) \<Rightarrow> n,
        \<lambda>x. case x of Inl _ \<Rightarrow> 1 | Inr (Inl _) \<Rightarrow> 0 | Inr (Inr (n, kn, dirname, names, _)) \<Rightarrow> 2 + length names]")
    auto

declare deltree.simps [simp del]

subsection \<open>The fixture\<close>

definition CTEST_TEMPDIR_PATTERN :: string where
  "CTEST_TEMPDIR_PATTERN = ''/tmp/ctest-XXXXXX''"

text \<open>
  The fixture is its \<^verbatim>\<open>dirname\<close> as a C string. \<open>mkdtemp\<close> says whether the directory could be made and what is
  then in the buffer.
\<close>

definition ctest_tmpdir_init :: "(string \<Rightarrow> bool \<times> string) \<Rightarrow> string \<times> int" where
  "ctest_tmpdir_init mkdtemp =
     (let (ok, dirname) = mkdtemp CTEST_TEMPDIR_PATTERN in (dirname, if \<not> ok then -1 else 0))"

text \<open>The directory at the path of the fixture, if there is one, and what is left of it.\<close>

definition ctest_tmpdir_destroy ::
  "nat \<Rightarrow> kernel \<Rightarrow> string \<Rightarrow> directory option \<Rightarrow> int \<Rightarrow> (string \<times> directory option \<times> int \<times> int) removal" where
  "ctest_tmpdir_destroy n kn dirname found errno =
     (if dirname \<noteq> []
      then case found of
             None \<Rightarrow> Ended ([], None, -1, ENOENT)
           | Some es \<Rightarrow> map_removal (\<lambda>(rest, result, errno). ([], rest, result, errno)) (deltree n kn dirname es errno)
      else Ended (dirname, found, 0, errno))"

definition tmpdir_setup :: "(string \<Rightarrow> bool \<times> string) \<Rightarrow> string \<Rightarrow> action list" where
  "tmpdir_setup mkdtemp reason =
     (if snd (ctest_tmpdir_init mkdtemp) \<noteq> 0
      then [Act_Fail ''tmpdir_fixture'' 65 (''unable to create temporary directory: '' @ reason)] else [])"

definition tmpdir_teardown ::
  "nat \<Rightarrow> kernel \<Rightarrow> (int \<Rightarrow> string) \<Rightarrow> string \<Rightarrow> directory option \<Rightarrow> int \<Rightarrow> action list removal" where
  "tmpdir_teardown n kn strerror dirname found errno =
     map_removal (\<lambda>(dirname, rest, result, errno).
         if result \<noteq> 0
         then [Act_Fail ''tmpdir_fixture'' 73 (''unable to cleanup temporary directory: '' @ strerror errno)] else [])
       (ctest_tmpdir_destroy n kn dirname found errno)"

definition ctest_tmpdir_provider :: "action list \<Rightarrow> action list \<Rightarrow> fixture_provider" where
  "ctest_tmpdir_provider setup teardown = \<lparr>fx_setup = Some setup, fx_teardown = Some teardown, fx_size = 18\<rparr>"

section \<open>Trees\<close>

fun height :: "node \<Rightarrow> nat" where
  "height Reg = 0"
| "height (Dir es) = Suc (fold max (map (\<lambda>(name, x). height x) es) 0)"

fun tree_ok :: "node \<Rightarrow> bool" where
  "tree_ok Reg = True"
| "tree_ok (Dir es) \<longleftrightarrow>
     distinct (map fst es) \<and> list_all (\<lambda>name. name \<noteq> ''.'' \<and> name \<noteq> ''..'') (map fst es) \<and>
     list_all (\<lambda>(name, x). tree_ok x) es"

lemma fold_max_start: "(b :: nat) \<le> fold max xs b"
  by (induction xs arbitrary: b) (simp, metis fold_simps(2) max.cobounded2 order_trans)

lemma fold_max_member: "(x :: nat) \<in> set xs \<Longrightarrow> x \<le> fold max xs b"
proof (induction xs arbitrary: b)
  case (Cons y ys)
  then show ?case
    using fold_max_start [of "max y b" ys] by (cases "x = y") simp_all
qed simp

lemma height_entry: "(name, x) \<in> set es \<Longrightarrow> height x < height (Dir es)"
  using fold_max_member [of "height x" "map (\<lambda>(name, x). height x) es" 0] by (force simp: less_Suc_eq_le)

lemma tree_ok_entry: "tree_ok (Dir es) \<Longrightarrow> (name, x) \<in> set es \<Longrightarrow> tree_ok x"
  by (auto simp: list_all_iff)

section \<open>Removing everything\<close>

text \<open>
  What \<^verbatim>\<open>readdir\<close> promises: the names in some order, each once, and all of them unless it ends with an error. A
  kernel that refuses nothing.
\<close>

definition lists_all :: "kernel \<Rightarrow> bool" where
  "lists_all kn \<longleftrightarrow>
     (\<forall>path names. let (listed, errno) = kn_readdir kn path names; all = mset (''.'' # ''..'' # names)
        in mset listed \<subseteq># all \<and> (errno = 0 \<longrightarrow> mset listed = all))"

definition allows_all :: "kernel \<Rightarrow> bool" where
  "allows_all kn \<longleftrightarrow> kn_d_type kn \<and>
     (\<forall>path. kn_chmod kn path \<and> kn_rmdir kn path \<and> kn_opendir kn path \<and> kn_unlink kn path) \<and>
     (\<forall>path names. snd (kn_readdir kn path names) = 0)"

definition deleted :: "kernel \<Rightarrow> int \<Rightarrow> (directory option \<times> int \<times> int) removal \<Rightarrow> bool" where
  "deleted kn errno x \<longleftrightarrow>
     (\<exists>rest rc errno'. x = Ended (rest, rc, errno') \<and> (rc = 0 \<longleftrightarrow> rest = None) \<and>
        (allows_all kn \<and> errno = 0 \<longrightarrow> rest = None \<and> errno' = 0))"

lemma map_of_remove_entry: "map_of (remove_entry name es) = (map_of es)(name := None)"
  by (induction es) (auto simp: remove_entry_def fun_eq_iff)

lemma map_of_replace_entry: "name' \<noteq> name \<Longrightarrow> map_of (replace_entry name x es) name' = map_of es name'"
  by (induction es) (auto simp: replace_entry_def)

lemma deltree_entries_failed:
  "r \<noteq> 0 \<Longrightarrow> deltree_entries n kn dirname names es r e = Ended (es', r', e') \<Longrightarrow> r' \<noteq> 0"
proof (induction names arbitrary: es r e)
  case (Cons name names)
  have "\<exists>es'' r'' e''. r'' \<noteq> 0 \<and> deltree_entries n kn dirname names es'' r'' e'' = Ended (es', r', e')"
  proof (cases "name = ''.'' \<or> name = ''..''")
    case True
    with Cons.prems show ?thesis by auto
  next
    case False
    note no_dot = this
    consider "map_of es name = None" | "map_of es name = Some Reg" | sub where "map_of es name = Some (Dir sub)"
      by (metis node.exhaust option.exhaust)
    then show ?thesis
    proof cases
      case 1
      with no_dot Cons.prems show ?thesis by auto (metis zero_neq_neg_one)
    next
      case 2
      with no_dot Cons.prems show ?thesis by (auto split: if_splits) (metis zero_neq_neg_one)
    next
      case (3 sub)
      show ?thesis
      proof (cases "kn_d_type kn")
        case True
        with no_dot 3 Cons.prems obtain rest rc err where
          "deltree n kn (dirname @ ''/'' @ name) sub e = Ended (rest, rc, err)"
          "deltree_entries n kn dirname names (case rest of None \<Rightarrow> remove_entry name es
             | Some sub \<Rightarrow> replace_entry name (Dir sub) es) (if rc \<noteq> 0 then -1 else r) err = Ended (es', r', e')"
          by (auto simp: and_then_Ended)
        moreover have "(if rc \<noteq> 0 then -1 else r) \<noteq> 0" using Cons.prems(1) by simp
        ultimately show ?thesis by blast
      next
        case False
        with no_dot 3 Cons.prems show ?thesis by auto (metis zero_neq_neg_one)
      qed
    qed
  qed
  with Cons.IH show ?case by blast
qed simp


definition dots :: "string set" where
  "dots = {''.'', ''..''}"

text \<open>
  What the loop over the stream has done when every subdirectory it meets is handled by \<^verbatim>\<open>deltree\<close>: it has
  ended, a good result says that every name it saw is gone, and the result is good when nothing is refused.
\<close>

definition entries_done ::
  "kernel \<Rightarrow> string list \<Rightarrow> directory \<Rightarrow> int \<Rightarrow> int \<Rightarrow> (directory \<times> int \<times> int) removal \<Rightarrow> bool" where
  "entries_done kn names es r e x \<longleftrightarrow>
     (\<exists>es' r' e'. x = Ended (es', r', e') \<and>
        (r' = 0 \<longrightarrow> es' = filter (\<lambda>entry. fst entry \<notin> set names - dots) es) \<and>
        (allows_all kn \<and> r = 0 \<and> e = 0 \<and> set names - dots \<subseteq> dom (map_of es) \<longrightarrow> r' = 0 \<and> e' = 0))"

lemma entries_done_dot:
  "name \<in> dots \<Longrightarrow> entries_done kn names es r e x \<Longrightarrow> entries_done kn (name # names) es r e x"
  by (auto simp: entries_done_def insert_Diff_if)

lemma entries_done_removed:
  assumes "entries_done kn names (remove_entry name es) r' e' x" and "name \<notin> set names" "name \<notin> dots"
    and "allows_all kn \<and> r = 0 \<and> e = 0 \<longrightarrow> r' = 0 \<and> e' = 0"
  shows "entries_done kn (name # names) es r e x"
proof -
  have "filter (\<lambda>entry. fst entry \<notin> set names - dots) (remove_entry name es) =
      filter (\<lambda>entry. fst entry \<notin> set (name # names) - dots) es"
    using assms(3) by (auto simp: remove_entry_def intro: filter_cong)
  moreover have "set (name # names) - dots \<subseteq> dom (map_of es) \<longrightarrow>
      set names - dots \<subseteq> dom (map_of (remove_entry name es))"
    using assms(2) by (auto simp: map_of_remove_entry)
  ultimately show ?thesis
    using assms(1,4) by (auto simp: entries_done_def)
qed

lemma entries_done_failed:
  assumes "entries_done kn names es' (-1) e' x" and "x = deltree_entries n kn dirname names es' (-1) e'"
    and "allows_all kn \<and> r = 0 \<and> e = 0 \<and> set (name # names) - dots \<subseteq> dom (map_of es) \<longrightarrow> False"
  shows "entries_done kn (name # names) es r e x"
proof -
  obtain es'' r'' e'' where x: "x = Ended (es'', r'', e'')"
    using assms(1) by (auto simp: entries_done_def)
  with assms(2) have "r'' \<noteq> 0"
    using deltree_entries_failed by (metis zero_neq_neg_one)
  then show ?thesis
    using assms(3) x by (auto simp: entries_done_def)
qed

lemma deltree_entries_done:
  assumes "distinct names"
    and "\<And>name sub path e. name \<in> set names \<Longrightarrow> map_of es name = Some (Dir sub) \<Longrightarrow>
      deleted kn e (deltree n kn path sub e)"
  shows "entries_done kn names es r e (deltree_entries n kn dirname names es r e)"
  using assms
proof (induction names arbitrary: es r e)
  case Nil
  then show ?case
    by (simp add: entries_done_def)
next
  case (Cons name names)
  let ?path = "dirname @ ''/'' @ name"
  have other: "name' \<noteq> name" if "name' \<in> set names" for name'
    using that Cons.prems(1) by auto
  have step: "entries_done kn names es' r' e' (deltree_entries n kn dirname names es' r' e')"
    if "\<And>name'. name' \<in> set names \<Longrightarrow> map_of es' name' = map_of es name'" for es' r' e'
    by (rule Cons.IH) (use Cons.prems that in auto)
  have removed: "entries_done kn (name # names) es r e (deltree_entries n kn dirname names (remove_entry name es) r e')"
    if "name \<notin> dots" "allows_all kn \<and> e = 0 \<longrightarrow> e' = 0" for e'
    by (rule entries_done_removed [OF step]) (use that Cons.prems(1) in \<open>auto simp: map_of_remove_entry other\<close>)
  have failed: "entries_done kn (name # names) es r e (deltree_entries n kn dirname names es' (-1) e')"
    if "\<And>name'. name' \<in> set names \<Longrightarrow> map_of es' name' = map_of es name'"
      "\<not> allows_all kn \<or> e \<noteq> 0 \<or> (name \<notin> dots \<and> map_of es name = None)" for es' e'
    by (rule entries_done_failed [OF step refl]) (use that in auto)
  have dir: "entries_done kn (name # names) es r e (deltree_entries n kn dirname (name # names) es r e)"
    if sub: "map_of es name = Some (Dir sub)" and dots: "name \<notin> dots" and d: "kn_d_type kn" for sub
  proof -
    obtain rest rc e' where x: "deltree n kn ?path sub e = Ended (rest, rc, e')" "rc = 0 \<longleftrightarrow> rest = None"
      "allows_all kn \<and> e = 0 \<longrightarrow> rest = None \<and> e' = 0"
      using Cons.prems(2) [of name sub e ?path] sub by (auto simp: deleted_def)
    then show ?thesis
    proof (cases rest)
      case None
      then show ?thesis
        using x sub dots d removed [of e'] by (simp add: dots_def)
    next
      case (Some sub')
      then show ?thesis
        using x sub dots d failed [of "replace_entry name (Dir sub') es" e']
        by (auto simp: dots_def map_of_replace_entry other)
    qed
  qed
  consider "name \<in> dots" | "name \<notin> dots" "map_of es name = None" | "name \<notin> dots" "map_of es name = Some Reg"
    | sub where "name \<notin> dots" "map_of es name = Some (Dir sub)"
    by (metis node.exhaust option.exhaust)
  then show ?case
  proof cases
    case 1
    then show ?thesis
      using entries_done_dot [OF 1 step [of es r e]] by (auto simp: dots_def)
  next
    case 2
    then show ?thesis
      using failed [of es ENOENT] by (auto simp: dots_def)
  next
    case 3
    then show ?thesis
      using removed [of e] failed [of es EACCES] by (auto simp: dots_def allows_all_def)
  next
    case 4
    then show ?thesis
      using dir [OF 4(2,1)] failed [of es EISDIR] by (auto simp: dots_def allows_all_def)
  qed
qed


lemma listed_distinct:
  assumes "mset listed \<subseteq># mset (''.'' # ''..'' # names)" and "distinct names"
    and "list_all (\<lambda>name. name \<noteq> ''.'' \<and> name \<noteq> ''..'') names"
  shows "distinct listed"
proof -
  have "distinct (''.'' # ''..'' # names)"
    using assms(2,3) by (auto simp: list_all_iff)
  then have count: "count (mset (''.'' # ''..'' # names)) x \<le> 1" for x
    by (metis distinct_count_atmost_1 eq_iff zero_le_one)
  show ?thesis
    unfolding distinct_count_atmost_1
  proof (intro allI)
    fix x
    have "count (mset listed) x \<le> 1"
      using count [of x] mset_subset_eq_count [OF assms(1), of x] by linarith
    then show "count (mset listed) x = (if x \<in> set listed then 1 else 0)"
      by (metis count_greater_eq_one_iff count_mset_0_iff le_antisym set_mset_mset)
  qed
qed

lemma deltree_while_done:
  "lists_all kn \<Longrightarrow> tree_ok (Dir es) \<Longrightarrow> height (Dir es) < n \<Longrightarrow> deleted kn e (deltree_while n kn dirname es e)"
proof (induction n arbitrary: dirname es e)
  case (Suc m)
  let ?names = "map fst es"
  obtain listed err where listed: "kn_readdir kn dirname ?names = (listed, err)"
    by fastforce
  have all: "mset listed \<subseteq># mset (''.'' # ''..'' # ?names)" "err = 0 \<longrightarrow> mset listed = mset (''.'' # ''..'' # ?names)"
    using Suc.prems(1) [unfolded lists_all_def Let_def, THEN spec [of _ dirname], THEN spec [of _ ?names]] listed by auto
  have sub: "deleted kn e' (deltree m kn path sub e')" if "map_of es name = Some (Dir sub)" for name sub path e'
  proof -
    have "deleted kn e'' (deltree_while m kn path sub e'')" for e''
      using Suc.IH [OF Suc.prems(1)] Suc.prems(2,3) tree_ok_entry height_entry map_of_SomeD [OF that] by fastforce
    from this [of e'] this [of EPERM] show ?thesis
      by (auto simp: deltree.simps deleted_def allows_all_def)
  qed
  have "entries_done kn listed es 0 0 (deltree_entries m kn dirname listed es 0 0)"
    by (rule deltree_entries_done [OF listed_distinct [OF all(1)] sub]) (use Suc.prems(2) in simp_all)
  then obtain es' r' e' where entries: "deltree_entries m kn dirname listed es 0 0 = Ended (es', r', e')"
    "r' = 0 \<longrightarrow> es' = filter (\<lambda>entry. fst entry \<notin> set listed - dots) es"
    "allows_all kn \<and> set listed - dots \<subseteq> dom (map_of es) \<longrightarrow> r' = 0 \<and> e' = 0"
    unfolding entries_done_def by blast
  have set: "set listed = dots \<union> set ?names" if "err = 0"
    using all(2) that by (metis (no_types, lifting) Un_insert_left dots_def list.set(2) mset_eq_setD sup_bot_left)
  have gone: "es' = []" if "r' = 0" "err = 0"
    using entries(2) that set Suc.prems(2) by (auto simp: filter_empty_conv list_all_iff dots_def)
  have good: "err = 0 \<and> r' = 0 \<and> e' = 0 \<and> kn_rmdir kn dirname \<and> kn_opendir kn dirname" if "allows_all kn"
  proof -
    have "err = 0"
      using that listed unfolding allows_all_def by (metis snd_conv)
    then show ?thesis
      using entries(3) that set by (auto simp: dom_map_of_conv_image_fst allows_all_def)
  qed
  obtain k where "m = Suc k"
    using Suc.prems(3) by (cases m) auto
  with listed entries(1) gone good show ?case
    by (auto simp: deleted_def sys_rmdir_def ENOTEMPTY_def EACCES_def)
qed simp

text \<open>
  C16: \<^verbatim>\<open>deltree\<close> ends on every tree, with one round of fuel per level of directories and one more, whatever system
  calls are refused, when \<^verbatim>\<open>readdir\<close> delivers each name once; it returns 0 exactly when the directory is gone with
  everything below it, and it does so when nothing is refused.
\<close>

theorem deltree_terminates:
  assumes "lists_all kn" and "tree_ok (Dir es)" and "height (Dir es) < n"
  shows "deleted kn errno (deltree n kn dirname es errno)"
  using deltree_while_done [OF assms, of errno dirname] deltree_while_done [OF assms, of EPERM dirname]
  by (auto simp: deltree.simps deleted_def allows_all_def)


definition sample_kernel :: kernel where
  "sample_kernel =
     \<lparr>kn_chmod = (\<lambda>_. True), kn_rmdir = (\<lambda>_. True), kn_opendir = (\<lambda>_. True), kn_unlink = (\<lambda>_. True),
      kn_readdir = (\<lambda>_ names. (''.'' # ''..'' # rev names, 0)), kn_d_type = True\<rparr>"

definition sample_tree :: directory where
  "sample_tree = [(''log'', Reg), (''d'', Dir [(''e'', Dir []), (''f'', Reg)])]"

lemma sample_kernel_ok: "lists_all sample_kernel" "allows_all sample_kernel"
  by (simp_all add: lists_all_def allows_all_def sample_kernel_def Let_def)

theorem deltree_terminates_witness:
  "lists_all sample_kernel \<and> tree_ok (Dir sample_tree) \<and> height (Dir sample_tree) < 4 \<and>
     deltree 4 sample_kernel ''/tmp/ctest-a'' sample_tree 0 = Ended (None, 0, 0)"
proof -
  have *: "tree_ok (Dir sample_tree)" "height (Dir sample_tree) < 4"
    by (simp_all add: sample_tree_def)
  with deltree_terminates [OF sample_kernel_ok(1) *, of 0 "''/tmp/ctest-a''"] show ?thesis
    by (auto simp: deleted_def sample_kernel_ok)
qed

text \<open>
  Where the code gives up on a directory it could remove: one of another owner, whose \<^verbatim>\<open>chmod\<close> fails and leaves
  \<open>errno\<close> for the loop of the directory above, although its \<^verbatim>\<open>rmdir\<close> succeeds; and every directory when \<^verbatim>\<open>readdir\<close>
  does not fill in \<^verbatim>\<open>d_type\<close>.
\<close>

lemma foreign_directory_stops:
  "deltree 4 (sample_kernel\<lparr>kn_chmod := \<lambda>path. path = ''/t''\<rparr>) ''/t'' [(''d'', Dir [])] 0 = Ended (Some [], -1, EPERM)"
  by (simp add: deltree.simps sample_kernel_def eval_nat_numeral sys_rmdir_def ENOTEMPTY_def EACCES_def EPERM_def
      remove_entry_def)

lemma unknown_d_type_stops:
  "deltree 4 (sample_kernel\<lparr>kn_d_type := False\<rparr>) ''/t'' [(''d'', Dir [])] 0 = Ended (Some [(''d'', Dir [])], -1, EISDIR)"
  by (simp add: deltree.simps sample_kernel_def eval_nat_numeral sys_rmdir_def ENOTEMPTY_def EACCES_def EISDIR_def)


section \<open>What is left\<close>

text \<open>A tree is part of another one if some of its entries are gone at any level, and nothing else is changed.\<close>

inductive part_of :: "node \<Rightarrow> node \<Rightarrow> bool" where
  part_Reg: "part_of Reg Reg"
| part_Dir: "list_emb (\<lambda>e' e. fst e' = fst e \<and> part_of (snd e') (snd e)) es' es \<Longrightarrow> part_of (Dir es') (Dir es)"
  monos list_emb_mono

inductive_simps part_of_Reg [simp]: "part_of x Reg"
inductive_simps part_of_Dir: "part_of (Dir es') (Dir es)"
inductive_cases part_of_DirE: "part_of x (Dir es)"

lemma part_of_refl [simp]: "part_of x x"
proof (induction x)
  case (Dir es)
  then show ?case
    unfolding part_of_Dir by (intro list_emb_refl) (auto simp: snds.simps)
qed simp

lemma part_of_trans: "part_of x y \<Longrightarrow> part_of y z \<Longrightarrow> part_of x z"
proof (induction z arbitrary: x y)
  case (Dir es)
  then obtain es1 es2 where d: "x = Dir es1" "y = Dir es2" by (metis part_of_DirE)
  show ?case
    using Dir.prems unfolding d part_of_Dir
    by (rule list_emb_trans [rotated]) (use Dir.IH in \<open>fastforce simp: snds.simps\<close>)
qed auto

lemma subseq_set: "subseq xs ys \<Longrightarrow> set xs \<subseteq> set ys"
  by (induction rule: list_emb.induct) auto

lemma subseq_distinct: "subseq xs ys \<Longrightarrow> distinct ys \<Longrightarrow> distinct xs"
  by (induction rule: list_emb.induct) (auto dest: subseq_set)

lemma part_of_names: "part_of (Dir es') (Dir es) \<Longrightarrow> subseq (map fst es') (map fst es)"
  unfolding part_of_Dir by (induction rule: list_emb.induct) auto

lemma part_of_ok: "part_of x y \<Longrightarrow> tree_ok y \<Longrightarrow> tree_ok x"
proof (induction y arbitrary: x)
  case (Dir es)
  from Dir.prems(1) obtain es' where
    d: "x = Dir es'" "list_emb (\<lambda>e' e. fst e' = fst e \<and> part_of (snd e') (snd e)) es' es"
    by (rule part_of_DirE)
  have names: "subseq (map fst es') (map fst es)"
    using part_of_names Dir.prems(1) d(1) by blast
  have "tree_ok z" if entry: "(name, z) \<in> set es'" for name z
  proof -
    obtain e where "e \<in> set es" "fst (name, z) = fst e \<and> part_of (snd (name, z)) (snd e)"
      by (rule list_emb_set [OF d(2) entry])
    then show ?thesis
      using Dir.IH [of e "snd e" z] Dir.prems(2) by (auto simp: list_all_iff snds.simps)
  qed
  moreover have "distinct (map fst es')" "set (map fst es') \<subseteq> set (map fst es)"
    using subseq_set [OF names] subseq_distinct [OF names] Dir.prems(2) by simp_all
  ultimately show ?case
    using Dir.prems(2) unfolding d(1) tree_ok.simps list_all_iff by blast
qed simp

lemma part_of_remove: "part_of (Dir (remove_entry name es)) (Dir es)"
  unfolding part_of_Dir remove_entry_def by (induction es) auto

lemma part_of_replace:
  assumes "distinct (map fst es)" and "map_of es name = Some y" and "part_of x y"
  shows "part_of (Dir (replace_entry name x es)) (Dir es)"
proof -
  have "part_of (snd (if fst e = name then (name, x) else e)) (snd e)" if "e \<in> set es" for e
    using map_of_is_SomeI [OF assms(1), of name "snd e"] assms(2,3) that by (cases e) auto
  then show ?thesis
    unfolding part_of_Dir replace_entry_def by (induction es) auto
qed

text \<open>What \<^verbatim>\<open>deltree\<close> leaves of a well-formed directory is part of it, and so well-formed.\<close>

definition left_of :: "directory \<Rightarrow> directory \<Rightarrow> bool" where
  "left_of es es' \<longleftrightarrow> (tree_ok (Dir es) \<longrightarrow> tree_ok (Dir es') \<and> part_of (Dir es') (Dir es))"

lemma left_of_refl [simp]: "left_of es es"
  by (simp add: left_of_def)

lemma left_of_trans: "left_of es es' \<Longrightarrow> left_of es' es'' \<Longrightarrow> left_of es es''"
  unfolding left_of_def by (blast intro: part_of_trans)

lemma left_of_remove: "left_of es (remove_entry name es)"
  unfolding left_of_def by (blast intro: part_of_remove part_of_ok)

lemma left_of_replace: "map_of es name = Some (Dir sub) \<Longrightarrow> left_of sub sub' \<Longrightarrow> left_of es (replace_entry name (Dir sub') es)"
  unfolding left_of_def
proof
  assume sub: "map_of es name = Some (Dir sub)" "tree_ok (Dir sub) \<longrightarrow> tree_ok (Dir sub') \<and> part_of (Dir sub') (Dir sub)"
    and ok: "tree_ok (Dir es)"
  from tree_ok_entry [OF ok map_of_SomeD [OF sub(1)]] sub(2) have "part_of (Dir sub') (Dir sub)" by blast
  with part_of_replace [OF _ sub(1)] ok have "part_of (Dir (replace_entry name (Dir sub') es)) (Dir es)" by simp
  with part_of_ok [OF this ok] show "tree_ok (Dir (replace_entry name (Dir sub') es)) \<and>
      part_of (Dir (replace_entry name (Dir sub') es)) (Dir es)" by blast
qed

lemma deltree_left:
  "deltree n kn dirname es e = Ended (Some es', r, e') \<Longrightarrow> left_of es es'"
  "deltree_while n kn dirname es e = Ended (Some es', r, e') \<Longrightarrow> left_of es es'"
  "deltree_entries n kn dirname names es r0 e = Ended (es', r, e') \<Longrightarrow> left_of es es'"
proof (induction n kn dirname es e and n kn dirname es e and n kn dirname names es r0 e arbitrary: es' r e' and es' r e' and es' r e'
    rule: deltree_deltree_while_deltree_entries.induct)
  case (1 n kn dirname es errno)
  then show ?case by (simp add: deltree.simps)
next
  case (2 kn dirname es errno)
  then show ?case by simp
next
  case (3 n kn dirname es errno)
  obtain listed err where l: "kn_readdir kn dirname (map fst es) = (listed, err)" by fastforce
  show ?case
    using 3 by (auto simp: l Let_def and_then_Ended split: if_splits) (metis left_of_trans)
next
  case (4 n kn dirname es result errno)
  then show ?case by simp
next
  case (5 n kn dirname name names es result errno)
  consider "name \<in> dots" | "name \<notin> dots" "map_of es name = None" | "name \<notin> dots" "map_of es name = Some Reg"
    | sub where "name \<notin> dots" "map_of es name = Some (Dir sub)"
    by (metis node.exhaust option.exhaust)
  then show ?case
  proof cases
    case (4 sub)
    show ?thesis
    proof (cases "kn_d_type kn")
      case True
      with "5.prems" 4 obtain rest rc err where x: "deltree n kn (dirname @ ''/'' @ name) sub errno = Ended (rest, rc, err)"
        by (auto simp: dots_def and_then_Ended)
      let ?es = "case rest of None \<Rightarrow> remove_entry name es | Some sub \<Rightarrow> replace_entry name (Dir sub) es"
      have "left_of ?es es'"
        using 5 4 True x by (auto simp: dots_def)
      moreover have "left_of es ?es"
        using 5 4 True x left_of_remove left_of_replace [OF 4(2)] by (cases rest) (auto simp: dots_def)
      ultimately show ?thesis
        by (rule left_of_trans [rotated])
    qed (use 5 4 in \<open>auto simp: dots_def\<close>)
  qed (use 5 in \<open>auto simp: dots_def dest: left_of_trans [OF left_of_remove] split: if_splits\<close>)
qed

text \<open>
  C17: Whatever system calls are refused, \<^verbatim>\<open>deltree\<close> stays inside the directory it is given: it never starts on the
  directory above or on the directory itself by way of the names \<^verbatim>\<open>..\<close> and \<^verbatim>\<open>.\<close> that \<^verbatim>\<open>readdir\<close> delivers with the
  others (it ends, and not astray), and what it leaves of a well-formed directory is a well-formed directory again and
  part of the one that was there: entries are removed at any level, but none is added, renamed or turned into another
  kind.
\<close>

theorem deltree_leaves_part:
  assumes "lists_all kn" and "tree_ok (Dir es)" and "height (Dir es) < n"
  shows "\<exists>rest result errno'. deltree n kn dirname es errno = Ended (rest, result, errno') \<and>
    (case rest of None \<Rightarrow> True | Some es' \<Rightarrow> tree_ok (Dir es') \<and> part_of (Dir es') (Dir es))"
proof -
  obtain rest result errno' where run: "deltree n kn dirname es errno = Ended (rest, result, errno')"
    using deltree_while_done [OF assms, of "if kn_chmod kn dirname then errno else EPERM" dirname]
    by (auto simp: deltree.simps deleted_def)
  moreover have "tree_ok (Dir es') \<and> part_of (Dir es') (Dir es)" if "rest = Some es'" for es'
    using deltree_left(1) [of n kn dirname es errno es' result errno'] run that assms(2) by (simp add: left_of_def)
  ultimately show ?thesis by (auto split: option.split)
qed

theorem deltree_leaves_part_witness:
  "let kn = sample_kernel\<lparr>kn_unlink := \<lambda>path. path \<noteq> ''/t/d/f''\<rparr>; es' = [(''d'', Dir [(''f'', Reg)])]
   in deltree 4 kn ''/t'' sample_tree 0 = Ended (Some es', -1, EACCES) \<and> tree_ok (Dir es') \<and> part_of (Dir es') (Dir sample_tree)"
proof -
  let ?kn = "sample_kernel\<lparr>kn_unlink := \<lambda>path. path \<noteq> ''/t/d/f''\<rparr>"
  have ok: "lists_all ?kn" "tree_ok (Dir sample_tree)" "height (Dir sample_tree) < 4"
    by (simp_all add: sample_tree_def lists_all_def sample_kernel_def)
  have run: "deltree 4 ?kn ''/t'' sample_tree 0 = Ended (Some [(''d'', Dir [(''f'', Reg)])], -1, EACCES)"
    by (simp add: deltree.simps sample_kernel_def sample_tree_def eval_nat_numeral sys_rmdir_def ENOTEMPTY_def EACCES_def
        remove_entry_def replace_entry_def)
  from deltree_leaves_part [OF ok, of "''/t''" 0] run show ?thesis by (simp add: Let_def)
qed

section \<open>The fixture around a test\<close>

text \<open>
  A test that finds its directory made and leaves a tree that may be removed gets no failure from the fixture: the
  provider then has the functions that do nothing.
\<close>

lemma tmpdir_fixture_silent:
  assumes "fst (mkdtemp CTEST_TEMPDIR_PATTERN)" and "lists_all kn" "allows_all kn" "tree_ok (Dir es)"
    "height (Dir es) < n"
  shows "tmpdir_setup mkdtemp reason = []" "tmpdir_teardown n kn strerror dirname (Some es) 0 = Ended []"
proof -
  show "tmpdir_setup mkdtemp reason = []"
    using assms(1) by (auto simp: tmpdir_setup_def ctest_tmpdir_init_def split: prod.splits)
  have "deleted kn 0 (deltree n kn dirname es 0)"
    using deltree_while_done [OF assms(2,4,5)] assms(3) by (simp add: deltree.simps allows_all_def)
  then show "tmpdir_teardown n kn strerror dirname (Some es) 0 = Ended []"
    using assms(3) by (cases dirname) (auto simp: tmpdir_teardown_def ctest_tmpdir_destroy_def deleted_def)
qed

text \<open>
  When \<^verbatim>\<open>mkdtemp\<close> fails, the pattern is still in the fixture: the teardown that follows looks for a directory of that
  name, fails on its own when there is none, and removes the tree of whoever has one.
\<close>

lemma tmpdir_failed_setup:
  assumes "mkdtemp CTEST_TEMPDIR_PATTERN = (False, CTEST_TEMPDIR_PATTERN)"
  shows "fst (ctest_tmpdir_init mkdtemp) = CTEST_TEMPDIR_PATTERN" "length (tmpdir_setup mkdtemp reason) = 1"
    "tmpdir_teardown n kn strerror CTEST_TEMPDIR_PATTERN None errno =
       Ended [Act_Fail ''tmpdir_fixture'' 73 (''unable to cleanup temporary directory: '' @ strerror ENOENT)]"
    "lists_all kn \<Longrightarrow> allows_all kn \<Longrightarrow> tree_ok (Dir es) \<Longrightarrow> height (Dir es) < n \<Longrightarrow>
       map_removal (fst \<circ> snd) (ctest_tmpdir_destroy n kn CTEST_TEMPDIR_PATTERN (Some es) 0) = Ended None"
proof -
  show "map_removal (fst \<circ> snd) (ctest_tmpdir_destroy n kn CTEST_TEMPDIR_PATTERN (Some es) 0) = Ended None"
    if kn: "lists_all kn" "allows_all kn" and es: "tree_ok (Dir es)" "height (Dir es) < n"
  proof -
    have "deleted kn 0 (deltree n kn CTEST_TEMPDIR_PATTERN es 0)"
      using deltree_while_done [OF kn(1) es] kn(2) by (simp add: deltree.simps allows_all_def)
    then show ?thesis
      using kn(2) by (auto simp: ctest_tmpdir_destroy_def deleted_def CTEST_TEMPDIR_PATTERN_def)
  qed
qed (use assms in \<open>simp_all add: tmpdir_setup_def tmpdir_teardown_def ctest_tmpdir_init_def ctest_tmpdir_destroy_def
      CTEST_TEMPDIR_PATTERN_def\<close>)


end
