(* ===== verification/Declarations.thy ===== *)
theory Declarations
  imports Loader Tmpdir
begin

text \<open>
  \<^verbatim>\<open>include/ctest/tests/tests.h\<close>: the macros a test module is written with, as functions to the definitions that
  the module exports, and what the loader makes of them.
\<close>

section \<open>Definitions\<close>

text \<open>
  \<^verbatim>\<open>CT_DATA\<close>: a static array of elements of one size at some address. A pointer to an element reads that element;
  any other pointer has no meaning.
\<close>

record 'd ct_data =
  da_base :: addr
  da_size :: size_t
  da_elems :: "'d list"

definition element_at :: "'d ct_data \<Rightarrow> addr \<Rightarrow> 'd option" where
  "element_at dat vd =
     (let index = unat (vd - da_base dat) div unat (da_size dat)
      in if index < length (da_elems dat) then Some (da_elems dat ! index) else None)"

definition CT_DATA_PROVIDER :: "'d ct_data \<Rightarrow> ('d \<Rightarrow> string) \<Rightarrow> data_provider" where
  "CT_DATA_PROVIDER dat fmt =
     \<lparr>dp_data = da_base dat, dp_count = length (da_elems dat), dp_size = da_size dat,
      dp_to_string = (\<lambda>data. case element_at dat data of Some d \<Rightarrow> fmt d | None \<Rightarrow> [])\<rparr>"

definition CT_FIXTURE :: "action list \<Rightarrow> action list \<Rightarrow> size_t \<Rightarrow> fixture_provider" where
  "CT_FIXTURE setup teardown sz = \<lparr>fx_setup = Some setup, fx_teardown = Some teardown, fx_size = sz\<rparr>"

definition CTEST_TEST_DEF ::
  "string \<Rightarrow> (addr \<Rightarrow> action list) \<Rightarrow> fixture_provider option \<Rightarrow> data_provider option \<Rightarrow> test_def" where
  "CTEST_TEST_DEF name caller fixture data =
     \<lparr>td_name = name, td_caller = caller, td_fixture_provider = fixture, td_data_provider = data\<rparr>"

definition CT_TEST :: "string \<Rightarrow> action list \<Rightarrow> test_def" where
  "CT_TEST name test = CTEST_TEST_DEF name (\<lambda>vd. test) None None"

text \<open>The function of the test gets the datum its \<^verbatim>\<open>void\<close> pointer is cast to.\<close>

definition caller_with_data :: "'d ct_data \<Rightarrow> ('d \<Rightarrow> action list) \<Rightarrow> addr \<Rightarrow> action list" where
  "caller_with_data dat test vd = (case element_at dat vd of Some d \<Rightarrow> test d | None \<Rightarrow> [])"

definition CT_TEST_WITH_DATA :: "string \<Rightarrow> 'd ct_data \<Rightarrow> ('d \<Rightarrow> string) \<Rightarrow> ('d \<Rightarrow> action list) \<Rightarrow> test_def" where
  "CT_TEST_WITH_DATA name dat fmt test =
     CTEST_TEST_DEF name (caller_with_data dat test) None (Some (CT_DATA_PROVIDER dat fmt))"

definition CT_TEST_WITH_FIXTURE :: "string \<Rightarrow> fixture_provider \<Rightarrow> action list \<Rightarrow> test_def" where
  "CT_TEST_WITH_FIXTURE name fixture test = CTEST_TEST_DEF name (\<lambda>vd. test) (Some fixture) None"

definition CT_TEST_WITH_FIXTURE_AND_DATA ::
  "string \<Rightarrow> fixture_provider \<Rightarrow> 'd ct_data \<Rightarrow> ('d \<Rightarrow> string) \<Rightarrow> ('d \<Rightarrow> action list) \<Rightarrow> test_def" where
  "CT_TEST_WITH_FIXTURE_AND_DATA name fixture dat fmt test =
     CTEST_TEST_DEF name (caller_with_data dat test) (Some fixture) (Some (CT_DATA_PROVIDER dat fmt))"

definition CT_SUITE :: "string \<Rightarrow> test_def list \<Rightarrow> suite_def" where
  "CT_SUITE name tests =
     \<lparr>sd_magic = CTEST_SUITE_MAGIC, sd_version = CTEST_SUITE_VERSION, sd_name = name, sd_tests = tests\<rparr>"

section \<open>What a declaration means\<close>

text \<open>
  A declaration stands for a list of test cases, each with its name, its fixture and what it does. The four
  forms of a test, and the definition each expands to.
\<close>

datatype 'd test_decl =
    Plain string "action list"
  | With_Data string "'d ct_data" "'d \<Rightarrow> string" "'d \<Rightarrow> action list"
  | With_Fixture string fixture_provider "action list"
  | With_Fixture_And_Data string fixture_provider "'d ct_data" "'d \<Rightarrow> string" "'d \<Rightarrow> action list"

fun declare_test :: "'d test_decl \<Rightarrow> test_def" where
  "declare_test (Plain name test) = CT_TEST name test"
| "declare_test (With_Data name dat fmt test) = CT_TEST_WITH_DATA name dat fmt test"
| "declare_test (With_Fixture name fixture test) = CT_TEST_WITH_FIXTURE name fixture test"
| "declare_test (With_Fixture_And_Data name fixture dat fmt test) = CT_TEST_WITH_FIXTURE_AND_DATA name fixture dat fmt test"

definition label :: "string \<Rightarrow> string \<Rightarrow> string" where
  "label name datum = (if datum = [] then name else name @ ''['' @ datum @ '']'')"

fun decl_cases :: "'d test_decl \<Rightarrow> (string \<times> fixture_provider option \<times> action list) list" where
  "decl_cases (Plain name test) = [(name, None, test)]"
| "decl_cases (With_Data name dat fmt test) = map (\<lambda>d. (label name (fmt d), None, test d)) (da_elems dat)"
| "decl_cases (With_Fixture name fixture test) = [(name, Some fixture, test)]"
| "decl_cases (With_Fixture_And_Data name fixture dat fmt test) =
     map (\<lambda>d. (label name (fmt d), Some fixture, test d)) (da_elems dat)"

text \<open>Names are C strings; an array has elements of at least a byte and fits in the address space.\<close>

definition data_ok :: "'d ct_data \<Rightarrow> ('d \<Rightarrow> string) \<Rightarrow> bool" where
  "data_ok dat fmt \<longleftrightarrow>
     da_size dat \<noteq> 0 \<and> length (da_elems dat) * unat (da_size dat) \<le> 2 ^ 64 \<and> list_all (cstring \<circ> fmt) (da_elems dat)"

fun decl_ok :: "'d test_decl \<Rightarrow> bool" where
  "decl_ok (Plain name test) \<longleftrightarrow> cstring name"
| "decl_ok (With_Data name dat fmt test) \<longleftrightarrow> cstring name \<and> data_ok dat fmt"
| "decl_ok (With_Fixture name fixture test) \<longleftrightarrow> cstring name"
| "decl_ok (With_Fixture_And_Data name fixture dat fmt test) \<longleftrightarrow> cstring name \<and> data_ok dat fmt"

lemma element_at_data_ptr:
  assumes "da_size dat \<noteq> 0" and "length (da_elems dat) * unat (da_size dat) \<le> 2 ^ 64" and "i < length (da_elems dat)"
  shows "element_at dat (data_ptr (CT_DATA_PROVIDER dat fmt) i) = Some (da_elems dat ! i)"
proof -
  let ?n = "unat (da_size dat)"
  have pos: "0 < ?n"
    using assms(1) by (simp add: unat_gt_0)
  have "i * ?n < length (da_elems dat) * ?n"
    using assms(3) pos by simp
  then have small: "i * ?n < 2 ^ 64"
    using assms(2) by linarith
  have "unat (of_nat i * da_size dat) = i * ?n"
  proof -
    have "of_nat i * da_size dat = (of_nat (i * ?n) :: 64 word)"
      by simp
    then show ?thesis
      using small by (simp only: unat_of_nat) (simp add: take_bit_nat_eq_self)
  qed
  then show ?thesis
    using pos assms(3) by (simp add: element_at_def data_ptr_def CT_DATA_PROVIDER_def)
qed

text \<open>The test cases that the loader makes of a test with data.\<close>

lemma declared_data_cases:
  assumes "test_for def t" and "td_name def = name" "cstring name" and "td_data_provider def = Some (CT_DATA_PROVIDER dat fmt)"
    and "data_ok dat fmt" and "td_caller def = caller_with_data dat test"
  shows "map (\<lambda>c. (tc_name c, td_fixture_provider def, td_caller def (tc_data c))) (te_testcases t) =
    map (\<lambda>d. (label name (fmt d), td_fixture_provider def, test d)) (da_elems dat)"
proof (rule nth_equalityI)
  let ?p = "CT_DATA_PROVIDER dat fmt" and ?n = "length (da_elems dat)"
  have p: "provider_of def = ?p" "dp_count ?p = ?n"
    using assms(4) by (simp_all add: provider_of_def CT_DATA_PROVIDER_def)
  have len: "length (te_testcases t) = ?n"
    and tc: "i < ?n \<Longrightarrow> testcase_for def ?p i (te_testcases t ! i)" for i
    using assms(1) p by (auto simp: test_for_def list_all2_conv_all_nth)
  show "length (map (\<lambda>c. (tc_name c, td_fixture_provider def, td_caller def (tc_data c))) (te_testcases t)) =
      length (map (\<lambda>d. (label name (fmt d), td_fixture_provider def, test d)) (da_elems dat))"
    by (simp add: len)
  fix i
  assume "i < length (map (\<lambda>c. (tc_name c, td_fixture_provider def, td_caller def (tc_data c))) (te_testcases t))"
  then have i: "i < ?n"
    by (simp add: len)
  let ?d = "da_elems dat ! i"
  have at: "element_at dat (data_ptr ?p i) = Some ?d"
    using element_at_data_ptr i assms(5) by (auto simp: data_ok_def)
  have to_string: "dp_to_string ?p (data_ptr ?p i) = fmt ?d"
    unfolding CT_DATA_PROVIDER_def using at by (simp add: CT_DATA_PROVIDER_def)
  have "cstring (fmt ?d)"
    using assms(5) i by (simp add: data_ok_def list_all_length)
  then have "tc_name (te_testcases t ! i) = label name (fmt ?d)" "tc_data (te_testcases t ! i) = data_ptr ?p i"
    using tc [OF i] assms(2,3) to_string by (simp_all add: testcase_for_def testcase_name_def label_def)
  then show "map (\<lambda>c. (tc_name c, td_fixture_provider def, td_caller def (tc_data c))) (te_testcases t) ! i =
      map (\<lambda>d. (label name (fmt d), td_fixture_provider def, test d)) (da_elems dat) ! i"
    using i len at assms(6) by (simp add: caller_with_data_def)
qed

lemma declared_plain_case:
  assumes "test_for def t" and "cstring (td_name def)" and "td_data_provider def = None"
  shows "map (\<lambda>c. (tc_name c, td_fixture_provider def, td_caller def (tc_data c))) (te_testcases t) =
    [(td_name def, td_fixture_provider def, td_caller def NULL)]"
  using assms
  by (auto simp: test_for_def provider_of_def null_data_provider_def list_all2_Cons1 testcase_for_def testcase_name_def
      data_ptr_def cstring_def)

lemmas test_macros = CT_TEST_def CT_TEST_WITH_DATA_def CT_TEST_WITH_FIXTURE_def CT_TEST_WITH_FIXTURE_AND_DATA_def
  CTEST_TEST_DEF_def

lemma declared_cases:
  assumes "test_for (declare_test decl) t" and "decl_ok decl"
  shows "map (\<lambda>c. (tc_name c, td_fixture_provider (te_def t), td_caller (te_def t) (tc_data c))) (te_testcases t) =
    decl_cases decl"
proof -
  have "te_def t = declare_test decl"
    using assms(1) by (simp add: test_for_def)
  then show ?thesis
  proof (cases decl)
    case (With_Data name dat fmt test)
    with assms \<open>te_def t = _\<close> declared_data_cases [OF assms(1), of name dat fmt test] show ?thesis
      by (simp add: test_macros)
  next
    case (With_Fixture_And_Data name fixture dat fmt test)
    with assms \<open>te_def t = _\<close> declared_data_cases [OF assms(1), of name dat fmt test] show ?thesis
      by (simp add: test_macros)
  qed (use assms declared_plain_case [OF assms(1)] in \<open>simp_all add: test_macros\<close>)
qed


section \<open>Loading a declared suite\<close>

text \<open>A module that opens and has the symbols its declarations give it.\<close>

definition declared_module :: "string \<Rightarrow> 'd test_decl list \<Rightarrow> module_env" where
  "declared_module name decls =
     \<lparr>me_dlinit_ok = True, me_advise_ok = True, me_local_ok = True, me_open_ok = True,
      me_suite = Some (CT_SUITE name (map declare_test decls)), me_dynamic_ops = True, me_dlerror = []\<rparr>"

lemma list_all2_mapL:
  assumes "list_all2 P xs ys" and "\<And>x y. x \<in> set xs \<Longrightarrow> P x y \<Longrightarrow> g y = f x"
  shows "map g ys = map f xs"
  using assms by (induction rule: list_all2_induct) auto

lemma declared_loads:
  assumes "heap_ok (ld_heap ld)" and "hp_oks (ld_heap ld) = []" and "list_all decl_ok decls"
  shows "\<exists>ld' s. ctest_load_testsuite junk (declared_module name decls) ld = (ld', Some s) \<and> sd_name (ts_def s) = name \<and>
    map (\<lambda>t. map (\<lambda>c. (tc_name c, testcase_execute alloc_ok fixture_ok oom (s, t, c))) (te_testcases t)) (ts_tests s) =
    map (map (\<lambda>(label, fixture, test). (label, testcase_op_execute True alloc_ok fixture_ok oom fixture test)) \<circ> decl_cases)
      decls"
proof -
  let ?env = "declared_module name decls"
  have "module_ok ?env"
    by (simp add: module_ok_def declared_module_def CT_SUITE_def)
  then obtain ld' s where load: "ctest_load_testsuite junk ?env ld = (ld', Some s)"
    using load_total [OF _ assms(2)] by blast
  have s: "ts_def s = CT_SUITE name (map declare_test decls)" "ts_hookable s"
    and "list_all2 test_for (sd_tests (ts_def s)) (ts_tests s)"
    using load_outcome [OF assms(1) load] by (auto simp: declared_module_def)
  then have tests: "list_all2 (\<lambda>decl. test_for (declare_test decl)) decls (ts_tests s)"
    by (simp add: CT_SUITE_def list_all2_map1)
  have "map (\<lambda>c. (tc_name c, testcase_execute alloc_ok fixture_ok oom (s, t, c))) (te_testcases t) =
      map (\<lambda>(label, fixture, test). (label, testcase_op_execute True alloc_ok fixture_ok oom fixture test)) (decl_cases decl)"
    if "decl \<in> set decls" "test_for (declare_test decl) t" for decl t
    using declared_cases [OF that(2)] that(1) assms(3) s(2)
    by (auto simp: list_all_iff testcase_execute_def simp flip: declared_cases [OF that(2)])
  from list_all2_mapL [OF tests this] load s(1) show ?thesis
    by (simp add: CT_SUITE_def comp_def)
qed


text \<open>
  C15: A test module does what its declarations say. A module whose suite is written with the macros of
  \<^verbatim>\<open>tests.h\<close> is loaded when there is memory, as a suite of the declared name with a test for each declaration in
  order. The test cases of each are the declared ones: a single one of the test's name, or one per element of
  its data, in order, called like the test and the element; executing a test case runs the declared
  function, on that element, between the setup and the teardown of the declared fixture.
\<close>

theorem declared_suite:
  assumes "heap_ok (ld_heap ld)" and "hp_oks (ld_heap ld) = []" and "list_all decl_ok decls"
  shows "\<exists>ld' s. ctest_load_testsuite junk (declared_module name decls) ld = (ld', Some s) \<and> sd_name (ts_def s) = name \<and>
    map (\<lambda>t. map (\<lambda>c. (tc_name c, testcase_execute alloc_ok fixture_ok oom (s, t, c))) (te_testcases t)) (ts_tests s) =
    map (map (\<lambda>(label, fixture, test). (label, testcase_op_execute True alloc_ok fixture_ok oom fixture test)) \<circ> decl_cases)
      decls"
  using assms by (rule declared_loads)

definition sample_decls :: "nat test_decl list" where
  "sample_decls =
     [With_Data ''t'' \<lparr>da_base = 0x1000, da_size = 8, da_elems = [7, 9]\<rparr> (\<lambda>d. if d = 7 then ''seven'' else [])
        (\<lambda>d. if d = 7 then [] else [Act_Fail ''t.c'' 3 ''no'']),
      With_Fixture ''u'' (CT_FIXTURE [] [] 18) []]"

theorem declared_suite_witness:
  "\<exists>ld' s. ctest_load_testsuite CHR ''?'' (declared_module ''s'' sample_decls)
      \<lparr>ld_heap = \<lparr>hp_next = 0, hp_live = {}, hp_oks = [], hp_bad = False\<rparr>, ld_inits = 0, ld_advices = 0, ld_handles = 0,
       ld_stderr = []\<rparr> = (ld', Some s) \<and>
     map (\<lambda>t. map (\<lambda>c. (tc_name c, testcase_execute True True [] (s, t, c))) (te_testcases t)) (ts_tests s) =
     [[(''t[seven]'', testcase_op_execute True True True [] None []),
       (''t'', testcase_op_execute True True True [] None [Act_Fail ''t.c'' 3 ''no''])],
      [(''u'', testcase_op_execute True True True [] (Some (CT_FIXTURE [] [] 18)) [])]]"
    (is "\<exists>ld' s. ctest_load_testsuite _ _ ?ld = _ \<and> _")
proof -
  have "heap_ok (ld_heap ?ld)" "hp_oks (ld_heap ?ld) = []"
    by (simp_all add: heap_ok_def)
  moreover have "list_all decl_ok sample_decls"
    by (simp add: sample_decls_def data_ok_def cstring_def)
  ultimately obtain ld' s where "ctest_load_testsuite CHR ''?'' (declared_module ''s'' sample_decls) ?ld = (ld', Some s)"
    "map (\<lambda>t. map (\<lambda>c. (tc_name c, testcase_execute True True [] (s, t, c))) (te_testcases t)) (ts_tests s) =
     map (map (\<lambda>(label, fixture, test). (label, testcase_op_execute True True True [] fixture test)) \<circ> decl_cases) sample_decls"
    using declared_suite by blast
  then show ?thesis
    by (simp add: sample_decls_def label_def)
qed

end
