(* ===== verification/Romnum.thy ===== *)
theory Romnum
  imports Declarations Asserts
begin

text \<open>
  \<^verbatim>\<open>src/examples/romnum.c\<close> and the suite that tests it, \<^verbatim>\<open>suite_with_data.c\<close>: reading Roman numerals. An encoder is
  defined as the reference, and reading inverts it; where the reader accepts more or less than it should is stated
  on examples.
\<close>

section \<open>Definitions\<close>

record numeral_t =
  nu_value :: int
  nu_max_follows :: int
  nu_max_consecutive :: int
  nu_subtracts_from :: char

definition undef :: numeral_t where
  "undef = \<lparr>nu_value = 0, nu_max_follows = 0, nu_max_consecutive = 0, nu_subtracts_from = NUL\<rparr>"

definition lval :: "char \<Rightarrow> numeral_t option" where
  "lval ch =
     (if ch = CHR ''i'' then Some \<lparr>nu_value = 1, nu_max_follows = 0, nu_max_consecutive = 3, nu_subtracts_from = NUL\<rparr>
      else if ch = CHR ''v'' then Some \<lparr>nu_value = 5, nu_max_follows = 1, nu_max_consecutive = 1, nu_subtracts_from = CHR ''i''\<rparr>
      else if ch = CHR ''x'' then Some \<lparr>nu_value = 10, nu_max_follows = 9, nu_max_consecutive = 3, nu_subtracts_from = CHR ''i''\<rparr>
      else if ch = CHR ''l'' then Some \<lparr>nu_value = 50, nu_max_follows = 10, nu_max_consecutive = 1, nu_subtracts_from = CHR ''x''\<rparr>
      else if ch = CHR ''c'' then Some \<lparr>nu_value = 100, nu_max_follows = 90, nu_max_consecutive = 3, nu_subtracts_from = CHR ''x''\<rparr>
      else if ch = CHR ''d'' then Some \<lparr>nu_value = 500, nu_max_follows = 100, nu_max_consecutive = 1, nu_subtracts_from = CHR ''c''\<rparr>
      else if ch = CHR ''m'' then Some \<lparr>nu_value = 1000, nu_max_follows = 900, nu_max_consecutive = 3, nu_subtracts_from = CHR ''c''\<rparr>
      else None)"

text \<open>
  The loop of \<^verbatim>\<open>rntoi\<close> at the index \<open>i\<close>, with \<open>Suc i\<close> characters still to come. \<open>None\<close>: a null pointer is read.
\<close>

fun rntoi_loop :: "string \<Rightarrow> nat \<Rightarrow> int \<Rightarrow> int \<Rightarrow> int \<Rightarrow> char \<Rightarrow> numeral_t \<Rightarrow> int option" where
  "rntoi_loop input 0 acc value cnt prev_ch prev_numeral = Some acc"
| "rntoi_loop input (Suc i) acc value cnt prev_ch prev_numeral =
     (let ch = tolower (input ! i)
      in if ch = prev_ch
         then let cnt = cnt + 1
              in if cnt > nu_max_consecutive prev_numeral then Some (-1)
                 else rntoi_loop input i (acc + value) value cnt prev_ch prev_numeral
         else case lval ch of
                None \<Rightarrow> Some (-1)
              | Some nu \<Rightarrow>
                  if i > 0 \<and> input ! (i - 1) = nu_subtracts_from nu
                  then (case lval (input ! (i - 1)) of
                          None \<Rightarrow> None
                        | Some before \<Rightarrow>
                            (let value = nu_value nu - nu_value before
                             in rntoi_loop input (i - 1) (acc + value) value 1 NUL undef))
                  else if value \<le> nu_max_follows nu
                  then rntoi_loop input i (acc + nu_value nu) (nu_value nu) 1 ch nu
                  else Some (-1))"

definition rntoi :: "string \<Rightarrow> int option" where
  "rntoi input = (if length input = 0 then Some (-1) else rntoi_loop input (length input) 0 0 0 NUL undef)"

section \<open>Reading from the end\<close>

text \<open>The loop over the characters instead of indices, last one first.\<close>

fun rntoi_rev :: "string \<Rightarrow> int \<Rightarrow> int \<Rightarrow> int \<Rightarrow> char \<Rightarrow> numeral_t \<Rightarrow> int option" where
  "rntoi_rev [] acc value cnt prev_ch prev_numeral = Some acc"
| "rntoi_rev (c # cs) acc value cnt prev_ch prev_numeral =
     (if tolower c = prev_ch
      then if cnt + 1 > nu_max_consecutive prev_numeral then Some (-1)
           else rntoi_rev cs (acc + value) value (cnt + 1) prev_ch prev_numeral
      else case lval (tolower c) of
             None \<Rightarrow> Some (-1)
           | Some nu \<Rightarrow>
               if cs \<noteq> [] \<and> hd cs = nu_subtracts_from nu
               then (case lval (hd cs) of
                       None \<Rightarrow> None
                     | Some before \<Rightarrow>
                         rntoi_rev (tl cs) (acc + (nu_value nu - nu_value before)) (nu_value nu - nu_value before)
                           1 NUL undef)
               else if value \<le> nu_max_follows nu
               then rntoi_rev cs (acc + nu_value nu) (nu_value nu) 1 (tolower c) nu
               else Some (-1))"

lemma rntoi_loop_rev:
  "k \<le> length input \<Longrightarrow> rntoi_loop input k acc value cnt p num = rntoi_rev (rev (take k input)) acc value cnt p num"
proof (induction k arbitrary: acc "value" cnt p num rule: induct_nat_012)
  case (ge2 i)
  have "rev (take (Suc (Suc i)) input) = input ! Suc i # input ! i # rev (take i input)"
    "rev (take (Suc i) input) = input ! i # rev (take i input)"
    using ge2.prems by (simp_all add: take_Suc_conv_app_nth)
  with ge2 show ?case
    by (simp del: take_Suc add: Let_def split: option.split)
next
  case 1
  then have "take (Suc 0) input = [input ! 0]"
    by (cases input) simp_all
  then show ?case
    by (simp add: Let_def split: option.split)
qed simp

lemma rntoi_eq: "input \<noteq> [] \<Longrightarrow> rntoi input = rntoi_rev (rev input) 0 0 0 NUL undef"
  by (simp add: rntoi_def rntoi_loop_rev)

section \<open>Roman numerals\<close>

text \<open>The reference: a decimal digit in the symbols for one, five and ten of its place.\<close>

definition roman_digit :: "char \<Rightarrow> char \<Rightarrow> char \<Rightarrow> nat \<Rightarrow> string" where
  "roman_digit one five ten n =
     (if n < 4 then replicate n one
      else if n = 4 then [one, five]
      else if n < 9 then five # replicate (n - 5) one
      else [one, ten])"

definition roman :: "nat \<Rightarrow> string" where
  "roman n =
     replicate (n div 1000) CHR ''m'' @
     roman_digit CHR ''c'' CHR ''d'' CHR ''m'' (n div 100 mod 10) @
     roman_digit CHR ''x'' CHR ''l'' CHR ''c'' (n div 10 mod 10) @
     roman_digit CHR ''i'' CHR ''v'' CHR ''x'' (n mod 10)"

text \<open>
  A place of the decimal system as the table of numerals has it: its unit, the largest value that its own
  symbol may be written before, and the symbol that may be subtracted from that.
\<close>

locale decimal_place =
  fixes one five ten sub :: char and unit low :: int
  assumes symbols: "distinct [one, five, ten, NUL]" "sub \<notin> {one, five}" "tolower one = one" "tolower five = five" "tolower ten = ten"
    and one: "lval one = Some \<lparr>nu_value = unit, nu_max_follows = low, nu_max_consecutive = 3, nu_subtracts_from = sub\<rparr>"
    and five: "\<exists>k. lval five = Some \<lparr>nu_value = 5 * unit, nu_max_follows = unit, nu_max_consecutive = k, nu_subtracts_from = one\<rparr>"
    and ten: "\<exists>m k. lval ten = Some \<lparr>nu_value = 10 * unit, nu_max_follows = m, nu_max_consecutive = k, nu_subtracts_from = one\<rparr>"
    and unit: "0 < unit" "low \<le> unit"
begin

text \<open>
  A digit is read as its value whatever comes before it in the input, if that cannot be mistaken for a part of it
  and the digits behind it are smaller; the state then suits the place above.
\<close>

lemma read_ones:
  assumes "value \<le> low" and "p \<noteq> one" and "rest = [] \<or> hd rest \<noteq> sub" and "k \<in> {1, 2, 3}"
  shows "rntoi_rev (replicate k one @ rest) acc value cnt p num =
    rntoi_rev rest (acc + int k * unit) unit (int k) one (the (lval one))"
  using assms symbols by (auto simp: one eval_nat_numeral algebra_simps)

lemma read_five:
  assumes "value \<le> unit" and "p \<noteq> five" and "rest = [] \<or> hd rest \<noteq> one"
  shows "\<exists>num'. rntoi_rev (five # rest) acc value cnt p num = rntoi_rev rest (acc + 5 * unit) (5 * unit) 1 five num'"
  using five assms symbols by auto

lemma read_four: "p \<noteq> five \<Longrightarrow>
  rntoi_rev (five # one # rest) acc value cnt p num = rntoi_rev rest (acc + 4 * unit) (4 * unit) 1 NUL undef"
  using five symbols by (auto simp: one)

lemma read_nine: "p \<noteq> ten \<Longrightarrow>
  rntoi_rev (ten # one # rest) acc value cnt p num = rntoi_rev rest (acc + 9 * unit) (9 * unit) 1 NUL undef"
  using ten symbols by (auto simp: one)

lemma read_digit:
  assumes "n < 10" and "value \<le> low" and "p \<notin> {one, five, ten}" and "rest = [] \<or> hd rest \<notin> {one, sub}"
  shows "\<exists>value' cnt' p' num'. rntoi_rev (rev (roman_digit one five ten n) @ rest) acc value cnt p num =
      rntoi_rev rest (acc + int n * unit) value' cnt' p' num' \<and> value' \<le> 9 * unit \<and> p' \<in> {p, NUL, one, five}"
proof -
  have le: "value \<le> unit" "value \<le> 9 * unit"
    using assms(2) unit by linarith+
  consider "n = 0" | "n \<in> {1, 2, 3}" | "n = 4" | "n = 5" | k where "n = 5 + k" "k \<in> {1, 2, 3}" | "n = 9"
    using assms(1) by (auto simp: less_Suc_eq eval_nat_numeral)
  then show ?thesis
  proof cases
    case 1
    then show ?thesis
      using le(2) by (auto simp: roman_digit_def)
  next
    case 2
    then have "rev (roman_digit one five ten n) = replicate n one"
      by (auto simp: roman_digit_def)
    then show ?thesis
      using read_ones [of "value" p rest n acc cnt num] assms 2 unit by fastforce
  next
    case 3
    then show ?thesis
      using read_four [of p rest acc "value" cnt num] assms(3) unit by (fastforce simp: roman_digit_def)
  next
    case 4
    then show ?thesis
      using read_five [of "value" p rest acc cnt num] assms(3,4) le unit by (fastforce simp: roman_digit_def)
  next
    case 5
    then have digit: "rev (roman_digit one five ten n) @ rest = replicate k one @ five # rest"
      by (auto simp: roman_digit_def)
    have 1: "rntoi_rev (replicate k one @ five # rest) acc value cnt p num =
        rntoi_rev (five # rest) (acc + int k * unit) unit (int k) one (the (lval one))"
      using read_ones [of "value" p "five # rest" k acc cnt num] assms(2,3) symbols 5 by auto
    obtain num'' where "rntoi_rev (five # rest) (acc + int k * unit) unit (int k) one (the (lval one)) =
        rntoi_rev rest (acc + int k * unit + 5 * unit) (5 * unit) 1 five num''"
      using read_five [of unit one rest] assms(4) symbols by fastforce
    moreover have "acc + int k * unit + 5 * unit = acc + int n * unit"
      using 5 by (simp add: algebra_simps)
    ultimately show ?thesis
      using digit 1 unit by fastforce
  next
    case 6
    then show ?thesis
      using read_nine [of p rest acc "value" cnt num] assms(3) by (fastforce simp: roman_digit_def)
  qed
qed

end

interpretation ones: decimal_place "CHR ''i''" "CHR ''v''" "CHR ''x''" NUL 1 0
  by unfold_locales (simp_all add: lval_def tolower_def)

interpretation tens: decimal_place "CHR ''x''" "CHR ''l''" "CHR ''c''" "CHR ''i''" 10 9
  by unfold_locales (simp_all add: lval_def tolower_def)

interpretation hundreds: decimal_place "CHR ''c''" "CHR ''d''" "CHR ''m''" "CHR ''x''" 100 90
  by unfold_locales (simp_all add: lval_def tolower_def)


lemma set_digit: "set (roman_digit one five ten n) \<subseteq> {one, five, ten}"
  by (auto simp: roman_digit_def)

lemma hd_in: "set xs \<subseteq> A \<Longrightarrow> A \<inter> B = {} \<Longrightarrow> xs = [] \<or> hd xs \<notin> B"
  by (cases xs) auto

lemma read_thousands:
  assumes "k \<le> 3" and "value \<le> 900" and "p \<noteq> CHR ''m''"
  shows "rntoi_rev (replicate k CHR ''m'') acc value cnt p num = Some (acc + 1000 * int k)"
proof -
  have "k = 0 \<or> k = 1 \<or> k = 2 \<or> k = 3"
    using assms(1) by linarith
  then show ?thesis
    using assms(2,3) by (elim disjE) (simp_all add: eval_nat_numeral lval_def tolower_def)
qed

lemma decimal_digits:
  "int (n mod 10) + int (n div 10 mod 10) * 10 + int (n div 100 mod 10) * 100 + 1000 * int (n div 1000) = int n"
proof -
  have "n div 10 div 10 = n div 100" "n div 100 div 10 = n div 1000"
    by (simp_all flip: div_mult2_eq)
  then have "n mod 10 + n div 10 mod 10 * 10 + n div 100 mod 10 * 100 + 1000 * (n div 1000) = n"
    using mod_div_mult_eq [of n 10] mod_div_mult_eq [of "n div 10" 10] mod_div_mult_eq [of "n div 100" 10] by linarith
  then show ?thesis
    by linarith
qed

lemma rntoi_reads_roman:
  assumes "0 < n" and "n < 4000"
  shows "rntoi (roman n) = Some (int n)"
proof -
  let ?i = "roman_digit CHR ''i'' CHR ''v'' CHR ''x'' (n mod 10)" and ?x = "roman_digit CHR ''x'' CHR ''l'' CHR ''c'' (n div 10 mod 10)"
    and ?c = "roman_digit CHR ''c'' CHR ''d'' CHR ''m'' (n div 100 mod 10)" and ?m = "replicate (n div 1000) CHR ''m''"
  have sets: "set ?c \<subseteq> {CHR ''c'', CHR ''d'', CHR ''m''}" "set ?x \<subseteq> {CHR ''x'', CHR ''l'', CHR ''c''}"
    by (rule set_digit)+
  have c: "?m = [] \<or> hd ?m \<notin> {CHR ''c'', CHR ''x''}"
    by (rule hd_in [where A = "{CHR ''m''}"]) auto
  have x: "rev ?c @ ?m = [] \<or> hd (rev ?c @ ?m) \<notin> {CHR ''x'', CHR ''i''}"
    by (rule hd_in [where A = "{CHR ''c'', CHR ''d'', CHR ''m''}"]) (use sets in auto)
  have i: "rev ?x @ rev ?c @ ?m = [] \<or> hd (rev ?x @ rev ?c @ ?m) \<notin> {CHR ''i'', NUL}"
    by (rule hd_in [where A = "{CHR ''x'', CHR ''l'', CHR ''c'', CHR ''d'', CHR ''m''}"]) (use sets in auto)
  obtain v1 n1 p1 num1 where 1: "rntoi_rev (rev ?i @ rev ?x @ rev ?c @ ?m) 0 0 0 NUL undef =
      rntoi_rev (rev ?x @ rev ?c @ ?m) (int (n mod 10)) v1 n1 p1 num1" "v1 \<le> 9" "p1 \<in> {NUL, CHR ''i'', CHR ''v''}"
    using ones.read_digit [OF _ _ _ i, of "n mod 10" 0 NUL 0 0 undef] by auto
  obtain v2 n2 p2 num2 where 2: "rntoi_rev (rev ?x @ rev ?c @ ?m) (int (n mod 10)) v1 n1 p1 num1 =
      rntoi_rev (rev ?c @ ?m) (int (n mod 10) + int (n div 10 mod 10) * 10) v2 n2 p2 num2" "v2 \<le> 90"
      "p2 \<in> {p1, NUL, CHR ''x'', CHR ''l''}"
    using tens.read_digit [OF _ 1(2) _ x, of "n div 10 mod 10" p1 "int (n mod 10)" n1 num1] 1(3) by auto
  obtain v3 n3 p3 num3 where 3: "rntoi_rev (rev ?c @ ?m) (int (n mod 10) + int (n div 10 mod 10) * 10) v2 n2 p2 num2 =
      rntoi_rev ?m (int (n mod 10) + int (n div 10 mod 10) * 10 + int (n div 100 mod 10) * 100) v3 n3 p3 num3" "v3 \<le> 900"
      "p3 \<in> {p2, NUL, CHR ''c'', CHR ''d''}"
    using hundreds.read_digit [OF _ 2(2) _ c, of "n div 100 mod 10" p2 "int (n mod 10) + int (n div 10 mod 10) * 10" n2 num2] 1(3) 2(3) by auto
  have "n div 1000 \<le> 3" "p3 \<noteq> CHR ''m''"
    using assms(2) 1(3) 2(3) 3(3) by auto
  from read_thousands [OF this(1) 3(2) this(2)]
  have "rntoi_rev (rev (roman n)) 0 0 0 NUL undef = Some (int n)"
    using 1(1) 2(1) 3(1) decimal_digits [of n] by (simp add: roman_def)
  moreover have "roman n \<noteq> []"
    using assms(1) calculation by auto
  ultimately show ?thesis
    by (simp add: rntoi_eq)
qed

text \<open>
  C27: Reading inverts writing: \<^verbatim>\<open>rntoi\<close> of the Roman numeral for a number from 1 to 3999, in lower case, is that
  number.
\<close>

theorem rntoi_roman:
  assumes "0 < n" and "n < 4000"
  shows "rntoi (roman n) = Some (int n)"
  using assms by (rule rntoi_reads_roman)

theorem rntoi_roman_witness: "roman 1970 = ''mcmlxx'' \<and> rntoi ''mcmlxx'' = Some 1970"
proof -
  have "roman 1970 = ''mcmlxx''"
    by (simp add: roman_def roman_digit_def numeral_2_eq_2)
  with rntoi_roman [of 1970] show ?thesis
    by simp
qed


section \<open>Every input\<close>

text \<open>
  On any string the loop reads no null pointer, and what it adds up is bounded by the number of characters; a
  string of less than two million characters cannot make the sum overflow.
\<close>

lemma lval_values: "lval ch = Some nu \<Longrightarrow> nu_value nu \<in> {1, 5, 10, 50, 100, 500, 1000}"
  by (auto simp: lval_def split: if_splits)

lemma lval_subtracts:
  "lval ch = Some nu \<Longrightarrow> nu_subtracts_from nu \<noteq> NUL \<Longrightarrow>
    \<exists>before. lval (nu_subtracts_from nu) = Some before \<and> nu_value before < nu_value nu"
  by (auto simp: lval_def split: if_splits)

lemma rntoi_rev_bounded:
  "NUL \<notin> set cs \<Longrightarrow> 0 \<le> acc \<Longrightarrow> 0 \<le> value \<Longrightarrow> value \<le> 1000 \<Longrightarrow>
    \<exists>r. rntoi_rev cs acc value cnt p num = Some r \<and> -1 \<le> r \<and> r \<le> acc + 1000 * int (length cs)"
proof (induction cs arbitrary: acc "value" cnt p num rule: length_induct)
  case (1 cs)
  show ?case
  proof (cases cs)
    case (Cons c cs')
    have rec: "\<exists>r. rntoi_rev ds acc' value' cnt' p' num' = Some r \<and> -1 \<le> r \<and> r \<le> acc + 1000 * int (length cs)"
      if "length ds < length cs" "set ds \<subseteq> set cs" "0 \<le> value'" "value' \<le> 1000" "acc' = acc + value'" for ds acc' value' cnt' p' num'
    proof -
      have "\<exists>r. rntoi_rev ds acc' value' cnt' p' num' = Some r \<and> -1 \<le> r \<and> r \<le> acc' + 1000 * int (length ds)"
        using 1 that by (metis add_nonneg_nonneg subsetD)
      moreover have "acc' + 1000 * int (length ds) \<le> acc + 1000 * int (length cs)"
        using that by linarith
      ultimately show ?thesis
        by force
    qed
    show ?thesis
    proof (cases "tolower c = p")
      case True
      then show ?thesis
        using rec [of cs' "value" "acc + value" "cnt + 1" p num] 1(2-) Cons by auto
    next
      case False
      show ?thesis
      proof (cases "lval (tolower c)")
        case None
        then show ?thesis
          using False Cons 1(2-) by simp
      next
        case (Some nu)
        show ?thesis
        proof (cases "cs' \<noteq> [] \<and> hd cs' = nu_subtracts_from nu")
          case True
          then obtain before where before: "lval (hd cs') = Some before" "nu_value before < nu_value nu"
            using lval_subtracts [OF Some] 1(2) Cons by (metis hd_in_set list.set_intros(2))
          let ?v = "nu_value nu - nu_value before"
          have "0 \<le> ?v" "?v \<le> 1000"
            using before lval_values [OF Some] lval_values [OF before(1)] by auto
          moreover have "length (tl cs') < length cs" "set (tl cs') \<subseteq> set cs"
            using Cons by (cases cs'; auto)+
          ultimately show ?thesis
            using rec [of "tl cs'" ?v "acc + ?v" 1 NUL undef] True False Some before Cons by auto
        next
          case False': False
          have "0 \<le> nu_value nu" "nu_value nu \<le> 1000"
            using lval_values [OF Some] by auto
          with rec [of cs' "nu_value nu" "acc + nu_value nu" 1 "tolower c" nu] False False' Some Cons 1(2-)
          show ?thesis
            by auto
        qed
      qed
    qed
  qed (use 1 in simp)
qed

lemma rntoi_bounded:
  assumes "cstring input"
  shows "\<exists>r. rntoi input = Some r \<and> -1 \<le> r \<and> r \<le> 1000 * int (length input)"
  using rntoi_rev_bounded [of "rev input" 0 0 0 NUL undef] assms
  by (cases "input = []") (simp add: rntoi_def, simp add: rntoi_eq cstring_def)

text \<open>
  The reader folds the case of a numeral but not of the one before it, and it neither checks what may follow a
  subtraction nor how often one is made.
\<close>

lemma rntoi_upper_case: "rntoi ''iv'' = Some 4" "rntoi ''VI'' = Some 6" "rntoi ''IV'' = Some (-1)"
  by code_simp+

lemma rntoi_accepts: "rntoi ''ivi'' = Some 5" "rntoi ''cmcm'' = Some 1800" "rntoi ''ixv'' = Some 14"
  by code_simp+


section \<open>The suite of the example\<close>

definition valid_input :: "(string \<times> int) list" where
  "valid_input =
     [(''i'', 1), (''ii'', 2), (''iii'', 3), (''iv'', 4), (''v'', 5), (''vi'', 6), (''vii'', 7), (''viii'', 8),
      (''ix'', 9), (''x'', 10), (''xi'', 11), (''xiv'', 14), (''xix'', 19), (''xxxix'', 39), (''xl'', 40),
      (''xliv'', 44), (''l'', 50), (''lix'', 59), (''lx'', 60), (''xc'', 90), (''xciv'', 94), (''c'', 100),
      (''cxliv'', 144), (''cl'', 150), (''cm'', 900), (''m'', 1000), (''mcmlxx'', 1970)]"

definition valid_input_data :: "addr \<Rightarrow> (string \<times> int) ct_data" where
  "valid_input_data base = \<lparr>da_base = base, da_size = 16, da_elems = valid_input\<rparr>"

definition valid_input_to_string :: "string \<times> int \<Rightarrow> string" where
  "valid_input_to_string data =
     ''{rn='' @ [CHR 0x22] @ fst data @ [CHR 0x22] @ '', value='' @ show_int (snd data) @ ''}''"

definition valid_input_test :: "place \<Rightarrow> string \<times> int \<Rightarrow> action list" where
  "valid_input_test pl data =
     (case rntoi (fst data) of
        Some actual \<Rightarrow> CT_ASSERT_INT pl EQ (word_of_int actual) (word_of_int (snd data))
      | None \<Rightarrow> [Act_Signal 11])"

definition romnum_suite :: "addr \<Rightarrow> place \<Rightarrow> (string \<times> int) test_decl list" where
  "romnum_suite base pl = [With_Data ''valid_input'' (valid_input_data base) valid_input_to_string (valid_input_test pl)]"


lemma replicate_two_three: "replicate 2 x = [x, x]" "replicate 3 x = [x, x, x]"
  by (simp_all add: numeral_2_eq_2 numeral_3_eq_3)

lemma valid_input_roman: "list_all (\<lambda>(rn, v). rn = roman (nat v) \<and> 0 < v \<and> v < 4000) valid_input"
  by (simp add: valid_input_def roman_def roman_digit_def replicate_two_three)

text \<open>Every test case of the example passes: its test does nothing that a reporter would hear of.\<close>

lemma valid_input_silent:
  assumes "d \<in> set valid_input"
  shows "valid_input_test pl d = []"
proof -
  obtain rn v where d: "d = (rn, v)" "rn = roman (nat v)" "0 < v" "v < 4000"
    using assms valid_input_roman unfolding list_all_iff by blast
  then have "rntoi rn = Some v"
    using rntoi_reads_roman [of "nat v"] by simp
  then show ?thesis
    using d(1) by (simp add: valid_input_test_def CT_ASSERT_INT_def ctest_assert_cmp_def ctest_assert_def Let_def)
qed

lemma romnum_suite_passes:
  assumes "heap_ok (ld_heap ld)" and "hp_oks (ld_heap ld) = []"
  shows "\<exists>ld' s. ctest_load_testsuite junk (declared_module ''romnum'' (romnum_suite base pl)) ld = (ld', Some s) \<and>
    map (\<lambda>t. map (\<lambda>c. (tc_name c, testcase_execute alloc_ok fixture_ok oom (s, t, c))) (te_testcases t)) (ts_tests s) =
    [map (\<lambda>d. (label ''valid_input'' (valid_input_to_string d), testcase_op_execute True alloc_ok fixture_ok oom None []))
       valid_input]"
proof -
  have "list_all (cstring \<circ> fst) valid_input"
    by (simp add: valid_input_def cstring_def)
  then have "list_all (cstring \<circ> valid_input_to_string) valid_input"
    using cstring_show_int by (auto simp: list_all_iff valid_input_to_string_def cstring_def)
  then have "list_all decl_ok (romnum_suite base pl)"
    by (simp add: romnum_suite_def data_ok_def valid_input_data_def cstring_def valid_input_def)
  from declared_loads [OF assms this, of junk "''romnum''" alloc_ok fixture_ok oom]
  obtain ld' s where load: "ctest_load_testsuite junk (declared_module ''romnum'' (romnum_suite base pl)) ld = (ld', Some s)"
    "map (\<lambda>t. map (\<lambda>c. (tc_name c, testcase_execute alloc_ok fixture_ok oom (s, t, c))) (te_testcases t)) (ts_tests s) =
     [map (\<lambda>d. (label ''valid_input'' (valid_input_to_string d),
        testcase_op_execute True alloc_ok fixture_ok oom None (valid_input_test pl d))) valid_input]"
    by (auto simp: romnum_suite_def valid_input_data_def comp_def)
  have "map (\<lambda>d. (label ''valid_input'' (valid_input_to_string d),
      testcase_op_execute True alloc_ok fixture_ok oom None (valid_input_test pl d))) valid_input =
    map (\<lambda>d. (label ''valid_input'' (valid_input_to_string d), testcase_op_execute True alloc_ok fixture_ok oom None [])) valid_input"
    by (rule map_cong) (simp_all only: valid_input_silent)
  with load show ?thesis
    by (metis (no_types, lifting))
qed


text \<open>The test of \<^verbatim>\<open>simple_suite.c\<close>, with the places of its assertions.\<close>

definition simple_test :: "(string \<Rightarrow> place) \<Rightarrow> test_def" where
  "simple_test pl =
     CT_TEST ''valid_input'' (concat (map (\<lambda>(rn, expected). valid_input_test (pl rn) (rn, expected))
       [(''i'', 1), (''v'', 5), (''x'', 10), (''l'', 50), (''c'', 100), (''m'', 1000)]))"

definition simple_suite :: "(string \<Rightarrow> place) \<Rightarrow> suite_def" where
  "simple_suite pl = CT_SUITE ''romnum'' [simple_test pl]"

lemma simple_test_silent: "td_caller (simple_test pl) vd = []"
proof -
  have "valid_input_test (pl rn) (rn, v) = []"
    if "(rn, v) \<in> set [(''i'', 1), (''v'', 5), (''x'', 10), (''l'', 50), (''c'', 100), (''m'', 1000)]" for rn v
    by (rule valid_input_silent) (use that in \<open>auto simp: valid_input_def\<close>)
  then show ?thesis
    by (simp add: simple_test_def test_macros)
qed


end
