(* ===== verification/Hello.thy ===== *)
theory Hello
  imports Declarations Asserts Console_Reporter
begin

text \<open>
  \<^verbatim>\<open>src/examples/hello_world.c\<close> and the suite that tests it, \<^verbatim>\<open>suite_with_fixtures.c\<close>: a fixture that sends the standard
  output to a temporary file, and tests that compare what is written there.
\<close>

section \<open>Definitions\<close>

text \<open>
  What a descriptor is open on: the standard output of the process, a file that is written or one that is read, from
  some offset on. Standard output is buffered by the C library until it is flushed.
\<close>

datatype handle = Terminal | Writer string | Reader string nat

record world =
  wo_fds :: "int \<Rightarrow> handle option"
  wo_files :: "string \<Rightarrow> string option"
  wo_buffer :: string
  wo_terminal :: string

definition wo_open :: "int \<Rightarrow> handle \<Rightarrow> world \<Rightarrow> world" where
  "wo_open fd h w = w\<lparr>wo_fds := (wo_fds w)(fd := Some h)\<rparr>"

definition wo_close :: "int \<Rightarrow> world \<Rightarrow> world" where
  "wo_close fd w = w\<lparr>wo_fds := (wo_fds w)(fd := None)\<rparr>"

definition wo_dup2 :: "int \<Rightarrow> int \<Rightarrow> world \<Rightarrow> world" where
  "wo_dup2 old new w = w\<lparr>wo_fds := (wo_fds w)(new := wo_fds w old)\<rparr>"

definition wo_unlink :: "string \<Rightarrow> world \<Rightarrow> world" where
  "wo_unlink path w = w\<lparr>wo_files := (wo_files w)(path := None)\<rparr>"

definition fflush_stdout :: "world \<Rightarrow> world" where
  "fflush_stdout w =
     (case wo_fds w 1 of
        Some Terminal \<Rightarrow> w\<lparr>wo_terminal := wo_terminal w @ wo_buffer w, wo_buffer := []\<rparr>
      | Some (Writer path) \<Rightarrow>
          w\<lparr>wo_files := (wo_files w)(path := map_option (\<lambda>content. content @ wo_buffer w) (wo_files w path)), wo_buffer := []\<rparr>
      | _ \<Rightarrow> w)"

definition hello_world :: "world \<Rightarrow> world" where
  "hello_world w = w\<lparr>wo_buffer := wo_buffer w @ ''Hello, World!'' @ [NL]\<rparr>"

definition hello_person :: "string \<Rightarrow> world \<Rightarrow> world" where
  "hello_person name w = w\<lparr>wo_buffer := wo_buffer w @ ''Hello, '' @ name @ ''!'' @ [NL]\<rparr>"

subsection \<open>The fixture\<close>

text \<open>
  What the system calls return: the descriptor and the path of \<^verbatim>\<open>mkstemp\<close>, the descriptors of \<^verbatim>\<open>open\<close> and \<^verbatim>\<open>dup\<close>, whether
  \<^verbatim>\<open>dup2\<close> works, and for the check the descriptor of \<^verbatim>\<open>open\<close> and whether \<^verbatim>\<open>read\<close> works.
\<close>

record hello_env =
  he_file :: string
  he_mkstemp :: "int \<times> string"
  he_open :: int
  he_dup :: int
  he_dup2_ok :: bool
  he_read_open :: int
  he_read_ok :: bool
  he_strerror :: string

record hello_fixture =
  hf_orig_stdout_fd :: int
  hf_tmpfile :: string

text \<open>\<open>junk\<close>: what is in the memory of the fixture before.\<close>

definition hello_setup :: "hello_env \<Rightarrow> string \<Rightarrow> world \<Rightarrow> world \<times> hello_fixture \<times> action list" where
  "hello_setup env junk w =
     (let fixture = \<lparr>hf_orig_stdout_fd = -1, hf_tmpfile = junk\<rparr>; (temp_fd, tmpfile) = he_mkstemp env
      in if temp_fd < 0
         then (w, fixture, [Act_Fail (he_file env) 27 (''Unable to create temporary file: '' @ he_strerror env)])
         else let w = wo_open temp_fd (Writer tmpfile) (w\<lparr>wo_files := (wo_files w)(tmpfile := Some [])\<rparr>)
         in if he_open env < 0
         then (wo_unlink tmpfile w, fixture, [Act_Fail (he_file env) 32 (''Unable to open temporary file: '' @ he_strerror env)])
         else let w = wo_open (he_open env) (Writer tmpfile) w
         in if he_dup env < 0
         then (wo_unlink tmpfile (wo_close (he_open env) w), fixture,
               [Act_Fail (he_file env) 38 (''Unable to dup STDOUT: '' @ he_strerror env)])
         else let w = wo_close 1 (wo_dup2 1 (he_dup env) w)
         in if \<not> he_dup2_ok env
         then (wo_dup2 (he_dup env) 1 (wo_unlink tmpfile (wo_close (he_open env) w)), fixture,
               [Act_Fail (he_file env) 46 (''Unable to dup (fd='' @ show_int (he_open env) @ '') to STDOUT: '' @ he_strerror env)])
         else (wo_close (he_open env) (wo_dup2 (he_open env) 1 w), \<lparr>hf_orig_stdout_fd = he_dup env, hf_tmpfile = tmpfile\<rparr>, []))"

definition hello_teardown :: "hello_fixture \<Rightarrow> world \<Rightarrow> world" where
  "hello_teardown fixture w =
     (let w = (if hf_tmpfile fixture \<noteq> [] then wo_unlink (hf_tmpfile fixture) w else w)
      in if hf_orig_stdout_fd fixture \<ge> 0 then wo_dup2 (hf_orig_stdout_fd fixture) 1 (wo_close 1 w) else w)"

subsection \<open>The tests\<close>

text \<open>\<open>pls\<close>: where the two assertions stand.\<close>

definition verify_contents :: "hello_env \<Rightarrow> place \<times> place \<Rightarrow> string \<Rightarrow> string \<Rightarrow> world \<Rightarrow> world \<times> action list" where
  "verify_contents env pls filename expected w =
     (let expected_len = length expected; w = fflush_stdout w
      in case (if he_read_open env < 0 then None else wo_files w filename) of
           None \<Rightarrow> (w, [Act_Fail (he_file env) 74 (''Unable to open output file: '' @ he_strerror env)])
         | Some content \<Rightarrow>
             let data = take expected_len content;
                 w = wo_open (he_read_open env) (Reader filename (length data)) w
             in if \<not> he_read_ok env
                then (w, [Act_Fail (he_file env) 77 (''Unable to read from output file: '' @ he_strerror env)])
                else (w, CT_ASSERT_STR (fst pls) EQ data expected @
                         CT_ASSERT_INT (snd pls) EQ (of_nat (length (take 1 (drop (length data) content)))) 0))"

definition test_hello_world :: "hello_env \<Rightarrow> place \<times> place \<Rightarrow> hello_fixture \<Rightarrow> world \<Rightarrow> world \<times> action list" where
  "test_hello_world env pls fixture w =
     verify_contents env pls (hf_tmpfile fixture) (''Hello, World!'' @ [NL]) (hello_world w)"

definition hello_person_data :: "(string \<times> string) list" where
  "hello_person_data =
     [(''Erich Gamma'', ''Hello, Erich Gamma!'' @ [NL]), (''Richard Helm'', ''Hello, Richard Helm!'' @ [NL]),
      (''Ralph Johnson'', ''Hello, Ralph Johnson!'' @ [NL]), (''John Vlissides'', ''Hello, John Vlissides!'' @ [NL])]"

definition test_hello_person ::
  "hello_env \<Rightarrow> place \<times> place \<Rightarrow> hello_fixture \<Rightarrow> string \<times> string \<Rightarrow> world \<Rightarrow> world \<times> action list" where
  "test_hello_person env pls fixture data w =
     verify_contents env pls (hf_tmpfile fixture) (snd data) (hello_person (fst data) w)"

text \<open>
  The declarations of the suite, for a process in which a test case finds the world \<open>w\<close>: the fixture is set up there
  and its teardown has no complaint. The fixture is an \<^verbatim>\<open>int\<close> and an array of 23 characters, a datum two pointers.
\<close>

definition hello_fixture_provider :: "action list \<Rightarrow> fixture_provider" where
  "hello_fixture_provider setup = CT_FIXTURE setup [] 28"

definition hello_person_provider :: "addr \<Rightarrow> (string \<times> string) ct_data" where
  "hello_person_provider base = \<lparr>da_base = base, da_size = 16, da_elems = hello_person_data\<rparr>"

definition hello_suite :: "hello_env \<Rightarrow> place \<times> place \<Rightarrow> string \<Rightarrow> addr \<Rightarrow> world \<Rightarrow> (string \<times> string) test_decl list" where
  "hello_suite env pls junk base w =
     (let (w, fixture, setup) = hello_setup env junk w; provider = hello_fixture_provider setup
      in [With_Fixture ''hello_world'' provider (snd (test_hello_world env pls fixture w)),
          With_Fixture_And_Data ''hello_person'' provider (hello_person_provider base) fst
            (\<lambda>data. snd (test_hello_person env pls fixture data w))])"

section \<open>A run of the tests\<close>

text \<open>
  The calls succeed, with descriptors that are new and a file that is new; the standard output is the terminal and
  its buffer empty.
\<close>

definition hello_ok :: "hello_env \<Rightarrow> world \<Rightarrow> bool" where
  "hello_ok env w \<longleftrightarrow>
     (case he_mkstemp env of (temp_fd, tmpfile) \<Rightarrow>
        list_all (\<lambda>fd. 3 \<le> fd \<and> wo_fds w fd = None) [temp_fd, he_open env, he_dup env, he_read_open env] \<and>
        distinct [temp_fd, he_open env, he_dup env, he_read_open env] \<and> tmpfile \<noteq> [] \<and> wo_files w tmpfile = None) \<and>
     he_dup2_ok env \<and> he_read_ok env \<and> wo_fds w 1 = Some Terminal \<and> wo_buffer w = []"

lemma strcmp_same: "strcmp s s = 0"
  by (induction s) simp_all

lemma assert_str_same: "CT_ASSERT_STR pl EQ s s = []"
  by (simp add: CT_ASSERT_STR_def ctest_assert_cmp_def ctest_assert_def ctest_operator_str_def strcmp_same Let_def)

lemma assert_int_same: "CT_ASSERT_INT pl EQ a a = []"
  by (simp add: CT_ASSERT_INT_def ctest_assert_cmp_def ctest_assert_def Let_def)

text \<open>
  A test that writes what it expects passes, and the teardown puts the standard output back and removes the file;
  nothing of the greeting gets to the terminal. Three descriptors stay open: the one of \<^verbatim>\<open>mkstemp\<close>, the copy of the
  standard output and the one the file was read from.
\<close>

lemma hello_test_runs:
  assumes "hello_ok env w" and "hello_setup env junk w = (w1, fixture, acts)"
    and "verify_contents env pls (hf_tmpfile fixture) greeting (w1\<lparr>wo_buffer := wo_buffer w1 @ greeting\<rparr>) = (w2, test)"
  shows "acts = []" "test = []" "wo_files (hello_teardown fixture w2) = wo_files w"
    "wo_terminal (hello_teardown fixture w2) = wo_terminal w" "wo_buffer (hello_teardown fixture w2) = []"
    "wo_fds (hello_teardown fixture w2) =
       (wo_fds w)(fst (he_mkstemp env) := Some (Writer (snd (he_mkstemp env))), he_dup env := Some Terminal,
         he_read_open env := Some (Reader (snd (he_mkstemp env)) (length greeting)))"
proof -
  obtain temp_fd tmpfile where mk: "he_mkstemp env = (temp_fd, tmpfile)"
    by fastforce
  note ok = assms(1) [unfolded hello_ok_def mk prod.case]
  have w1: "w1 = w\<lparr>wo_fds := (wo_fds w)(temp_fd := Some (Writer tmpfile), he_dup env := Some Terminal, 1 := Some (Writer tmpfile)),
      wo_files := (wo_files w)(tmpfile := Some [])\<rparr>"
    "fixture = \<lparr>hf_orig_stdout_fd = he_dup env, hf_tmpfile = tmpfile\<rparr>" and acts: "acts = []"
    using assms(2) ok
    by (auto simp: hello_setup_def mk wo_open_def wo_close_def wo_dup2_def fun_eq_iff)
  have w2: "w2 = w\<lparr>wo_fds := (wo_fds w)(temp_fd := Some (Writer tmpfile), he_dup env := Some Terminal, 1 := Some (Writer tmpfile),
        he_read_open env := Some (Reader tmpfile (length greeting))),
      wo_files := (wo_files w)(tmpfile := Some greeting), wo_buffer := []\<rparr>" and test: "test = []"
    using assms(3) ok
    by (auto simp: w1 verify_contents_def fflush_stdout_def wo_open_def assert_str_same assert_int_same fun_eq_iff Let_def)
  have "wo_fds (hello_teardown fixture w2) =
      (wo_fds w)(temp_fd := Some (Writer tmpfile), he_dup env := Some Terminal,
        he_read_open env := Some (Reader tmpfile (length greeting)))"
    using ok by (auto simp: w1 w2 hello_teardown_def wo_dup2_def wo_close_def wo_unlink_def fun_eq_iff)
  then show "wo_fds (hello_teardown fixture w2) =
       (wo_fds w)(fst (he_mkstemp env) := Some (Writer (snd (he_mkstemp env))), he_dup env := Some Terminal,
         he_read_open env := Some (Reader (snd (he_mkstemp env)) (length greeting)))"
    by (simp add: mk)
  show "wo_files (hello_teardown fixture w2) = wo_files w" "wo_terminal (hello_teardown fixture w2) = wo_terminal w"
    "wo_buffer (hello_teardown fixture w2) = []"
    using ok by (auto simp: w1 w2 hello_teardown_def wo_dup2_def wo_close_def wo_unlink_def fun_eq_iff)
  show "acts = []" "test = []"
    by (fact acts test)+
qed

text \<open>Both tests of the suite are of this form.\<close>

lemma hello_tests_pass:
  assumes "hello_ok env w" and "hello_setup env junk w = (w1, fixture, acts)"
  shows "acts = []" "snd (test_hello_world env pls fixture w1) = []"
    "d \<in> set hello_person_data \<Longrightarrow> snd (test_hello_person env pls fixture d w1) = []"
proof -
  note run = hello_test_runs [OF assms prod.collapse [symmetric]]
  show "acts = []"
    by (rule run(1))
  show "snd (test_hello_world env pls fixture w1) = []"
    using run(2) [of pls "''Hello, World!'' @ [NL]"] by (simp add: test_hello_world_def hello_world_def)
  show "snd (test_hello_person env pls fixture d w1) = []" if "d \<in> set hello_person_data"
  proof -
    have "snd d = ''Hello, '' @ fst d @ ''!'' @ [NL]"
      using that by (auto simp: hello_person_data_def)
    then show ?thesis
      using run(2) [of pls "snd d"] by (simp add: test_hello_person_def hello_person_def)
  qed
qed

text \<open>When the setup fails, \<^verbatim>\<open>tmpfile\<close> is still what was in memory, and the teardown unlinks the file of that name.\<close>

lemma hello_failed_setup:
  assumes "fst (he_mkstemp env) < 0" and "hello_setup env junk w = (w1, fixture, acts)" and "junk \<noteq> []"
  shows "length acts = 1" "hello_teardown fixture w1 = wo_unlink junk w"
  using assms by (auto simp: hello_setup_def hello_teardown_def Let_def split: prod.splits)


text \<open>
  The suite as the loader makes it: one test case for the first test and one per person for the second, and every one
  of them returns normally.
\<close>

lemma silent_case_passes:
  "snd (testcase_op_execute hookable alloc_ok fixture_ok oom (Some (hello_fixture_provider [])) []) = None"
  by (simp add: testcase_op_execute_def hello_fixture_provider_def CT_FIXTURE_def enter_stage_def call_function_def add_call_def
      finish_testcase_def exec_step.simps Let_def)

lemma hello_suite_passes:
  assumes "heap_ok (ld_heap ld)" and "hp_oks (ld_heap ld) = []" and "hello_ok env w"
  shows "\<exists>ld' s. ctest_load_testsuite junk (declared_module ''hello_world'' (hello_suite env pls mem base w)) ld = (ld', Some s) \<and>
    map (\<lambda>t. map (\<lambda>c. (tc_name c, snd (testcase_execute alloc_ok fixture_ok oom (s, t, c)))) (te_testcases t)) (ts_tests s) =
    [[(''hello_world'', None)],
     [(''hello_person[Erich Gamma]'', None), (''hello_person[Richard Helm]'', None), (''hello_person[Ralph Johnson]'', None),
      (''hello_person[John Vlissides]'', None)]]"
proof -
  let ?decls = "hello_suite env pls mem base w"
  obtain w1 fixture acts where made: "hello_setup env mem w = (w1, fixture, acts)"
    by (metis prod_cases3)
  note silent = hello_tests_pass [OF assms(3) made]
  have persons: "map (\<lambda>d. (label ''hello_person'' (fst d), Some (hello_fixture_provider []), snd (test_hello_person env pls fixture d w1)))
        hello_person_data =
      map (\<lambda>d. (label ''hello_person'' (fst d), Some (hello_fixture_provider []), [])) hello_person_data"
    by (rule map_cong) (simp_all add: silent(3))
  have cases: "map decl_cases ?decls =
      [[(''hello_world'', Some (hello_fixture_provider []), [])],
       map (\<lambda>name. (''hello_person['' @ name @ '']'', Some (hello_fixture_provider []), []))
         [''Erich Gamma'', ''Richard Helm'', ''Ralph Johnson'', ''John Vlissides'']]"
    by (simp add: hello_suite_def made hello_person_provider_def Let_def silent(1,2) persons)
      (simp add: hello_person_data_def label_def)
  have "list_all decl_ok ?decls"
    by (simp add: hello_suite_def made data_ok_def hello_person_provider_def hello_person_data_def cstring_def Let_def)
  from declared_loads [OF assms(1,2) this, of junk "''hello_world''" alloc_ok fixture_ok oom] obtain ld' s where
    load: "ctest_load_testsuite junk (declared_module ''hello_world'' ?decls) ld = (ld', Some s)"
    "map (\<lambda>t. map (\<lambda>c. (tc_name c, testcase_execute alloc_ok fixture_ok oom (s, t, c))) (te_testcases t)) (ts_tests s) =
     map (map (\<lambda>(label, fixture, test). (label, testcase_op_execute True alloc_ok fixture_ok oom fixture test))) (map decl_cases ?decls)"
    by auto
  from arg_cong [OF load(2), of "map (map (apsnd snd))"]
  have "map (\<lambda>t. map (\<lambda>c. (tc_name c, snd (testcase_execute alloc_ok fixture_ok oom (s, t, c)))) (te_testcases t)) (ts_tests s) =
    [[(''hello_world'', None)],
     [(''hello_person[Erich Gamma]'', None), (''hello_person[Richard Helm]'', None), (''hello_person[Ralph Johnson]'', None),
      (''hello_person[John Vlissides]'', None)]]"
    unfolding cases by (simp add: comp_def silent_case_passes)
  with load(1) show ?thesis
    by (intro exI conjI)
qed

end
