(* ===== verification/Spec2Isabelle.thy ===== *)
theory Spec2Isabelle
  imports Runner Cli Asserts Self_Run Tmpdir Declarations Romnum Hello
begin

text \<open>
  A verification library for ctest, a unit test framework for C.

  \<^bold>\<open>The program.\<close> Test modules are shared objects with a table of tests. The command line program
  (\<^verbatim>\<open>src/cli/main.c\<close>) loads them (\<^verbatim>\<open>src/exec/loader.c\<close>), makes a reporter (\<^verbatim>\<open>console_reporter.c\<close>) and a runner
  and runs all test cases through the loops of \<^verbatim>\<open>runner_utils.c\<close>. The forking runner (\<^verbatim>\<open>forking_runner.c\<close>) runs
  a test case in a child, whose events come back through a pipe (\<^verbatim>\<open>exec_events.c\<close>) in the formats of
  \<^verbatim>\<open>failure.c\<close>, \<^verbatim>\<open>location.c\<close> and \<^verbatim>\<open>stacktrace.c\<close> and whose output comes back through another
  (\<^verbatim>\<open>output_reader.c\<close>); the direct runner (\<^verbatim>\<open>direct_runner.c\<close>) runs it in its own process. Both capture signals
  (\<^verbatim>\<open>sig.c\<close>) and give a result (\<^verbatim>\<open>result.c\<close>) to the reporter. Test code reaches the framework through the
  assertion macros (\<^verbatim>\<open>assert.h\<close>) and the stubs of \<^verbatim>\<open>src/tests/stub.c\<close>, and is declared with the macros of
  \<^verbatim>\<open>tests.h\<close>. Beside the framework there are a fixture for temporary directories (\<^verbatim>\<open>src/tests/fixtures/tmpdir.c\<close>)
  and examples (\<^verbatim>\<open>src/examples\<close>).

  \<^bold>\<open>Theories.\<close>
  \<^item> \<open>Prelude\<close>: machine types, byte encodings and a flat byte memory. \<open>Text_Format\<close>: numeric conversions of
    \<^verbatim>\<open>printf\<close>. \<open>Heap_Blocks\<close>: allocation with failures; the locale \<open>lifecycle\<close> of objects made of blocks.
  \<^item> \<open>Serialization\<close>, \<open>Location\<close>, \<open>Stacktrace\<close>, \<open>Failure\<close>: objects stored in one block and made
    position-independent for a pipe. The locale \<open>storage\<close> is their common interface, with one round trip proof;
    all three are interpretations. Shown: round trips into another address space, exact bounds, creation.
  \<^item> \<open>Poll_Handler\<close>, \<open>Exec_Events\<close>, \<open>Output\<close>: the readers of the two pipes, on the byte memory. The locale
    \<open>stream_handler\<close> says that pieces of any size give the same final state. Shown: the event channel is
    transparent, the output is captured byte by byte, and what happens when memory or the 16-bit length runs out.
  \<^item> \<open>Result\<close>: ownership of failure and output. \<open>Repartition\<close>, \<open>Runner_Utils\<close>: the in-place grouping of tests
    equals a reference grouping; the run loops call a reporter in nested order (locale \<open>reporter_contract\<close>) and
    compute the result over the test cases in order.
  \<^item> \<open>Test_Execution\<close>: setup, test, teardown and aborts of one test case, with its verdict and the calls made.
    \<open>Asserts\<close>: the assertion macros against their documentation. \<open>Sig\<close>: capture and restore of signals.
  \<^item> \<open>Descriptors\<close>: the table of file descriptors of a process with the system calls on it (\<^verbatim>\<open>dup2\<close>, \<^verbatim>\<open>pipe\<close>, \<^verbatim>\<open>close\<close>),
    and the buffers of the standard streams: a byte written to a stream goes to the file its descriptor refers to
    when it leaves the buffer.
  \<^item> \<open>Forking_Runner\<close>, \<open>Direct_Runner\<close>: what is reported for a test case, however it ended, and the error paths. Both
    redirect the standard streams in the descriptor table, and what they report as output is what has come through it:
    shown to be every byte the test case wrote, with the bytes of each stream in order, and nothing else.
    \<open>Runner\<close>: the interface of \<^verbatim>\<open>runner.h\<close> and what both put behind it.
  \<^item> \<open>Reporter_Simulation\<close>: a simulation between reporters lifts to whole runs. \<open>Console_Reporter\<close>: the console
    reporter with its texts; it simulates the recorder of \<open>Runner_Utils\<close>.
  \<^item> \<open>Loader\<close>: loading and destroying suites, with every allocation. \<open>Testing_Testsuite\<close>: the built-in suite of
    \<^verbatim>\<open>testing_testsuite.c\<close>. \<open>Self_Run\<close>: that suite behind the interface of \<^verbatim>\<open>suite.h\<close>, what its test cases are to show
    and how many of them count for each runner. \<open>Cli\<close>: the commands, from the arguments to the output and the exit code. It
    makes its runner with one of two functions (\<open>exec_lib\<close>); \<open>ctest_exec\<close> has the ones of \<open>Runner\<close>.
  \<^item> \<open>Declarations\<close>: the macros that declare tests; a declared module is loaded as what it declares. \<open>Tmpdir\<close>: the
    removal of a directory tree ends, with the result it reports; it stays inside the tree, and what it leaves is part of it. \<open>Romnum\<close>: the reader of Roman numerals inverts an
    encoder (the locale \<open>decimal_place\<close> is read for ones, tens and hundreds), and its suites pass. \<open>Hello\<close>: the
    greetings and the fixture that redirects the standard output; the tests of its suite pass and put the output back.
  \<^item> This theory: the two runners agree, the runner interface, the run command from end to end with the forking and
    with the direct runner, and the self-test suite run by both.

  \<^bold>\<open>State and errors.\<close> A C object is a record, a handler a function on it; pointers between objects are nested
  values where nothing depends on aliasing, and addresses of the byte memory where something does. \<open>None\<close> is a
  null pointer or, for the readers, a faulting access, which a store outside a buffer is; \<open>Crash\<close> and \<open>Waiting\<close> of the
  type \<open>run\<close> are a crashed process and one that never gets on; \<open>Astray\<close> of \<open>Tmpdir\<close> is a removal that leaves its directory.

  \<^bold>\<open>Parameters.\<close> What the kernel and libltdl decide is an argument: the outcomes of allocations are lists of
  booleans (an empty list: all succeed), the bytes ready at each return of \<^verbatim>\<open>poll\<close> a list of rounds, the descriptors
  that new files get are numbers, the moments at which the C library empties a buffer a predicate on the position of the
  byte, and modules records of what loading them gives. That new descriptors are free and none of the standard ones, and
  that a signal which ends a test case is caught or kills its process, are hypotheses (\<open>pipes_ok\<close>, \<open>fresh_fds\<close>,
  \<open>signal_ends\<close>). The poll loop is recursive on the rounds; it needs one round with data for
  each byte of a pipe and one more at worst, which is the hypothesis \<open>often_enough\<close>, and under it the loop is
  shown to end. \<^verbatim>\<open>deltree\<close> repeats until a directory is gone; its fuel is one more than the height of the tree,
  which is shown to be enough. All other loops are structurally recursive or have a measure.

  \<^bold>\<open>Not modelled.\<close> The code of test modules (a function of a module is the list of its actions towards the
  framework, except for the examples, where it is modelled); \<^verbatim>\<open>ctest_failure_clone\<close> and \<^verbatim>\<open>parse_uint__\<close> of \<^verbatim>\<open>main.c\<close>, which
  are compiled out; the conversions between an object and its base (\<^verbatim>\<open>containerof\<close>) and other attributes and header
  glue. The \<^verbatim>\<open>int\<close> counters of the run loops are integers without bounds. Events and output of a child are two sequences,
  the order between them is not modelled. Of a file system only what \<^verbatim>\<open>deltree\<close> and the examples see of it is modelled, and \<^verbatim>\<open>readdir\<close> delivers all names of a directory at
  once.
\<close>

section \<open>The two runners\<close>

lemma takeWhile_NUL: "takeWhile (\<lambda>c. c \<noteq> NUL) (bs @ [NUL]) = takeWhile (\<lambda>c. c \<noteq> NUL) bs"
  by (induction bs) auto

lemma same_output_text:
  assumes "\<not> (\<exists>signum. ending = Some (On_Signal signum))"
  shows "(case reported_output cenv d ending of None \<Rightarrow> [] | Some out \<Rightarrow> output_text out)
    = output_text \<lparr>out_data = map snd (captured (ch_flushes cenv) (dyn_output d))\<rparr>"
proof -
  let ?out = "map snd (captured (ch_flushes cenv) (dyn_output d))"
  have "child_output_of cenv d ending = ?out"
    using assms by (auto simp: child_output_of_def child_status_of_def split: option.split ending.split)
  then show ?thesis
    by (cases ?out) (simp_all add: reported_output_def output_text_def takeWhile_NUL [of "_ # _", simplified])
qed

text \<open>
  C5: The two runners agree. For a test case that does not end with a signal, and as far as the system lets
  them run it and the C library empties the buffers of the streams alike, the forking and the direct runner report
  results of the same type with the same failure, and a console reporter prints the same text for them, with the same
  output of the test case, which one of them gets through a pipe and the other one through a file. What they return for the
  test case is also the same, except that a skipped test case counts as failed for the direct runner only; and both give
  the process its descriptors and signal handlers back.
\<close>

theorem runners_agree:
  assumes "\<not> (\<exists>signum. ending = Some (On_Signal signum))"
    and "system_ok fenv env cenv proc ending" and "often_enough env cenv d ending"
    and "opt_all (\<lambda>f. event_ok (Failure_Event f)) (child_failure cenv d ending)"
    and "direct_ok denv (d, ending)" and "fresh_fds denv (pr_fds proc)" and "pr_sigs proc = sig_initial disp"
    and "\<forall>s. disp s \<noteq> Disp_Sighandler" and "inherited_only (pr_fds proc)" and "ch_flushes cenv = de_flushes denv"
  shows "\<exists>forked direct rc rc'.
    forking_run_testcase fenv env ops (child_run cenv (d, ending)) proc r
      = Done (proc, testcase_complete ops (testcase_start ops r) forked, rc) \<and>
    direct_run_testcase denv ops (d, ending) proc r
      = Done (proc, testcase_complete ops (testcase_start ops r) direct, rc') \<and>
    res_type forked = res_type direct \<and> res_failure forked = res_failure direct \<and>
    testcase_text sops names c forked = testcase_text sops names c direct \<and>
    (rc = rc' \<longleftrightarrow> res_type direct \<noteq> CTEST_RESULT_SKIPPED)"
proof -
  let ?a = "reported_result cenv env d ending" and ?b = "direct_reported denv d ending"
  have type: "res_type ?a = res_type ?b" and failure: "res_failure ?a = res_failure ?b"
    using assms(1) by (auto simp: reported_result_def reported_type_def reported_failure_def child_status_of_def
        child_failure_def direct_reported_def split: option.split ending.split)
  then have result: "result_text ?a = result_text ?b" by (simp only: result_text_def)
  have "testcase_text sops names c ?a = testcase_text sops names c ?b"
    using same_output_text [OF assms(1), of cenv d] failure assms(10)
    by (simp add: testcase_text_def result) (simp add: reported_result_def direct_reported_def)
  moreover have "(if reported_type cenv ending = CTEST_RESULT_FAIL then 1 else 0) = (if ending = None then 0 else 1 :: int)
      \<longleftrightarrow> res_type ?b \<noteq> CTEST_RESULT_SKIPPED"
    using assms(1) by (auto simp: reported_type_def direct_reported_def split: option.split ending.split)
  ultimately show ?thesis
    using forking_reports [OF assms(2-4), of ops r] direct_reports [OF assms(5-9), of ops r] type failure
    by (intro exI conjI) assumption+
qed

text \<open>
  A child and a parent for which the system calls succeed, with as many rounds as the pipes need, in a process whose
  descriptors above 5 are free.
\<close>

definition sample_fork :: fork_env where
  "sample_fork = \<lparr>fk_result_ok = True, fk_hooks_pipe = Some (6, 7), fk_output_pipe = Some (8, 9), fk_forked = True\<rparr>"

definition sample_child :: child_env where
  "sample_child =
     \<lparr>ch_sp = 65536, ch_mem = (\<lambda>_. NUL), ch_sigaction = (\<lambda>_. None), ch_null = 10, ch_pending = (\<lambda>_. []), ch_flushes = (\<lambda>_. False)\<rparr>"

definition sample_parent :: "dynamic_ops \<times> ending option \<Rightarrow> parent_env" where
  "sample_parent = (\<lambda>(d, ending).
     \<lparr>pa_alloc_ok = True, pa_strerror = [], pa_strsignal = (\<lambda>_. ''Killed''), pa_self = 4096, pa_mem = (\<lambda>_. NUL),
      pa_mapped = (\<lambda>_. True), pa_mallocs = [131072],
      pa_rounds = replicate (Suc (length (event_bytes sample_child d ending) + length (child_output_of sample_child d ending)))
        (Poll_Events 3 2),
      pa_waitpid = (\<lambda>killed status. Wait_Pid 42 status), pa_child = 42\<rparr>)"

definition sample_process_ok :: "process \<Rightarrow> bool" where
  "sample_process_ok proc \<longleftrightarrow>
     inherited_only (pr_fds proc) \<and> (\<forall>fd > 5. pr_fds proc fd = None) \<and> pr_sigs proc = sig_initial (\<lambda>_. Disp_Default)"

definition ends_by :: "ending option \<Rightarrow> bool" where
  "ends_by ending \<longleftrightarrow> (case ending of Some (On_Signal signum) \<Rightarrow> fatal_signal Disp_Default signum | _ \<Rightarrow> True)"

lemma sample_system:
  assumes "sample_process_ok proc" and "ends_by ending"
  shows "system_ok sample_fork (sample_parent (d, ending)) sample_child proc ending"
    "often_enough (sample_parent (d, ending)) sample_child d ending"
proof -
  have "pipes_ok sample_fork sample_child (pr_fds proc)"
    using assms(1) by (simp add: pipes_ok_def sample_fork_def sample_child_def sample_process_ok_def)
  moreover have "signals_initial proc" "signal_ends sample_child proc ending"
    using assms by (auto simp: signals_initial_def signal_ends_def sample_process_ok_def ends_by_def sig_initial_def
        split: option.splits ending.splits)
  moreover have "ch_sp sample_child = 65536" by (simp add: sample_child_def)
  ultimately show "system_ok sample_fork (sample_parent (d, ending)) sample_child proc ending"
    by (simp add: system_ok_def valid_block_def sample_fork_def sample_parent_def)
  show "often_enough (sample_parent (d, ending)) sample_child d ending"
    by (simp add: often_enough_def sample_parent_def filter_replicate)
qed

definition sample_reporter :: "(ctest_result list, unit, unit, unit) reporter_ops" where
  "sample_reporter =
     \<lparr>report_testsuite = (\<lambda>r s. (r, True)), testsuite_destroy = id, report_test = (\<lambda>r t. (r, True)), test_destroy = id,
      report_testcase = (\<lambda>r c. (r, True)), testcase_start = id, testcase_complete = (\<lambda>r result. [result]),
      testcase_destroy = id\<rparr>"

definition sample_direct :: "nat \<Rightarrow> direct_env" where
  "sample_direct len =
     \<lparr>de_result_ok = True, de_alloc_ok = True, de_dups = (6, 7, 8), de_null = 9,
      de_getenv = (\<lambda>_. None), de_malloc_ok = True, de_mkstemp = (\<lambda>name. (10, ''/tmp/ctest_a1b2c3d4'')),
      de_strerror = (\<lambda>_. []), de_sigaction = (\<lambda>_. None), de_seek_ok = True, de_output_ok = True, de_read = Some len,
      de_pending = (\<lambda>_. []), de_flushes = (\<lambda>_. False)\<rparr>"

lemma sample_direct_ok:
  assumes "\<not> (\<exists>signum. ending = Some (On_Signal signum))"
  shows "direct_ok (sample_direct (length (dyn_output d))) (d, ending)"
  using assms by (auto simp: direct_ok_def sample_direct_def fds_opened_def direct_temp_def opentemp_def split: option.split ending.split)

lemma sample_fresh:
  assumes "sample_process_ok proc"
  shows "fresh_fds (sample_direct len) (pr_fds proc)"
  using assms by (simp add: fresh_fds_def sample_direct_def sample_process_ok_def direct_temp_def opentemp_def)

definition sample_process :: process where
  "sample_process =
     \<lparr>pr_fds = (\<lambda>fd. if fd \<in> {0, 1, 2} then Some (Inherited (nat fd)) else None), pr_sigs = sig_initial (\<lambda>_. Disp_Default)\<rparr>"

lemma sample_process: "sample_process_ok sample_process"
  by (simp add: sample_process_ok_def sample_process_def inherited_only_def)

definition sample_skip :: dynamic_ops where
  "sample_skip =
     \<lparr>dyn_hooked = False, dyn_failure = None, dyn_stage = 1, dyn_teardown = None,
      dyn_abort_type = CTEST_DYNAMIC_OPS_ABORT_SKIP, dyn_free_fixture = False, dyn_alloc_ok = False,
      dyn_calls = [Stage_Changed 0, Stage_Changed 1, Call_Test], dyn_output = [(Stderr, CHR ''i''), (Stdout, CHR ''h'')]\<rparr>"

lemma sample_skip_ok:
  "opt_all (\<lambda>f. event_ok (Failure_Event f)) (child_failure sample_child sample_skip (Some (On_Skip None)))"
  "direct_ok (sample_direct 2) (sample_skip, Some (On_Skip None))" "ends_by (Some (On_Skip None))"
proof -
  have "length (dyn_output sample_skip) = 2" by (simp add: sample_skip_def)
  then show "direct_ok (sample_direct 2) (sample_skip, Some (On_Skip None))"
    using sample_direct_ok [of "Some (On_Skip None)" sample_skip] by simp
qed (simp_all add: child_failure_def ends_by_def)

theorem runners_agree_witness:
  "\<exists>forked direct rc rc'.
    forking_run_testcase sample_fork (sample_parent (sample_skip, Some (On_Skip None))) sample_reporter
      (child_run sample_child (sample_skip, Some (On_Skip None))) sample_process [] = Done (sample_process, [forked], rc) \<and>
    direct_run_testcase (sample_direct 2) sample_reporter (sample_skip, Some (On_Skip None)) sample_process []
      = Done (sample_process, [direct], rc') \<and>
    res_type forked = res_type direct \<and> (rc = rc' \<longleftrightarrow> res_type direct \<noteq> CTEST_RESULT_SKIPPED)"
proof -
  let ?ending = "Some (On_Skip None)"
  have "pr_sigs sample_process = sig_initial (\<lambda>_. Disp_Default)" "inherited_only (pr_fds sample_process)"
    using sample_process by (simp_all add: sample_process_ok_def)
  moreover have "ch_flushes sample_child = de_flushes (sample_direct 2)" by (simp add: sample_child_def sample_direct_def)
  ultimately show ?thesis
    using runners_agree [of ?ending sample_fork "sample_parent (sample_skip, ?ending)" sample_child sample_process sample_skip "sample_direct 2"
        "\<lambda>_. Disp_Default" sample_reporter "[]"] sample_system [OF sample_process sample_skip_ok(3)] sample_skip_ok
      sample_fresh [OF sample_process]
    by (fastforce simp: sample_reporter_def)
qed

section \<open>The runner interface\<close>

text \<open>
  C7: The two runners behind the interface of \<^verbatim>\<open>runner.h\<close>. For test cases on which the system lets them work, each
  operation of either runner runs the loops of \<^verbatim>\<open>runner_utils.c\<close> with what that runner makes of a test case, gives the process its
  descriptors and signal handlers back, and returns, when the reporter always replies, a number of test cases:
  those that failed for the forking runner, and those that did not return normally (skipped ones too)
  for the direct one.
\<close>

theorem runner_interface:
  assumes "suite_wf sops" and "surroundings_ok su proc C"
    and "ctest_create_forking_runner su sops h = (h', Some forking)" and "ctest_create_direct_runner su sops h = (h', Some direct)"
  shows "runs_as forking sops C (isolated_outcome (su_child su) (su_parent su) (su_execute su)) proc ops \<and>
    runs_as direct sops C (direct_outcome (su_direct su) (su_execute su)) proc ops \<and>
    (always_replies ops \<longrightarrow>
       returns_count forking sops C (\<lambda>c. reported_type (su_child su c) (snd (su_execute su c)) = CTEST_RESULT_FAIL) proc ops \<and>
       returns_count direct sops C (\<lambda>c. snd (su_execute su c) \<noteq> None) proc ops)"
  using runners_run_as [OF assms(1,2)] runners_count [OF assms(1,2)] assms(3,4) by blast

definition sample_surroundings :: "unit surroundings" where
  "sample_surroundings =
     \<lparr>su_fork = (\<lambda>_. sample_fork), su_parent = (\<lambda>_. sample_parent (sample_skip, Some (On_Skip None))), su_child = (\<lambda>_. sample_child),
      su_direct = (\<lambda>_. sample_direct 2), su_execute = (\<lambda>_. (sample_skip, Some (On_Skip None))), su_alloc_ok = True\<rparr>"

definition sample_suites :: "(unit, unit, unit) suite_ops" where
  "sample_suites = \<lparr>get_testsuite = (\<lambda>_. ()), get_test = (\<lambda>_. ()), get_tests = (\<lambda>_. [()]), get_testcases = (\<lambda>_. [(), ()])\<rparr>"

theorem runner_interface_witness:
  "\<exists>h' forking direct.
    ctest_create_forking_runner sample_surroundings sample_suites \<lparr>hp_next = 0, hp_live = {}, hp_oks = [], hp_bad = False\<rparr>
      = (h', Some forking) \<and>
    ctest_create_direct_runner sample_surroundings sample_suites \<lparr>hp_next = 0, hp_live = {}, hp_oks = [], hp_bad = False\<rparr>
      = (h', Some direct) \<and>
    snd (ctest_runner_run_testsuites forking sample_reporter (Done (sample_process, [])) [()]) = 0 \<and>
    snd (ctest_runner_run_testsuites direct sample_reporter (Done (sample_process, [])) [()]) = 2"
    (is "\<exists>h' forking direct. ctest_create_forking_runner _ _ ?h = _ \<and> _")
proof -
  have "pr_sigs sample_process = sig_initial (\<lambda>_. Disp_Default)" "inherited_only (pr_fds sample_process)"
    using sample_process by (simp_all add: sample_process_ok_def)
  then have ok: "surroundings_ok sample_surroundings sample_process UNIV"
    using sample_system [OF sample_process sample_skip_ok(3)] sample_skip_ok(1,2) sample_fresh [OF sample_process]
    by (auto simp: surroundings_ok_def sample_surroundings_def forked_ok_def process_ok_def)
  have wf: "suite_wf sample_suites"
    by (simp add: suite_wf_def sample_suites_def)
  have "always_replies sample_reporter"
    by (simp add: always_replies_def sample_reporter_def)
  moreover obtain h' and forking direct :: "(ctest_result list, unit, unit, unit) ctest_runner" where
    create: "ctest_create_forking_runner sample_surroundings sample_suites ?h = (h', Some forking)"
      "ctest_create_direct_runner sample_surroundings sample_suites ?h = (h', Some direct)"
    by (simp add: ctest_create_forking_runner_def ctest_create_direct_runner_def alloc_block_def)
  ultimately have
    "returns_count forking sample_suites UNIV
       (\<lambda>c. reported_type (su_child sample_surroundings c) (snd (su_execute sample_surroundings c)) = CTEST_RESULT_FAIL)
       sample_process sample_reporter"
    "returns_count direct sample_suites UNIV (\<lambda>c. snd (su_execute sample_surroundings c) \<noteq> None) sample_process sample_reporter"
    using runner_interface [OF wf ok create, of sample_reporter] by blast+
  then have "snd (ctest_runner_run_testsuites forking sample_reporter (Done (sample_process, [])) [()]) = 0"
    "snd (ctest_runner_run_testsuites direct sample_reporter (Done (sample_process, [])) [()]) = 2"
    by (simp_all add: returns_count_def suite_testcases_def sample_suites_def sample_surroundings_def reported_type_def)
  with create show ?thesis
    by blast
qed

section \<open>The program with its runners\<close>

text \<open>
  What the run command prints and returns when the runner never ends in an error and counts the test cases with a
  property, and what a runner does with the suites that are loaded.
\<close>

lemma run_counted:
  assumes "heap_ok (ld_heap (cl_ld cl))" and "hp_oks (ld_heap (cl_ld cl)) = []"
    and "getopt_all ''nh'' argv = (opts, args)" and "run_options opts True = Inr isolated"
    and "list_all (\<lambda>arg. module_ok (ce_modules env arg)) args"
    and "dup_stream (ce_dup env) = (Some (fd, mode), opened)" and "pr_fds (cl_proc cl) fd = None" and "ce_allocs env = []"
    and "\<forall>suites. list_all2 (\<lambda>arg. suite_for (ce_modules env arg)) args suites \<longrightarrow>
      makes_runner (runner_maker lib isolated) loader_suite_ops (set (testcases_of suites)) outcome
        (reporting_process env cl) (console_ops loader_suite_ops loader_names)"
    and "\<And>c. snd (outcome c) = (if counts c then 1 else 0)"
  shows "\<exists>suites. list_all2 (\<lambda>arg. suite_for (ce_modules env arg)) args suites \<and>
    (case cli_main env lib (self # ''run'' # argv) cl of
       Done (cl', code) \<Rightarrow>
         cl_out cl' = cl_out cl @
           concat (map (\<lambda>c. testcase_text loader_suite_ops loader_names c (fst (outcome c))) (testcases_of suites)) \<and>
         code = (if \<exists>c \<in> set (testcases_of suites). counts c then 69 else 0) \<and> gives_back cl cl'
     | _ \<Rightarrow> False)"
proof -
  from run_reports [OF assms(1-9), of self] obtain suites where
    s: "list_all2 (\<lambda>arg. suite_for (ce_modules env arg)) args suites"
       "case cli_main env lib (self # ''run'' # argv) cl of
          Done (cl', code) \<Rightarrow>
            cl_out cl' = cl_out cl @ concat (map (\<lambda>c. testcase_text loader_suite_ops loader_names c (fst (outcome c)))
              (upto_error (\<lambda>c. snd (outcome c)) (testcases_of suites))) \<and>
            code = (if list_ex (\<lambda>c. snd (outcome c) \<noteq> 0) (testcases_of suites) then EX_UNAVAILABLE else EX_OK) \<and>
            gives_back cl cl'
        | _ \<Rightarrow> False"
    unfolding Let_def by (elim exE conjE) (rule that)
  have "upto_error (\<lambda>c. snd (outcome c)) (testcases_of suites) = testcases_of suites"
    by (rule upto_error_all) (simp add: any_error_def list_ex_iff assms(10))
  moreover have "list_ex (\<lambda>c. snd (outcome c) \<noteq> 0) (testcases_of suites) \<longleftrightarrow> (\<exists>c \<in> set (testcases_of suites). counts c)"
    by (auto simp: list_ex_iff assms(10))
  ultimately show ?thesis
    using s(2) by (intro exI [of _ suites] conjI s(1)) (auto simp: EX_UNAVAILABLE_def EX_OK_def split: run.splits)
qed

text \<open>
  C3: The run command from end to end, without options. For modules that can be loaded and as far as the system lets the
  forking runner work in a process where the reporter has its own descriptor, the command makes the forking runner, which
  runs every test case of every suite in a child, in order, and prints its report. The exit code is 69 if some
  test case failed and 0 otherwise; in particular it is 0 when a child was killed, which is reported as an
  internal error and not as a failure. Memory, modules, descriptors and signal handlers are given back.
\<close>

theorem run_isolated:
  assumes "su_execute su = testcase_execute alloc_ok fixture_ok oom" and "su_alloc_ok su"
    and "heap_ok (ld_heap (cl_ld cl))" and "hp_oks (ld_heap (cl_ld cl)) = []" and "getopt_all ''nh'' argv = ([], args)"
    and "list_all (\<lambda>arg. module_ok (ce_modules env arg)) args"
    and "dup_stream (ce_dup env) = (Some (fd, mode), opened)" and "pr_fds (cl_proc cl) fd = None" and "ce_allocs env = []"
    and "\<forall>suites. list_all2 (\<lambda>arg. suite_for (ce_modules env arg)) args suites \<longrightarrow>
      (\<forall>c \<in> set (testcases_of suites).
         forked_ok (su_fork su) (su_child su) (su_parent su) (su_execute su) (reporting_process env cl) c)"
  shows "\<exists>suites. list_all2 (\<lambda>arg. suite_for (ce_modules env arg)) args suites \<and>
    (case cli_main env (ctest_exec su) (self # ''run'' # argv) cl of
       Done (cl', code) \<Rightarrow>
         let cs = testcases_of suites; outcome = isolated_outcome (su_child su) (su_parent su) (su_execute su)
         in cl_out cl' = cl_out cl @ concat (map (\<lambda>c. testcase_text loader_suite_ops loader_names c (fst (outcome c))) cs) \<and>
            code = (if \<exists>c \<in> set cs. reported_type (su_child su c) (snd (su_execute su c)) = CTEST_RESULT_FAIL then 69 else 0) \<and>
            gives_back cl cl'
     | _ \<Rightarrow> False)"
proof -
  let ?outcome = "isolated_outcome (su_child su) (su_parent su) (su_execute su)"
  let ?counts = "\<lambda>c. reported_type (su_child su c) (snd (su_execute su c)) = CTEST_RESULT_FAIL"
  have opt: "run_options [] True = Inr True" by simp
  have rc: "snd (?outcome c) = (if ?counts c then 1 else 0)" for c
    by (simp add: isolated_outcome_def split: prod.split)
  have made: "\<forall>suites. list_all2 (\<lambda>arg. suite_for (ce_modules env arg)) args suites \<longrightarrow>
      makes_runner (runner_maker (ctest_exec su) True) loader_suite_ops (set (testcases_of suites)) ?outcome
        (reporting_process env cl) (console_ops loader_suite_ops loader_names)"
    unfolding runner_maker_def ctest_exec_def if_True exec_lib.simps
    by (intro allI impI forking_runner_made [OF suite_wf_loader assms(2)]) (use assms(10) in blast)
  show ?thesis
    using run_counted [where outcome = ?outcome and counts = ?counts, OF assms(3-5) opt assms(6-9) made rc, where self = self]
    unfolding Let_def .
qed

text \<open>
  C4: The run command with \<^verbatim>\<open>-n\<close>, from end to end. For modules that can be loaded and as far as the system lets the
  direct runner work, the command makes the direct runner, which runs every test case of every suite in the process of the
  command, in order, and prints the report of each; the descriptors and signal handlers of the process are what they
  were, and memory and modules are given back. The exit
  code is 0 exactly when every test case returned normally: a skipped test case makes it 69 here, as a signal does.
\<close>

theorem run_direct:
  assumes "su_execute su = testcase_execute alloc_ok fixture_ok oom" and "su_alloc_ok su"
    and "heap_ok (ld_heap (cl_ld cl))" and "hp_oks (ld_heap (cl_ld cl)) = []" and "getopt_all ''nh'' argv = (''n'', args)"
    and "list_all (\<lambda>arg. module_ok (ce_modules env arg)) args"
    and "dup_stream (ce_dup env) = (Some (fd, mode), opened)" and "pr_fds (cl_proc cl) fd = None" and "ce_allocs env = []"
    and "\<forall>suites. list_all2 (\<lambda>arg. suite_for (ce_modules env arg)) args suites \<longrightarrow>
      (\<forall>c \<in> set (testcases_of suites). process_ok (su_direct su) (su_execute su) (reporting_process env cl) c)"
  shows "\<exists>suites. list_all2 (\<lambda>arg. suite_for (ce_modules env arg)) args suites \<and>
    (case cli_main env (ctest_exec su) (self # ''run'' # argv) cl of
       Done (cl', code) \<Rightarrow>
         let cs = testcases_of suites; outcome = direct_outcome (su_direct su) (su_execute su)
         in cl_out cl' = cl_out cl @ concat (map (\<lambda>c. testcase_text loader_suite_ops loader_names c (fst (outcome c))) cs) \<and>
            code = (if \<exists>c \<in> set cs. snd (su_execute su c) \<noteq> None then 69 else 0) \<and> gives_back cl cl'
     | _ \<Rightarrow> False)"
proof -
  let ?outcome = "direct_outcome (su_direct su) (su_execute su)" and ?counts = "\<lambda>c. snd (su_execute su c) \<noteq> None"
  have opt: "run_options ''n'' True = Inr False" by simp
  have rc: "snd (?outcome c) = (if ?counts c then 1 else 0)" for c
    by (simp add: direct_outcome_def split: prod.split)
  have made: "\<forall>suites. list_all2 (\<lambda>arg. suite_for (ce_modules env arg)) args suites \<longrightarrow>
      makes_runner (runner_maker (ctest_exec su) False) loader_suite_ops (set (testcases_of suites)) ?outcome
        (reporting_process env cl) (console_ops loader_suite_ops loader_names)"
    unfolding runner_maker_def ctest_exec_def if_False exec_lib.simps
    by (intro allI impI direct_runner_made [OF suite_wf_loader assms(2)]) (use assms(10) in blast)
  show ?thesis
    using run_counted [where outcome = ?outcome and counts = ?counts, OF assms(3-5) opt assms(6-9) made rc, where self = self]
    unfolding Let_def .
qed

text \<open>A suite whose only test is killed: one internal error is reported, and the exit code is 0.\<close>

definition killed_acts :: "action list" where
  "killed_acts = [Act_Signal 9]"

definition sample_execute :: "testsuite \<times> test \<times> testcase \<Rightarrow> dynamic_ops \<times> ending option" where
  "sample_execute = testcase_execute True True []"

lemma killed_executes:
  assumes "suite_for (sample_module killed_acts) s" and "c \<in> set (testcases_of [s])"
  shows "snd (sample_execute c) = Some (On_Signal 9)"
  using sample_suite [OF assms(1)] assms(2)
  by (auto simp: testcases_of_def sample_execute_def testcase_execute_def testcase_op_execute_def killed_acts_def
      default_fixture_provider_def enter_stage_def call_function_def add_call_def Let_def exec_step.simps)

lemma killed_suites:
  assumes "list_all2 (\<lambda>arg. suite_for (ce_modules (sample_env killed_acts) arg)) [''a.so''] suites" and "c \<in> set (testcases_of suites)"
  shows "snd (sample_execute c) = Some (On_Signal 9)"
proof -
  from assms(1) obtain s where "suites = [s]" "suite_for (sample_module killed_acts) s" by (auto simp: sample_ok list_all2_Cons1)
  with assms(2) show ?thesis using killed_executes by blast
qed

text \<open>The system around these test cases: what the forking and the direct runner are given.\<close>

definition run_surroundings :: "(testsuite \<times> test \<times> testcase) surroundings" where
  "run_surroundings =
     \<lparr>su_fork = (\<lambda>c. sample_fork), su_parent = (\<lambda>c. sample_parent (sample_execute c)), su_child = (\<lambda>c. sample_child),
      su_direct = (\<lambda>c. sample_direct (length (dyn_output (fst (sample_execute c))))), su_execute = sample_execute, su_alloc_ok = True\<rparr>"

lemma sample_arguments:
  "getopt_all ''nh'' [''a.so''] = ([], [''a.so''])" "getopt_all ''nh'' [''-n'', ''a.so''] = (''n'', [''a.so''])"
  "list_all (\<lambda>arg. module_ok (ce_modules (sample_env acts) arg)) [''a.so'']"
  by (simp_all add: sample_ok)

lemma not_caught: "\<not> caught sample_child 9"
  by (simp add: caught_def signals_def)

lemma sample_reporting: "sample_process_ok (reporting_process (sample_env acts) sample_cli)"
  by (auto simp: sample_process_ok_def reporting_process_def sample_env_def sample_cli_def sys_dup_def inherited_only_def)

theorem run_isolated_witness:
  "\<exists>cl'. cli_main (sample_env killed_acts) (ctest_exec run_surroundings) [''ctest'', ''run'', ''a.so''] sample_cli = Done (cl', 0)"
    (is "\<exists>cl'. ?main = Done (cl', 0)")
proof -
  let ?su = run_surroundings and ?env = "sample_env killed_acts"
  have "forked_ok (su_fork ?su) (su_child ?su) (su_parent ?su) (su_execute ?su) (reporting_process ?env sample_cli) c"
    if "snd (sample_execute c) = Some (On_Signal 9)" for c
  proof -
    have "sample_execute c = (fst (sample_execute c), Some (On_Signal 9))" "ends_by (Some (On_Signal 9))"
      using that by (simp_all add: prod_eq_iff ends_by_def fatal_signal_def)
    with sample_system [OF sample_reporting [of killed_acts] this(2), of "fst (sample_execute c)"] show ?thesis
      using that not_caught by (simp add: run_surroundings_def forked_ok_def child_failure_def)
  qed
  then have ok: "\<forall>suites. list_all2 (\<lambda>arg. suite_for (ce_modules ?env arg)) [''a.so''] suites \<longrightarrow>
      (\<forall>c \<in> set (testcases_of suites).
         forked_ok (su_fork ?su) (su_child ?su) (su_parent ?su) (su_execute ?su) (reporting_process ?env sample_cli) c)"
    using killed_suites by blast
  have su: "su_execute ?su = testcase_execute True True []" "su_alloc_ok ?su"
    by (simp_all add: run_surroundings_def sample_execute_def)
  from run_isolated [OF su sample_ok(1,2) sample_arguments(1,3) sample_ok(6-8) ok, where self = "''ctest''"] obtain suites cl' code where
    s: "list_all2 (\<lambda>arg. suite_for (ce_modules ?env arg)) [''a.so''] suites" "?main = Done (cl', code)"
       "code = (if \<exists>c \<in> set (testcases_of suites). reported_type (su_child ?su c) (snd (su_execute ?su c)) = CTEST_RESULT_FAIL
         then 69 else 0)"
    by (cases ?main) (auto simp: Let_def)
  then have "code = 0"
    using killed_suites [OF s(1)] not_caught by (auto simp: reported_type_def run_surroundings_def)
  with s(2) show ?thesis by blast
qed

text \<open>With \<^verbatim>\<open>-n\<close>, a test that is skipped makes the exit code 69.\<close>

definition skip_acts :: "action list" where
  "skip_acts = [Act_Skip ''t.c'' 5 ''no net'']"

lemma skip_suites:
  assumes "list_all2 (\<lambda>arg. suite_for (ce_modules (sample_env skip_acts) arg)) [''a.so''] suites"
  shows "\<exists>c. testcases_of suites = [c] \<and> (\<exists>failure. snd (sample_execute c) = Some (On_Skip failure))"
proof -
  from assms obtain s where "suites = [s]" "suite_for (sample_module skip_acts) s" by (auto simp: sample_ok list_all2_Cons1)
  with sample_suite [of skip_acts s] show ?thesis
    by (auto simp: testcases_of_def sample_execute_def testcase_execute_def testcase_op_execute_def skip_acts_def
        default_fixture_provider_def enter_stage_def call_function_def add_call_def dynamic_ops_op_report_failure_def
        dynamic_ops_abort_tail_def Let_def exec_step.simps)
qed

theorem run_direct_witness:
  "\<exists>cl'. cli_main (sample_env skip_acts) (ctest_exec run_surroundings) [''ctest'', ''run'', ''-n'', ''a.so''] sample_cli = Done (cl', 69)"
    (is "\<exists>cl'. ?main = Done (cl', 69)")
proof -
  let ?su = run_surroundings and ?env = "sample_env skip_acts"
  have "process_ok (su_direct ?su) (su_execute ?su) (reporting_process ?env sample_cli) c"
    if "snd (sample_execute c) = Some (On_Skip failure)" for c failure
    using that sample_fresh [OF sample_reporting] sample_reporting [of skip_acts]
      sample_direct_ok [of "Some (On_Skip failure)" "fst (sample_execute c)"]
    by (auto simp: run_surroundings_def process_ok_def sample_process_ok_def prod_eq_iff
        intro!: exI [of _ "\<lambda>_. Disp_Default"]) (metis prod.collapse)
  then have ok: "\<forall>suites. list_all2 (\<lambda>arg. suite_for (ce_modules ?env arg)) [''a.so''] suites \<longrightarrow>
      (\<forall>c \<in> set (testcases_of suites). process_ok (su_direct ?su) (su_execute ?su) (reporting_process ?env sample_cli) c)"
    using skip_suites by fastforce
  have su: "su_execute ?su = testcase_execute True True []" "su_alloc_ok ?su"
    by (simp_all add: run_surroundings_def sample_execute_def)
  from run_direct [OF su sample_ok(1,2) sample_arguments(2,3) sample_ok(6-8) ok, where self = "''ctest''"] obtain suites cl' code where
    s: "list_all2 (\<lambda>arg. suite_for (ce_modules ?env arg)) [''a.so''] suites" "?main = Done (cl', code)"
       "code = (if \<exists>c \<in> set (testcases_of suites). snd (su_execute ?su c) \<noteq> None then 69 else 0)"
    by (cases ?main) (auto simp: Let_def)
  then have "code = 69"
    using skip_suites [OF s(1)] by (auto simp: run_surroundings_def)
  with s(2) show ?thesis by blast
qed

section \<open>The self-test suite with the runners\<close>

text \<open>
  C8: The suite for trying out runners, run by both of them. As far as the system lets them work, each runner runs
  the 80 test cases of a suite that could be built and reports for every one of them what its kind is to show: a
  pass, a skip in the setup stage, or a failure in the stage of the kind. With a reporter that always replies, the run
  returns 48 for the forking runner, the failing ones, and 64 for the direct one, for which the skipped ones count too.
\<close>

theorem self_suite_run:
  assumes "heap_ok h" and "ctest_create_testing_testsuite name h = (h', Some s)" and "su_execute su = self_execute source alloc_ok"
    and "surroundings_ok su proc (set (suite_testcases self_suite_ops [s]))" and "always_replies ops"
    and "ctest_create_forking_runner su self_suite_ops h1 = (h2, Some forking)"
    and "ctest_create_direct_runner su self_suite_ops h1 = (h2, Some direct)"
  shows "let cs = suite_testcases self_suite_ops [s]; forked = isolated_outcome (su_child su) (su_parent su) (su_execute su);
        directly = direct_outcome (su_direct su) (su_execute su)
     in length cs = 80 \<and>
        (\<forall>c \<in> set cs. shows_kind alloc_ok (sc_ops (snd (snd c))) (fst (forked c)) \<and>
           shows_kind alloc_ok (sc_ops (snd (snd c))) (fst (directly c))) \<and>
        runs_as forking self_suite_ops (set cs) forked proc ops \<and> runs_as direct self_suite_ops (set cs) directly proc ops \<and>
        snd (ctest_runner_run_testsuites forking ops (Done (proc, r)) [s]) = 48 \<and>
        snd (ctest_runner_run_testsuites direct ops (Done (proc, r)) [s]) = 64"
proof -
  have "length (suite_testcases self_suite_ops [s]) = 80"
    using self_testcases_count [OF assms(1,2), of "\<lambda>_. True"] by (simp add: kind_counts)
  then show ?thesis
    using self_outcomes [OF assms(3)] runners_run_as(1) [OF suite_wf_self assms(4,6), of ops]
      runners_run_as(2) [OF suite_wf_self assms(4,7), of ops]
      self_suite_counts(1) [OF assms(1-6)] self_suite_counts(2) [OF assms(1-5,7)]
    unfolding Let_def by blast
qed

definition self_surroundings :: "self_testcase_object surroundings" where
  "self_surroundings =
     (let execute = self_execute ''t.c'' True
      in \<lparr>su_fork = (\<lambda>c. sample_fork), su_parent = (\<lambda>c. sample_parent (execute c)), su_child = (\<lambda>c. sample_child),
          su_direct = (\<lambda>c. sample_direct (length (dyn_output (fst (execute c))))), su_execute = execute, su_alloc_ok = True\<rparr>)"

definition self_reporter :: "(ctest_result list, self_suite, self_test_object, self_testcase_object) reporter_ops" where
  "self_reporter =
     \<lparr>report_testsuite = (\<lambda>r s. (r, True)), testsuite_destroy = id, report_test = (\<lambda>r t. (r, True)), test_destroy = id,
      report_testcase = (\<lambda>r c. (r, True)), testcase_start = id, testcase_complete = (\<lambda>r result. r @ [result]),
      testcase_destroy = id\<rparr>"

lemma self_no_signal: "snd (self_execute source alloc_ok c) \<noteq> Some (On_Signal signum)"
  by (cases "sc_ops (snd (snd c))") (simp_all add: self_execute_def)

lemma self_surroundings_ok:
  assumes "cstring (testcase_op_get_name c)" and "length (testcase_op_get_name c) < 1000"
  shows "forked_ok (su_fork self_surroundings) (su_child self_surroundings) (su_parent self_surroundings)
      (su_execute self_surroundings) sample_process c \<and>
    process_ok (su_direct self_surroundings) (su_execute self_surroundings) sample_process c"
proof -
  obtain d ending where x: "self_execute ''t.c'' True c = (d, ending)" by (cases "self_execute ''t.c'' True c")
  have no_signal: "\<not> (\<exists>signum. ending = Some (On_Signal signum))"
    using self_no_signal [of "''t.c''" True c] x by auto
  then have "ends_by ending" by (auto simp: ends_by_def split: option.split ending.split)
  note sys = sample_system [OF sample_process this, of d]
  have "opt_all (\<lambda>f. event_ok (Failure_Event f)) (child_failure sample_child d ending)"
    using assms self_failures_fit [of "''t.c''" c sample_child d True] x by (simp add: cstring_def)
  with sys x have "forked_ok (su_fork self_surroundings) (su_child self_surroundings) (su_parent self_surroundings)
      (su_execute self_surroundings) sample_process c"
    by (simp add: self_surroundings_def Let_def forked_ok_def)
  moreover have "process_ok (su_direct self_surroundings) (su_execute self_surroundings) sample_process c"
    using sample_direct_ok [OF no_signal, of d] sample_fresh [OF sample_process] sample_process x
    by (auto simp: self_surroundings_def Let_def process_ok_def sample_process_ok_def intro!: exI [of _ "\<lambda>_. Disp_Default"])
  ultimately show ?thesis by blast
qed

theorem self_suite_run_witness:
  "\<exists>h' s h2 forking direct.
    ctest_create_testing_testsuite ''x'' \<lparr>hp_next = 0, hp_live = {}, hp_oks = [], hp_bad = False\<rparr> = (h', Some s) \<and>
    ctest_create_forking_runner self_surroundings self_suite_ops \<lparr>hp_next = 0, hp_live = {}, hp_oks = [], hp_bad = False\<rparr>
      = (h2, Some forking) \<and>
    ctest_create_direct_runner self_surroundings self_suite_ops \<lparr>hp_next = 0, hp_live = {}, hp_oks = [], hp_bad = False\<rparr>
      = (h2, Some direct) \<and>
    snd (ctest_runner_run_testsuites forking self_reporter (Done (sample_process, [])) [s]) = 48 \<and>
    snd (ctest_runner_run_testsuites direct self_reporter (Done (sample_process, [])) [s]) = 64"
proof -
  let ?h = "\<lparr>hp_next = 0, hp_live = {}, hp_oks = [], hp_bad = False\<rparr>"
  have h: "heap_ok ?h" by (simp add: heap_ok_def)
  obtain h' res where c: "ctest_create_testing_testsuite ''x'' ?h = (h', res)" by (meson surj_pair)
  with testing_testsuite_made [OF h c] obtain s where s: "ctest_create_testing_testsuite ''x'' ?h = (h', Some s)"
    by (cases res) auto
  have "\<forall>name \<in> set (map testcase_op_get_name (suite_testcases self_suite_ops [s])). cstring name \<and> length name < 1000"
    unfolding self_testcase_names [OF h s] cstring_def by code_simp
  then have ok: "surroundings_ok self_surroundings sample_process (set (suite_testcases self_suite_ops [s]))"
    using self_surroundings_ok by (auto simp: surroundings_ok_def) (simp add: self_surroundings_def Let_def)
  have execute: "su_execute self_surroundings = self_execute ''t.c'' True" by (simp add: self_surroundings_def Let_def)
  have replies: "always_replies self_reporter" by (simp add: always_replies_def self_reporter_def)
  obtain h2 and forking direct :: "(ctest_result list, self_suite, self_test_object, self_testcase_object) ctest_runner" where
    create: "ctest_create_forking_runner self_surroundings self_suite_ops ?h = (h2, Some forking)"
      "ctest_create_direct_runner self_surroundings self_suite_ops ?h = (h2, Some direct)"
    by (simp add: ctest_create_forking_runner_def ctest_create_direct_runner_def alloc_block_def)
  show ?thesis
    using self_suite_run [OF h s execute ok replies create, of "[]"] s create
    unfolding Let_def by blast
qed

end
